(* ===== verification/Prelude.thy ===== *)
theory Prelude
  imports Main "HOL-Library.Word" "HOL-Library.Multiset" "HOL-Library.AList"
    "HOL-Library.List_Lexorder" "HOL-Library.Char_ord"
begin

unbundle bit_operations_syntax

text \<open>
  Shared vocabulary of the development: machine integers and their byte encodings, Rust strings
  as byte strings, hash maps as association lists, saturating arithmetic, and two interfaces
  that several components implement: prefix-free byte encodings (locale \<open>prefix_code\<close>) and
  bounded caches with first-in first-out eviction (locale \<open>fifo_cache\<close>).
\<close>

section \<open>Machine types\<close>

type_synonym u8 = "8 word"
type_synonym u16 = "16 word"
type_synonym u32 = "32 word"
type_synonym u64 = "64 word"
type_synonym u128 = "128 word"
type_synonym bytes = "u8 list"

text \<open>
  A Rust \<open>String\<close> is a sequence of UTF-8 bytes; a HOL \<open>char\<close> is a byte, so \<open>string\<close> is that
  sequence and \<open>as_bytes\<close> only changes the type. \<open>String::len\<close> counts bytes, as \<open>length\<close> does.
\<close>

definition as_bytes :: "string \<Rightarrow> bytes" where
  "as_bytes s = map of_char s"

text \<open>The bytes as a string again.\<close>

definition of_bytes :: "bytes \<Rightarrow> string" where
  "of_bytes b = map (\<lambda>w. char_of (unat w)) b"

text \<open>\<open>x.to_le_bytes()\<close> and \<open>x.to_be_bytes()\<close> for an integer of \<open>n\<close> bytes.\<close>

definition le_bytes :: "nat \<Rightarrow> 'a::len word \<Rightarrow> bytes" where
  "le_bytes n x = map (\<lambda>i. ucast (drop_bit (8 * i) x)) [0..<n]"

definition be_bytes_of :: "nat \<Rightarrow> 'a::len word \<Rightarrow> bytes" where
  "be_bytes_of n x = rev (le_bytes n x)"

text \<open>\<open>(v.len() as u64).to_le_bytes()\<close>: \<open>usize\<close> is 64 bits wide on every supported platform.\<close>

abbreviation len64 :: "'a list \<Rightarrow> bytes" where
  "len64 v \<equiv> le_bytes 8 (of_nat (length v) :: u64)"

text \<open>The closure \<open>field\<close> used by every signing-bytes routine: length prefix, then the bytes.\<close>

definition field :: "bytes \<Rightarrow> bytes" where
  "field b = len64 b @ b"

text \<open>A slice fits the address space: its length fits a \<open>u64\<close>.\<close>

definition fits :: "'a list \<Rightarrow> bool" where
  "fits v \<longleftrightarrow> length v < 2 ^ 64"

section \<open>Saturating and checked arithmetic on naturals below a bound\<close>

text \<open>
  \<open>Amount\<close> values (\<open>u128\<close>) are naturals at most \<open>u128_max\<close>; \<open>saturating_add\<close> and
  \<open>saturating_mul\<close> clip there, \<open>checked_add\<close> is \<open>None\<close> beyond it.
\<close>

definition u128_max :: nat where "u128_max = 2 ^ 128 - 1"
definition u64_max :: nat where "u64_max = 2 ^ 64 - 1"
definition u32_max :: nat where "u32_max = 2 ^ 32 - 1"

definition sat_add :: "nat \<Rightarrow> nat \<Rightarrow> nat \<Rightarrow> nat" where
  "sat_add mx a b = min mx (a + b)"

definition sat_mul :: "nat \<Rightarrow> nat \<Rightarrow> nat \<Rightarrow> nat" where
  "sat_mul mx a b = min mx (a * b)"

definition checked_add :: "nat \<Rightarrow> nat \<Rightarrow> nat \<Rightarrow> nat option" where
  "checked_add mx a b = (if a + b \<le> mx then Some (a + b) else None)"

section \<open>Hash maps as association lists\<close>

text \<open>
  A \<open>HashMap\<close> is an association list with distinct keys. Its order has no meaning in the code;
  where a result could depend on it, a theorem says that it does not.
\<close>

type_synonym ('k, 'v) hmap = "('k \<times> 'v) list"

abbreviation hget :: "('k, 'v) hmap \<Rightarrow> 'k \<Rightarrow> 'v option" where
  "hget \<equiv> map_of"

abbreviation hput :: "'k \<Rightarrow> 'v \<Rightarrow> ('k, 'v) hmap \<Rightarrow> ('k, 'v) hmap" where
  "hput \<equiv> AList.update"

abbreviation hdel :: "'k \<Rightarrow> ('k, 'v) hmap \<Rightarrow> ('k, 'v) hmap" where
  "hdel \<equiv> AList.delete"

abbreviation hkeys :: "('k, 'v) hmap \<Rightarrow> 'k list" where
  "hkeys m \<equiv> map fst m"

definition hcontains :: "('k, 'v) hmap \<Rightarrow> 'k \<Rightarrow> bool" where
  "hcontains m k \<longleftrightarrow> k \<in> set (hkeys m)"

text \<open>The eviction loop \<open>while order.len() >= cap { pop_front; remove }\<close>.\<close>

fun evict :: "nat \<Rightarrow> 'k list \<Rightarrow> ('k, 'v) hmap \<Rightarrow> 'k list \<times> ('k, 'v) hmap" where
  "evict cap [] m = ([], m)"
| "evict cap (k # ks) m =
     (if cap \<le> length (k # ks) then evict cap ks (hdel k m) else (k # ks, m))"

section \<open>Collections\<close>

named_theorems bound_simps \<open>unfolding of the bounds and of saturating arithmetic\<close>
named_theorems enc_simps \<open>unfolding of byte encoders\<close>

lemmas [bound_simps] = sat_add_def sat_mul_def checked_add_def
lemmas [enc_simps] = field_def

section \<open>Strings and integer encodings\<close>

lemma as_bytes_Nil [simp]: "as_bytes [] = []"
  by (simp add: as_bytes_def)

lemma length_as_bytes [simp]: "length (as_bytes s) = length s"
  by (simp add: as_bytes_def)

lemma of_char_eq_u8: "(of_char c :: u8) = of_char d \<longleftrightarrow> c = d"
proof
  assume "(of_char c :: u8) = of_char d"
  then have "unat (of_nat (of_char c) :: u8) = unat (of_nat (of_char d) :: u8)"
    by (simp only: of_nat_of_char)
  then have "(of_char c :: nat) mod 256 = of_char d mod 256"
    by (simp only: unat_of_nat) simp
  then show "c = d"
    by simp
qed simp

lemma as_bytes_inject [simp]: "as_bytes s = as_bytes t \<longleftrightarrow> s = t"
proof -
  have "of_char c = (of_char d :: u8) \<longleftrightarrow> c = d" for c d :: char
    by (simp add: of_char_eq_u8)
  then have "inj (of_char :: char \<Rightarrow> u8)"
    by (simp add: inj_def)
  then show ?thesis
    by (simp add: as_bytes_def inj_map_eq_map)
qed

lemma inj_of_bytes: "inj of_bytes"
proof -
  have "char_of (unat a) = char_of (unat b) \<Longrightarrow> a = b" for a b :: u8
  proof -
    assume "(char_of (unat a) :: char) = char_of (unat b)"
    then have "unat a mod 256 = unat b mod 256" by (metis of_char_of)
    moreover have "unat a < 256" "unat b < 256"
      using unsigned_less [of a] unsigned_less [of b] by simp_all
    ultimately show "a = b" by (simp add: word_unat_eq_iff)
  qed
  then have "inj (\<lambda>w :: u8. char_of (unat w))" by (simp add: inj_def)
  then show ?thesis unfolding of_bytes_def by (simp add: inj_mapI)
qed

lemma of_char_char_of_u8: "of_char (char_of (unat w)) = (w :: u8)"
proof -
  have "unat w < 256" using unsigned_less [of w] by simp
  then have "of_char (char_of (unat w)) = unat w" by simp
  then have "of_nat (of_char (char_of (unat w))) = w" by simp
  then show ?thesis by (simp only: of_nat_of_char)
qed

lemma length_le_bytes [simp]: "length (le_bytes n x) = n"
  by (simp add: le_bytes_def)

lemma nth_le_bytes [simp]: "i < n \<Longrightarrow> le_bytes n x ! i = ucast (drop_bit (8 * i) x)"
  by (simp add: le_bytes_def)

lemma le_bytes_inject:
  fixes x y :: "'a::len word"
  assumes "LENGTH('a) \<le> 8 * n"
  shows "le_bytes n x = le_bytes n y \<longleftrightarrow> x = y"
proof
  assume eq: "le_bytes n x = le_bytes n y"
  show "x = y"
  proof (rule bit_word_eqI)
    fix k
    assume "k < LENGTH('a)"
    then have i: "k div 8 < n" using assms by (simp add: less_mult_imp_div_less mult.commute)
    then have "(ucast (drop_bit (8 * (k div 8)) x) :: u8) = ucast (drop_bit (8 * (k div 8)) y)"
      using eq by (metis nth_le_bytes)
    then have "bit (ucast (drop_bit (8 * (k div 8)) x) :: u8) (k mod 8)
      = bit (ucast (drop_bit (8 * (k div 8)) y) :: u8) (k mod 8)" by simp
    then show "bit x k = bit y k"
      by (simp add: bit_unsigned_iff bit_drop_bit_eq)
  qed
qed simp

lemma le_bytes_u64_inject [simp]: "le_bytes 8 (x :: u64) = le_bytes 8 y \<longleftrightarrow> x = y"
  by (rule le_bytes_inject) simp

lemma le_bytes_u32_inject [simp]: "le_bytes 4 (x :: u32) = le_bytes 4 y \<longleftrightarrow> x = y"
  by (rule le_bytes_inject) simp

lemma le_bytes_u128_inject [simp]: "le_bytes 16 (x :: u128) = le_bytes 16 y \<longleftrightarrow> x = y"
  by (rule le_bytes_inject) simp

lemma of_nat_u64_inject:
  "a < 2 ^ 64 \<Longrightarrow> b < 2 ^ 64 \<Longrightarrow> (of_nat a :: u64) = of_nat b \<longleftrightarrow> a = b"
  by (simp add: word_of_nat_eq_iff take_bit_nat_eq_self)

lemma len_u64_inject:
  "fits v \<Longrightarrow> fits w \<Longrightarrow> (of_nat (length v) :: u64) = of_nat (length w) \<longleftrightarrow> length v = length w"
  by (simp add: fits_def of_nat_u64_inject)

lemma len64_inject:
  "fits v \<Longrightarrow> fits w \<Longrightarrow> len64 v = len64 w \<longleftrightarrow> length v = length w"
  by (simp add: len_u64_inject)

lemma fits_as_bytes [simp]: "fits (as_bytes s) = fits s"
  by (simp add: fits_def)

section \<open>Prefix-free encodings\<close>

text \<open>
  The contract every signed or hashed encoding of the code relies on: within its domain, an
  encoder never produces a string that is a prefix of another one's, so fields written one after
  the other can be told apart. The lemmas give injectivity, and lift the law to sequences.
\<close>

locale prefix_code =
  fixes enc :: "'a \<Rightarrow> bytes"
    and ok :: "'a \<Rightarrow> bool"
  assumes prefix_free: "ok x \<Longrightarrow> ok y \<Longrightarrow> enc x @ r = enc y @ s \<Longrightarrow> x = y \<and> r = s"
begin

lemma enc_inject: "ok x \<Longrightarrow> ok y \<Longrightarrow> enc x = enc y \<longleftrightarrow> x = y"
  using prefix_free [of x y "[]" "[]"] by auto

lemma enc_append_inject:
  "ok x \<Longrightarrow> ok y \<Longrightarrow> enc x @ r = enc y @ s \<longleftrightarrow> x = y \<and> r = s"
  using prefix_free by blast

lemma concat_inject:
  assumes "length xs = length ys" "list_all ok xs" "list_all ok ys"
    "concat (map enc xs) @ r = concat (map enc ys) @ s"
  shows "xs = ys \<and> r = s"
  using assms
proof (induction xs ys rule: list_induct2)
  case Nil
  then show ?case by simp
next
  case (Cons x xs y ys)
  then have "x = y \<and> concat (map enc xs) @ r = concat (map enc ys) @ s"
    by (intro prefix_free) simp_all
  with Cons show ?case by auto
qed

lemma counted_inject:
  assumes "fits xs" "fits ys" "list_all ok xs" "list_all ok ys"
    "len64 xs @ concat (map enc xs) @ r = len64 ys @ concat (map enc ys) @ s"
  shows "xs = ys \<and> r = s"
proof -
  from assms(5) have "len64 xs = len64 ys"
    and rest: "concat (map enc xs) @ r = concat (map enc ys) @ s"
    by (simp_all add: append_eq_append_conv)
  then have "length xs = length ys"
    using assms(1,2) by (simp add: len_u64_inject)
  then show ?thesis
    using concat_inject assms(3,4) rest by blast
qed

end

text \<open>A fixed-width encoding is prefix free as soon as it is injective.\<close>

lemma fixed_width_prefix_code:
  assumes "\<And>x. length (enc x) = n" "\<And>x y. enc x = enc y \<Longrightarrow> x = y"
  shows "prefix_code enc (\<lambda>_. True)"
  by unfold_locales (metis append_eq_append_conv assms)

interpretation u64_code: prefix_code "le_bytes 8 :: u64 \<Rightarrow> bytes" "\<lambda>_. True"
  by (rule fixed_width_prefix_code [of _ 8]) simp_all

interpretation u32_code: prefix_code "le_bytes 4 :: u32 \<Rightarrow> bytes" "\<lambda>_. True"
  by (rule fixed_width_prefix_code [of _ 4]) simp_all

interpretation u128_code: prefix_code "le_bytes 16 :: u128 \<Rightarrow> bytes" "\<lambda>_. True"
  by (rule fixed_width_prefix_code [of _ 16]) simp_all

interpretation field_code: prefix_code field fits
proof
  fix x y r s :: bytes
  assume f: "fits x" "fits y" and eq: "field x @ r = field y @ s"
  then have "len64 x = len64 y" and xy: "x @ r = y @ s"
    by (simp_all add: field_def append_eq_append_conv)
  with f have "length x = length y" by (simp add: len_u64_inject)
  with xy show "x = y \<and> r = s" by simp
qed

lemma length_field [simp]: "length (field b) = 8 + length b"
  by (simp add: field_def)

text \<open>Fields and fixed-width integers peel off one at a time.\<close>

lemmas peel_simps =
  field_code.enc_append_inject field_code.enc_inject
  u64_code.enc_append_inject [OF TrueI TrueI] u32_code.enc_append_inject [OF TrueI TrueI]
  u128_code.enc_append_inject [OF TrueI TrueI]

section \<open>Hash maps\<close>

lemma set_hput: "snd ` set (hput k v m) \<subseteq> insert v (snd ` set m)"
  by (induction m) (auto split: if_splits)

lemma set_hdel: "set (hdel k m) \<subseteq> set m"
  by (induction m) auto

lemma hkeys_hput:
  "distinct (hkeys m) \<Longrightarrow> distinct (hkeys (hput k v m)) \<and> set (hkeys (hput k v m)) = insert k (set (hkeys m))"
  by (simp add: distinct_update dom_update)

lemma hcontains_hget: "hcontains m k \<longleftrightarrow> hget m k \<noteq> None"
  by (simp add: hcontains_def map_of_eq_None_iff)

text \<open>A predicate on every value of a map.\<close>

definition hall :: "('v \<Rightarrow> bool) \<Rightarrow> ('k, 'v) hmap \<Rightarrow> bool" where
  "hall P m \<longleftrightarrow> (\<forall>v. v \<in> snd ` set m \<longrightarrow> P v)"

lemma hall_Nil [simp]: "hall P []"
  by (simp add: hall_def)

lemma hall_hput: "hall P m \<Longrightarrow> P v \<Longrightarrow> hall P (hput k v m)"
  using set_hput [of k v m] unfolding hall_def by blast

lemma hall_subset: "hall P m \<Longrightarrow> set m' \<subseteq> set m \<Longrightarrow> hall P m'"
  unfolding hall_def by blast

lemma hall_hget: "hall P m \<Longrightarrow> hget m k = Some v \<Longrightarrow> P v"
  unfolding hall_def by (drule map_of_SomeD) force

lemma hall_hdel: "hall P m \<Longrightarrow> hall P (hdel k m)"
  by (erule hall_subset) (rule set_hdel)

section \<open>Bounded caches with FIFO eviction\<close>

lemma evict_spec:
  "cap > 0 \<Longrightarrow> evict cap ks m =
     (drop (Suc (length ks) - cap) ks, fold hdel (take (Suc (length ks) - cap) ks) m)"
proof (induction ks arbitrary: m)
  case Nil
  then show ?case by simp
next
  case (Cons k ks)
  show ?case
  proof (cases "cap \<le> length (k # ks)")
    case True
    then have "Suc (length (k # ks)) - cap = Suc (Suc (length ks) - cap)" by simp
    with True Cons show ?thesis by simp
  next
    case False
    then show ?thesis by simp
  qed
qed

lemma fst_fold_hdel: "hkeys (fold hdel ks m) = filter (\<lambda>k. k \<notin> set ks) (hkeys m)"
proof (induction ks arbitrary: m)
  case Nil
  then show ?case by simp
next
  case (Cons k ks)
  have "hkeys (hdel k m) = filter (\<lambda>j. j \<noteq> k) (hkeys m)"
    by (induction m) auto
  with Cons show ?case by (simp add: conj_commute)
qed

lemma set_minus_take: "distinct xs \<Longrightarrow> set xs - set (take n xs) = set (drop n xs)"
proof (induction xs arbitrary: n)
  case Nil
  then show ?case by simp
next
  case (Cons x xs)
  then show ?case
    by (cases n) (auto dest: in_set_takeD in_set_dropD)
qed

lemma set_hkeys_evict:
  assumes "cap > 0" "distinct ks" "set ks = set (hkeys m)"
  shows "set (hkeys (snd (evict cap ks m))) = set (fst (evict cap ks m))"
proof -
  let ?n = "Suc (length ks) - cap"
  have "set ks - set (take ?n ks) = set (drop ?n ks)"
    by (rule set_minus_take [OF assms(2)])
  then show ?thesis
    using assms(1,3) by (simp add: evict_spec fst_fold_hdel set_diff_eq [symmetric])
qed

text \<open>An insertion-ordered map of bounded size.\<close>

definition ordered_ok :: "nat \<Rightarrow> 'k list \<Rightarrow> ('k, 'v) hmap \<Rightarrow> bool" where
  "ordered_ok cap ks m \<longleftrightarrow> 0 < cap \<and> distinct ks \<and> distinct (hkeys m) \<and> set ks = set (hkeys m) \<and> length ks \<le> cap"

lemma evict_keeps:
  "0 < cap \<Longrightarrow> distinct (hkeys m) \<Longrightarrow> distinct (hkeys (snd (evict cap ks m))) \<and> set (snd (evict cap ks m)) \<subseteq> set m"
proof (induction cap ks m rule: evict.induct)
  case (1 cap m)
  then show ?case by simp
next
  case (2 cap k ks m)
  have "distinct (hkeys (hdel k m))" using 2(3) by (simp add: distinct_delete)
  then show ?case using 2 set_hdel [of k m] by (auto simp: Let_def)
qed

lemma ordered_ok_admit:
  assumes "ordered_ok cap ks m" "k \<notin> set (hkeys m)"
  defines "e \<equiv> evict cap ks m"
  shows "fst e = drop (Suc (length ks) - cap) ks" "ordered_ok cap (fst e @ [k]) (hput k v (snd e))"
    "hall P m \<Longrightarrow> P v \<Longrightarrow> hall P (hput k v (snd e))"
proof -
  have o: "0 < cap" "distinct ks" "distinct (hkeys m)" "set ks = set (hkeys m)" "length ks \<le> cap"
    using assms(1) by (auto simp: ordered_ok_def)
  show f: "fst e = drop (Suc (length ks) - cap) ks" using o(1) by (simp add: e_def evict_spec)
  have s: "set (hkeys (snd e)) = set (fst e)" unfolding e_def by (rule set_hkeys_evict [OF o(1,2,4)])
  have d: "distinct (hkeys (snd e))" "set (snd e) \<subseteq> set m" using evict_keeps [OF o(1,3), of ks] by (simp_all add: e_def)
  have "distinct (fst e @ [k])" using assms(2) o by (auto simp: f dest: in_set_dropD)
  moreover have "distinct (hkeys (hput k v (snd e)))" "set (fst e @ [k]) = set (hkeys (hput k v (snd e)))"
    using hkeys_hput [OF d(1)] s by auto
  moreover have "length (fst e @ [k]) \<le> cap" using o(1,5) by (simp add: f)
  ultimately show "ordered_ok cap (fst e @ [k]) (hput k v (snd e))" using o(1) by (simp add: ordered_ok_def)
  show "hall P m \<Longrightarrow> P v \<Longrightarrow> hall P (hput k v (snd e))"
    by (rule hall_hput) (erule hall_subset [OF _ d(2)])
qed

lemma ordered_ok_update:
  assumes "ordered_ok cap ks m" "hget m k \<noteq> None"
  shows "ordered_ok cap ks (hput k v m)"
proof -
  have "k \<in> set (hkeys m)" using assms(2) by (metis map_of_eq_None_iff set_map)
  then show ?thesis using assms(1) hkeys_hput [of m k v] by (auto simp: ordered_ok_def)
qed

text \<open>
  What the components that keep an insertion order promise about an event that carries a key:
  it leaves the order alone, or its key is new and is appended after the oldest keys have made
  room.
\<close>

locale fifo_cache =
  fixes cap :: nat
    and order_of :: "'s \<Rightarrow> 'k list"
    and key :: "'e \<Rightarrow> 'k"
    and admit :: "'e \<Rightarrow> 's \<Rightarrow> 's"
    and inv :: "'s \<Rightarrow> bool"
  assumes cap_pos: "0 < cap"
    and inv_admit: "inv s \<Longrightarrow> inv (admit e s)"
    and admit_order: "inv s \<Longrightarrow> order_of (admit e s) = order_of s \<or>
      key e \<notin> set (order_of s) \<and>
      order_of (admit e s) = drop (Suc (length (order_of s)) - cap) (order_of s) @ [key e]"
begin

lemma admit_bounded: "inv s \<Longrightarrow> length (order_of s) \<le> cap \<Longrightarrow> length (order_of (admit e s)) \<le> cap"
  using cap_pos admit_order [of s e] by auto

lemma inv_run: "inv s \<Longrightarrow> inv (fold admit es s)"
  by (induction es arbitrary: s) (simp_all add: inv_admit)

lemma run_bounded:
  "inv s \<Longrightarrow> length (order_of s) \<le> cap \<Longrightarrow> length (order_of (fold admit es s)) \<le> cap"
  by (induction es arbitrary: s) (simp_all add: inv_admit admit_bounded)

text \<open>
  A key survives as long as fewer events came after it than keys fit: every event moves it at
  most one place towards the front.
\<close>

lemma admit_suffix:
  assumes "inv s" "order_of s = xs @ k # ys" "Suc (length ys) < cap" "length (order_of s) \<le> cap"
  shows "\<exists>xs' ys'. order_of (admit e s) = xs' @ k # ys' \<and> length ys' \<le> Suc (length ys)"
proof (cases "order_of (admit e s) = order_of s")
  case True
  then show ?thesis using assms(2) by (intro exI [of _ xs] exI [of _ ys]) simp
next
  case False
  let ?n = "Suc (length (order_of s)) - cap"
  have "?n \<le> length xs" using assms by simp
  moreover have "order_of (admit e s) = drop ?n (order_of s) @ [key e]"
    using False admit_order [OF assms(1)] by blast
  ultimately have "order_of (admit e s) = drop ?n xs @ k # (ys @ [key e])"
    using assms(2) by simp
  then show ?thesis by (intro exI [of _ "drop ?n xs"] exI [of _ "ys @ [key e]"]) simp
qed

lemma survives_after:
  assumes "inv s" "order_of s = xs @ k # ys" "length (order_of s) \<le> cap"
    "length ys + length es < cap"
  shows "k \<in> set (order_of (fold admit es s))"
  using assms
proof (induction es arbitrary: s xs ys)
  case Nil
  then show ?case by simp
next
  case (Cons e es)
  then obtain xs' ys' where "order_of (admit e s) = xs' @ k # ys'" "length ys' \<le> Suc (length ys)"
    using admit_suffix [of s xs k ys e] by auto
  moreover have "length (order_of (admit e s)) \<le> cap"
    using Cons.prems by (intro admit_bounded)
  ultimately show ?case
    using Cons.prems by (auto simp: inv_admit intro!: Cons.IH [of "admit e s" xs' ys'])
qed

end

end
