(* ===== verification/Canonical.thy ===== *)
theory Canonical
  imports Prelude "HOL-Library.Product_Lexorder"
begin

unbundle bit_operations_syntax

text \<open>
  The value model of \<open>crates/proto/src/value.rs\<close> and the canonical result hash and quorum tally of
  \<open>crates/trust/src/canonical.rs\<close>. A 64-bit float is its bit pattern, so the float
  normalisation is exact. BLAKE3 and the hex encoder are third-party: arguments of the model.
\<close>

section \<open>Values and result sets\<close>

datatype val = VNull | VBool bool | VInt u64 | VFloat u64 | VText string | VBlob bytes

record result_set =
  columns :: "string list"
  rows :: "val list list"

fun type_tag :: "val \<Rightarrow> u8" where
  "type_tag VNull = 0"
| "type_tag (VBool _) = 1"
| "type_tag (VInt _) = 2"
| "type_tag (VFloat _) = 3"
| "type_tag (VText _) = 4"
| "type_tag (VBlob _) = 5"

section \<open>Canonical encoding\<close>

text \<open>IEEE-754 predicates on the bit pattern: \<open>f.is_nan()\<close> and \<open>f == 0.0\<close>.\<close>

definition f64_is_nan :: "u64 \<Rightarrow> bool" where
  "f64_is_nan f \<longleftrightarrow> 0x7ff0000000000000 < f AND 0x7fffffffffffffff"

definition f64_is_zero :: "u64 \<Rightarrow> bool" where
  "f64_is_zero f \<longleftrightarrow> f AND 0x7fffffffffffffff = 0"

definition canonical_f64_bits :: "u64 \<Rightarrow> u64" where
  "canonical_f64_bits f =
     (if f64_is_nan f then 0x7ff8000000000000
      else if f64_is_zero f then 0
      else f)"

fun encode_value :: "val \<Rightarrow> bytes" where
  "encode_value VNull = [type_tag VNull]"
| "encode_value (VBool b) = [type_tag (VBool b), (if b then 1 else 0)]"
| "encode_value (VInt i) = type_tag (VInt i) # le_bytes 8 i"
| "encode_value (VFloat f) = type_tag (VFloat f) # le_bytes 8 (canonical_f64_bits f)"
| "encode_value (VText s) = type_tag (VText s) # len64 s @ as_bytes s"
| "encode_value (VBlob b) = type_tag (VBlob b) # len64 b @ b"

definition encode_row :: "val list \<Rightarrow> bytes" where
  "encode_row row = len64 row @ concat (map encode_value row)"

definition update_len :: "bytes \<Rightarrow> u64 \<Rightarrow> bytes" where
  "update_len hasher n = hasher @ le_bytes 8 n"

definition update_bytes :: "bytes \<Rightarrow> bytes \<Rightarrow> bytes" where
  "update_bytes hasher b = hasher @ len64 b @ b"

definition DOMAIN_result :: bytes where
  "DOMAIN_result = as_bytes ''duckdb-p2p-result-v1''"

text \<open>
  The hasher state is the byte string fed to it so far; \<open>canonical_preimage\<close> is what
  \<open>canonical_hash\<close> feeds, and \<open>canonical_hash\<close> its hex digest.
\<close>

definition canonical_preimage :: "result_set \<Rightarrow> bytes" where
  "canonical_preimage rs =
     (let encoded_rows = sort (map encode_row (rows rs));
          hasher = DOMAIN_result;
          hasher = update_len hasher (of_nat (length (columns rs)));
          hasher = fold (\<lambda>col h. update_bytes h (as_bytes col)) (columns rs) hasher;
          hasher = update_len hasher (of_nat (length encoded_rows))
      in fold (\<lambda>row h. update_bytes h row) encoded_rows hasher)"

definition canonical_hash :: "(bytes \<Rightarrow> bytes) \<Rightarrow> (bytes \<Rightarrow> string) \<Rightarrow> result_set \<Rightarrow> string" where
  "canonical_hash blake3 hex_encode rs = hex_encode (blake3 (canonical_preimage rs))"

section \<open>Quorum\<close>

record quorum_outcome =
  agreed_hash :: "string option"
  agreement :: nat
  quorum :: nat
  split :: bool

definition reached :: "quorum_outcome \<Rightarrow> bool" where
  "reached out \<longleftrightarrow> agreed_hash out \<noteq> None"

fun tally :: "(string, nat) hmap \<Rightarrow> string list \<Rightarrow> (string, nat) hmap" where
  "tally m [] = m"
| "tally m (h # hs) = tally (hput h (case hget m h of None \<Rightarrow> 1 | Some c \<Rightarrow> Suc c) m) hs"

text \<open>The comparator \<open>b.1.cmp(&a.1).then_with(|| a.0.cmp(b.0))\<close>, as a sort key.\<close>

definition entry_key :: "string \<times> nat \<Rightarrow> int \<times> string" where
  "entry_key e = (- int (snd e), fst e)"

definition quorum_of_entries :: "(string \<times> nat) list \<Rightarrow> nat \<Rightarrow> quorum_outcome" where
  "quorum_of_entries tallied q =
     (let entries = sort_key entry_key tallied;
          meeting = length (filter (\<lambda>(_, c). q \<le> c) entries);
          best_count = (case entries of [] \<Rightarrow> 0 | (_, c) # _ \<Rightarrow> c)
      in if 1 < meeting
         then \<lparr>agreed_hash = None, agreement = best_count, quorum = q, split = True\<rparr>
         else if meeting = 1
         then (case entries of
                 (h, c) # _ \<Rightarrow> \<lparr>agreed_hash = Some h, agreement = c, quorum = q, split = False\<rparr>
               | [] \<Rightarrow> \<lparr>agreed_hash = None, agreement = best_count, quorum = q, split = False\<rparr>)
         else \<lparr>agreed_hash = None, agreement = best_count, quorum = q, split = False\<rparr>)"

definition evaluate_quorum :: "string list \<Rightarrow> nat \<Rightarrow> quorum_outcome" where
  "evaluate_quorum hashes q = quorum_of_entries (tally [] hashes) q"

record commit_key =
  input_fingerprint :: string
  result_hash :: string

record fingerprint_quorum_outcome =
  pinned :: quorum_outcome
  drifted :: nat

text \<open>The loop over the commits: the hashes on the pinned snapshot, and the drift count.\<close>

fun split_commits :: "string option \<Rightarrow> commit_key list \<Rightarrow> string list \<times> nat" where
  "split_commits pin [] = ([], 0)"
| "split_commits pin (c # cs) =
     (let (on_pinned, d) = split_commits pin cs
      in case pin of
           Some p \<Rightarrow>
             (if input_fingerprint c \<noteq> [] \<and> input_fingerprint c \<noteq> p
              then (on_pinned, Suc d) else (result_hash c # on_pinned, d))
         | None \<Rightarrow> (result_hash c # on_pinned, d))"

definition evaluate_quorum_on_commits ::
    "commit_key list \<Rightarrow> string option \<Rightarrow> nat \<Rightarrow> fingerprint_quorum_outcome" where
  "evaluate_quorum_on_commits commits pin q =
     (let (on_pinned, d) = split_commits pin commits
      in \<lparr>pinned = evaluate_quorum on_pinned q, drifted = d\<rparr>)"

section \<open>The encoding is order independent and injective\<close>

text \<open>Values up to the float normalisation the code performs.\<close>

fun canon_value :: "val \<Rightarrow> val" where
  "canon_value (VFloat f) = VFloat (canonical_f64_bits f)"
| "canon_value v = v"

fun value_fits :: "val \<Rightarrow> bool" where
  "value_fits (VText s) = fits s"
| "value_fits (VBlob b) = fits b"
| "value_fits _ = True"

definition result_fits :: "result_set \<Rightarrow> bool" where
  "result_fits rs \<longleftrightarrow> fits (columns rs) \<and> list_all fits (columns rs) \<and> fits (rows rs) \<and>
     list_all (\<lambda>r. fits r \<and> list_all value_fits r \<and> fits (encode_row r)) (rows rs)"

text \<open>The hashes whose count reaches the quorum, and what sorting the entries brings first.\<close>

definition meeting :: "(string \<times> nat) list \<Rightarrow> nat \<Rightarrow> string set" where
  "meeting es q = fst ` {e \<in> set es. q \<le> snd e}"

text \<open>Two results that differ in row order, in the sign of zero and in the NaN payload.\<close>

definition wit_a :: result_set where
  "wit_a = \<lparr>columns = [''n'', ''x''], rows = [[VInt 1, VFloat 0x8000000000000000], [VInt 2, VFloat 0x7ff8000000000001]]\<rparr>"

definition wit_b :: result_set where
  "wit_b = \<lparr>columns = [''n'', ''x''], rows = [[VInt 2, VFloat 0xfff8000000000000], [VInt 1, VFloat 0]]\<rparr>"

lemma canonical_f64_bits_idem [simp]:
  "canonical_f64_bits (canonical_f64_bits f) = canonical_f64_bits f"
  by (simp add: canonical_f64_bits_def f64_is_nan_def f64_is_zero_def)

lemma canon_value_idem [simp]: "canon_value (canon_value v) = canon_value v"
  by (cases v) simp_all

lemma encode_canon_value [simp]: "encode_value (canon_value v) = encode_value v"
  by (cases v) simp_all

lemma value_fits_canon [simp]: "value_fits (canon_value v) = value_fits v"
  by (cases v) simp_all

interpretation value_code: prefix_code encode_value "\<lambda>v. value_fits v \<and> canon_value v = v"
proof
  fix v w r s
  assume ok: "value_fits v \<and> canon_value v = v" "value_fits w \<and> canon_value w = w"
    and eq: "encode_value v @ r = encode_value w @ s"
  have "hd (encode_value u @ t) = type_tag u" for u t by (cases u) simp_all
  with eq have tag: "type_tag v = type_tag w" by metis
  show "v = w \<and> r = s"
  proof (cases v)
    case VNull
    with tag have "w = VNull" by (cases w) simp_all
    with VNull eq show ?thesis by simp
  next
    case (VBool a)
    with tag obtain b where "w = VBool b" by (cases w) simp_all
    with VBool eq show ?thesis by (simp split: if_splits)
  next
    case (VInt a)
    with tag obtain b where "w = VInt b" by (cases w) simp_all
    with VInt eq show ?thesis by (simp add: u64_code.enc_append_inject)
  next
    case (VFloat a)
    with tag obtain b where "w = VFloat b" by (cases w) simp_all
    with VFloat eq ok show ?thesis by (simp add: u64_code.enc_append_inject)
  next
    case (VText a)
    with tag obtain b where "w = VText b" by (cases w) simp_all
    with VText ok eq show ?thesis
      using field_code.prefix_free [of "as_bytes a" "as_bytes b" r s] by (simp add: field_def)
  next
    case (VBlob a)
    with tag obtain b where "w = VBlob b" by (cases w) simp_all
    with VBlob ok eq show ?thesis
      using field_code.prefix_free [of a b r s] by (simp add: field_def)
  qed
qed

lemma encode_row_canon: "encode_row (map canon_value r) = encode_row r"
  by (simp add: encode_row_def comp_def)

lemma encode_row_eq_iff:
  assumes "fits r" "fits r'" "list_all value_fits r" "list_all value_fits r'"
  shows "encode_row r = encode_row r' \<longleftrightarrow> map canon_value r = map canon_value r'"
proof
  assume "encode_row r = encode_row r'"
  then have "encode_row (map canon_value r) = encode_row (map canon_value r')"
    by (simp add: encode_row_canon)
  then have "len64 (map canon_value r) @ concat (map encode_value (map canon_value r)) @ []
      = len64 (map canon_value r') @ concat (map encode_value (map canon_value r')) @ []"
    by (simp only: encode_row_def append_Nil2)
  then show "map canon_value r = map canon_value r'"
    using assms by (intro value_code.counted_inject [THEN conjunct1]) (simp_all add: fits_def list_all_iff)
next
  assume "map canon_value r = map canon_value r'"
  then show "encode_row r = encode_row r'" by (metis encode_row_canon)
qed

lemma fold_update_bytes:
  "fold (\<lambda>x h. update_bytes h (f x)) xs h = h @ concat (map (field \<circ> f) xs)"
  by (induction xs arbitrary: h) (simp_all add: update_bytes_def field_def)

lemma canonical_preimage_eq:
  "canonical_preimage rs = DOMAIN_result @ len64 (columns rs) @
     concat (map field (map as_bytes (columns rs))) @ len64 (rows rs) @
     concat (map field (sort (map encode_row (rows rs))))"
  using fold_update_bytes [of id]
  by (simp add: canonical_preimage_def Let_def update_len_def fold_update_bytes comp_def)

lemma sort_eq_iff_mset: "sort xs = sort ys \<longleftrightarrow> mset xs = mset ys"
  by (metis mset_sort properties_for_sort sorted_sort)

lemma image_mset_encode_row_inject:
  assumes "list_all (\<lambda>r. fits r \<and> list_all value_fits r) xs"
    "list_all (\<lambda>r. fits r \<and> list_all value_fits r) ys"
    "image_mset encode_row (mset xs) = image_mset encode_row (mset ys)"
  shows "image_mset (map canon_value) (mset xs) = image_mset (map canon_value) (mset ys)"
proof -
  let ?C = "{r. fits r \<and> list_all value_fits r \<and> map canon_value r = r}"
  have inj: "inj_on encode_row ?C"
    by (rule inj_onI) (metis (mono_tags, lifting) encode_row_eq_iff mem_Collect_eq)
  define dec where "dec = the_inv_into ?C encode_row"
  have dec: "dec (encode_row r) = map canon_value r" if "fits r" "list_all value_fits r" for r
  proof -
    have "map canon_value r \<in> ?C" using that by (simp add: fits_def list_all_iff comp_def)
    then have "dec (encode_row (map canon_value r)) = map canon_value r"
      unfolding dec_def by (rule the_inv_into_f_f [OF inj])
    then show ?thesis by (simp add: encode_row_canon)
  qed
  have "image_mset (map canon_value) (mset zs) = image_mset dec (image_mset encode_row (mset zs))"
    if "list_all (\<lambda>r. fits r \<and> list_all value_fits r) zs" for zs
    using that by (auto simp: dec list_all_iff multiset.map_comp comp_def intro!: image_mset_cong)
  with assms show ?thesis by simp
qed

lemma canonical_preimage_inject:
  assumes "result_fits a" "result_fits b"
  shows "canonical_preimage a = canonical_preimage b \<longleftrightarrow>
    columns a = columns b \<and>
    image_mset encode_row (mset (rows a)) = image_mset encode_row (mset (rows b))"
proof
  let ?f = "\<lambda>x. concat (map field (map as_bytes (columns x)))"
  let ?s = "\<lambda>x. sort (map encode_row (rows x))"
  assume "canonical_preimage a = canonical_preimage b"
  then have eq: "len64 (map as_bytes (columns a)) @ ?f a @ (len64 (rows a) @ concat (map field (?s a)))
      = len64 (map as_bytes (columns b)) @ ?f b @ (len64 (rows b) @ concat (map field (?s b)))"
    by (simp add: canonical_preimage_eq)
  have "map as_bytes (columns a) = map as_bytes (columns b) \<and>
      len64 (rows a) @ concat (map field (?s a)) = len64 (rows b) @ concat (map field (?s b))"
    using assms by (intro field_code.counted_inject [OF _ _ _ _ eq])
      (simp_all add: result_fits_def fits_def list_all_iff)
  then have cols: "map as_bytes (columns a) = map as_bytes (columns b)"
    and "len64 (?s a) @ concat (map field (?s a)) @ [] = len64 (?s b) @ concat (map field (?s b)) @ []"
    by simp_all
  from this(2) have "?s a = ?s b"
    using assms by (intro field_code.counted_inject [THEN conjunct1])
      (simp_all add: result_fits_def fits_def list_all_iff)
  moreover have "columns a = columns b"
    using cols by (rule map_injective) (simp add: inj_def)
  ultimately show "columns a = columns b \<and>
      image_mset encode_row (mset (rows a)) = image_mset encode_row (mset (rows b))"
    by (simp add: sort_eq_iff_mset)
next
  assume r: "columns a = columns b \<and>
    image_mset encode_row (mset (rows a)) = image_mset encode_row (mset (rows b))"
  then have "mset (map encode_row (rows a)) = mset (map encode_row (rows b))" by simp
  then have "sort (map encode_row (rows a)) = sort (map encode_row (rows b))"
    by (simp only: sort_eq_iff_mset)
  moreover from r have "length (rows a) = length (rows b)"
    by (metis size_image_mset size_mset)
  ultimately show "canonical_preimage a = canonical_preimage b"
    using r by (simp add: canonical_preimage_eq)
qed

lemma image_mset_encode_row_canon:
  "image_mset (map canon_value) (mset xs) = image_mset (map canon_value) (mset ys) \<Longrightarrow>
    image_mset encode_row (mset xs) = image_mset encode_row (mset ys)"
proof -
  assume "image_mset (map canon_value) (mset xs) = image_mset (map canon_value) (mset ys)"
  then have "image_mset encode_row (image_mset (map canon_value) (mset xs)) =
      image_mset encode_row (image_mset (map canon_value) (mset ys))" by simp
  then show ?thesis by (simp add: multiset.map_comp comp_def encode_row_canon)
qed

lemma encode_rows_eq_iff:
  assumes "result_fits a" "result_fits b"
  shows "image_mset encode_row (mset (rows a)) = image_mset encode_row (mset (rows b)) \<longleftrightarrow>
    image_mset (map canon_value) (mset (rows a)) = image_mset (map canon_value) (mset (rows b))"
    (is "?L \<longleftrightarrow> ?R")
proof
  have fit: "list_all (\<lambda>r. fits r \<and> list_all value_fits r) (rows x)" if "result_fits x" for x
    using that by (simp add: result_fits_def list_all_iff)
  show ?R if ?L by (rule image_mset_encode_row_inject [OF fit fit that]) (fact assms)+
  show ?L if ?R by (rule image_mset_encode_row_canon [OF that])
qed

section \<open>The quorum tally\<close>

lemma keys_tally: "set (hkeys (tally m hs)) = set (hkeys m) \<union> set hs"
  by (induction hs arbitrary: m) (auto simp: dom_update)

lemma distinct_tally: "distinct (hkeys m) \<Longrightarrow> distinct (hkeys (tally m hs))"
  by (induction hs arbitrary: m) (simp_all add: distinct_update)

lemma hget_tally:
  "hget (tally m hs) h =
     (case hget m h of
        None \<Rightarrow> if h \<in> set hs then Some (count_list hs h) else None
      | Some c \<Rightarrow> Some (c + count_list hs h))"
  by (induction hs arbitrary: m) (auto simp: update_conv' split: option.splits)

lemma set_tally: "set (tally [] hs) = (\<lambda>h. (h, count_list hs h)) ` set hs"
proof -
  have "distinct (hkeys (tally [] hs))" by (simp add: distinct_tally)
  then have "x \<in> set (tally [] hs) \<longleftrightarrow> hget (tally [] hs) (fst x) = Some (snd x)" for x
    by (cases x) simp
  then show ?thesis by (auto simp: hget_tally split: if_splits)
qed

lemma sorted_entries_hd:
  assumes "sort_key entry_key es = d # t"
  shows "d \<in> set es" "e \<in> set es \<Longrightarrow> snd e \<le> snd d"
proof -
  have set: "set es = insert d (set t)" by (metis assms list.simps(15) set_sort)
  have "sorted (map entry_key (sort_key entry_key es))" by simp
  then have "\<forall>x\<in>set t. entry_key d \<le> entry_key x" by (simp add: assms)
  with set show "d \<in> set es" "e \<in> set es \<Longrightarrow> snd e \<le> snd d"
    by (auto simp: entry_key_def less_eq_prod_def)
qed

lemma best_count_Max:
  "(case sort_key entry_key es of [] \<Rightarrow> 0 | (_, c) # _ \<Rightarrow> c) = Max (insert 0 (snd ` set es))"
proof (cases "sort_key entry_key es")
  case Nil
  then have "es = []" by (metis length_0_conv length_sort)
  then show ?thesis by simp
next
  case (Cons d t)
  then have "Max (insert 0 (snd ` set es)) = snd d"
    by (intro Max_eqI) (auto dest: sorted_entries_hd)
  with Cons show ?thesis by (cases d) simp
qed

lemma meeting_filter:
  "meeting es q = fst ` set (filter (\<lambda>(_, c). q \<le> c) (sort_key entry_key es))"
  by (auto simp: meeting_def)

lemma card_meeting:
  assumes "distinct (hkeys es)"
  shows "card (meeting es q) = length (filter (\<lambda>(_, c). q \<le> c) (sort_key entry_key es))"
proof -
  have "mset (hkeys (sort_key entry_key es)) = mset (hkeys es)" by simp
  with assms have "distinct (hkeys (sort_key entry_key es))" by (metis mset_eq_imp_distinct_iff)
  then have "distinct (hkeys (filter (\<lambda>(_, c). q \<le> c) (sort_key entry_key es)))"
    by (rule distinct_map_filter)
  then show ?thesis unfolding meeting_filter by (metis distinct_card length_map list.set_map)
qed

lemma meeting_singleton:
  assumes "length (filter (\<lambda>(_, c). q \<le> c) (sort_key entry_key es)) = 1"
  obtains d t where "sort_key entry_key es = d # t" "meeting es q = {fst d}"
proof -
  let ?s = "sort_key entry_key es" and ?P = "\<lambda>(_ :: string, c). q \<le> c"
  from assms obtain e where e: "filter ?P ?s = [e]" by (auto simp: length_Suc_conv)
  then have "e \<in> set (filter ?P ?s)" by simp
  then have es: "e \<in> set ?s" "q \<le> snd e" by auto
  then obtain d t where d: "?s = d # t" by (cases ?s) auto
  from es have "q \<le> snd d" using sorted_entries_hd(2) [OF d, of e] by simp
  with e d have "e = d" by (cases d) simp
  with e have "meeting es q = {fst d}" by (simp add: meeting_filter)
  with d show thesis by (rule that)
qed

lemma quorum_of_entries_cases:
  fixes q es
  defines "n \<equiv> length (filter (\<lambda>(_, c). q \<le> c) (sort_key entry_key es))"
  shows "split (quorum_of_entries es q) \<longleftrightarrow> 1 < n"
    and "n \<noteq> 1 \<Longrightarrow> agreed_hash (quorum_of_entries es q) = None"
    and "n = 1 \<Longrightarrow> sort_key entry_key es = d # t \<Longrightarrow>
      agreed_hash (quorum_of_entries es q) = Some (fst d)"
    and "agreement (quorum_of_entries es q) =
      (case sort_key entry_key es of [] \<Rightarrow> 0 | (_, c) # _ \<Rightarrow> c)"
  unfolding quorum_of_entries_def Let_def n_def [symmetric]
  by (simp_all split: list.split prod.split)

lemma quorum_of_entries_spec:
  assumes "distinct (hkeys es)"
  shows "agreed_hash (quorum_of_entries es q) = Some h \<longleftrightarrow> meeting es q = {h}"
    and "split (quorum_of_entries es q) \<longleftrightarrow> 1 < card (meeting es q)"
    and "agreement (quorum_of_entries es q) = Max (insert 0 (snd ` set es))"
proof -
  let ?n = "length (filter (\<lambda>(_, c). q \<le> c) (sort_key entry_key es))"
  have m: "card (meeting es q) = ?n" by (rule card_meeting [OF assms])
  show "agreement (quorum_of_entries es q) = Max (insert 0 (snd ` set es))"
    by (simp only: quorum_of_entries_cases(4) best_count_Max)
  show "split (quorum_of_entries es q) \<longleftrightarrow> 1 < card (meeting es q)"
    by (simp only: m quorum_of_entries_cases(1))
  show "agreed_hash (quorum_of_entries es q) = Some h \<longleftrightarrow> meeting es q = {h}"
  proof (cases "?n = 1")
    case True
    then obtain d t where d: "sort_key entry_key es = d # t" "meeting es q = {fst d}"
      by (rule meeting_singleton)
    show ?thesis unfolding quorum_of_entries_cases(3) [OF True d(1)] d(2) by auto
  next
    case False
    have "meeting es q \<noteq> {h}"
    proof
      assume "meeting es q = {h}"
      then have "card (meeting es q) = 1" by (simp only: is_singletonI is_singleton_altdef [symmetric])
      with m False show False by (simp only:)
    qed
    then show ?thesis by (simp add: quorum_of_entries_cases(2) [OF False])
  qed
qed

lemma meeting_tally: "meeting (tally [] hs) q = {h \<in> set hs. q \<le> count_list hs h}"
  by (auto simp: meeting_def set_tally image_iff)

lemma evaluate_quorum_spec:
  shows "agreed_hash (evaluate_quorum hs q) = Some h \<longleftrightarrow> {h \<in> set hs. q \<le> count_list hs h} = {h}"
    and "split (evaluate_quorum hs q) \<longleftrightarrow> 1 < card {h \<in> set hs. q \<le> count_list hs h}"
    and "agreement (evaluate_quorum hs q) = Max (insert 0 (count_list hs ` set hs))"
proof -
  have d: "distinct (hkeys (tally [] hs))" by (simp add: distinct_tally)
  show "agreed_hash (evaluate_quorum hs q) = Some h \<longleftrightarrow> {h \<in> set hs. q \<le> count_list hs h} = {h}"
    "split (evaluate_quorum hs q) \<longleftrightarrow> 1 < card {h \<in> set hs. q \<le> count_list hs h}"
    unfolding evaluate_quorum_def quorum_of_entries_spec(1,2) [OF d] meeting_tally by (rule refl)+
  show "agreement (evaluate_quorum hs q) = Max (insert 0 (count_list hs ` set hs))"
    unfolding evaluate_quorum_def quorum_of_entries_spec(3) [OF d] set_tally
    by (simp add: image_image)
qed

lemma count_list_pair:
  "h \<noteq> h' \<Longrightarrow> count_list hs h + count_list hs h' \<le> length hs"
  by (induction hs) auto

lemma count_list_others:
  "h' \<noteq> h \<Longrightarrow> count_list hs h' \<le> length (filter (\<lambda>x. x \<noteq> h) hs)"
  by (induction hs) auto

lemma split_commits_eq:
  "split_commits pin cs =
     (map result_hash (filter (\<lambda>c. pin = None \<or> input_fingerprint c = [] \<or> pin = Some (input_fingerprint c)) cs),
      length (filter (\<lambda>c. pin \<noteq> None \<and> input_fingerprint c \<noteq> [] \<and> pin \<noteq> Some (input_fingerprint c)) cs))"
  by (induction cs) (auto split: option.splits)

lemma quorum_field: "quorum (quorum_of_entries es q) = q"
  by (simp add: quorum_of_entries_def Let_def split: list.split prod.split)

lemma quorum_outcome_eqI:
  assumes "\<And>h. agreed_hash (a :: quorum_outcome) = Some h \<longleftrightarrow> agreed_hash b = Some h"
    "agreement a = agreement b" "quorum a = quorum b" "split a = split b"
  shows "a = b"
proof -
  have "agreed_hash a = agreed_hash b"
    using assms(1) by (cases "agreed_hash a") (auto dest: sym)
  then show ?thesis by (rule quorum_outcome.equality) (use assms(2-4) in simp_all)
qed

section \<open>Properties\<close>

text \<open>
  C17: two results have the same canonical hash exactly when they have the same columns, in order,
  and the same multiset of rows up to the normalisation of NaN and negative zero. So the order
  in which workers return rows never matters, and nothing else is forgotten. The hypotheses on
  the digest and on the hex encoder are injectivity on the preimages compared, and the sizes
  fit the 64-bit length prefixes.
\<close>

theorem canonical_hash_eq_iff:
  assumes "result_fits a" "result_fits b"
    and digest: "inj_on blake3 {canonical_preimage a, canonical_preimage b}" "inj hex_encode"
  shows "canonical_hash blake3 hex_encode a = canonical_hash blake3 hex_encode b \<longleftrightarrow>
    columns a = columns b \<and>
    image_mset (map canon_value) (mset (rows a)) = image_mset (map canon_value) (mset (rows b))"
    (is "?L \<longleftrightarrow> ?R")
proof -
  have "?L \<longleftrightarrow> canonical_preimage a = canonical_preimage b"
    unfolding canonical_hash_def inj_eq [OF digest(2)]
    by (rule inj_on_eq_iff [OF digest(1)]) simp_all
  also have "\<dots> \<longleftrightarrow> columns a = columns b \<and>
      image_mset encode_row (mset (rows a)) = image_mset encode_row (mset (rows b))"
    by (rule canonical_preimage_inject [OF assms(1,2)])
  also have "\<dots> \<longleftrightarrow> ?R"
    using encode_rows_eq_iff [OF assms(1,2)] by simp
  finally show ?thesis .
qed

theorem canonical_hash_eq_iff_witness:
  "canonical_hash id of_bytes wit_a = canonical_hash id of_bytes wit_b \<and> wit_a \<noteq> wit_b"
proof -
  have fit: "result_fits wit_a" "result_fits wit_b"
    by (simp_all add: result_fits_def wit_a_def wit_b_def fits_def encode_row_def)
  have "columns wit_a = columns wit_b"
    "image_mset (map canon_value) (mset (rows wit_a)) = image_mset (map canon_value) (mset (rows wit_b))"
    "wit_a \<noteq> wit_b"
    by (simp_all add: wit_a_def wit_b_def canonical_f64_bits_def f64_is_nan_def f64_is_zero_def)
  then show ?thesis
    using canonical_hash_eq_iff [OF fit inj_on_id inj_of_bytes] by simp
qed

text \<open>
  C5: the outcome of the tally is exact. A hash is agreed precisely when it is the only one
  returned by at least \<open>q\<close> workers; the split flag says that two different hashes reached the
  quorum; the agreement is the largest count.
\<close>

theorem evaluate_quorum_exact:
  "(agreed_hash (evaluate_quorum hs q) = Some h \<longleftrightarrow> {h \<in> set hs. q \<le> count_list hs h} = {h}) \<and>
   (split (evaluate_quorum hs q) \<longleftrightarrow> 1 < card {h \<in> set hs. q \<le> count_list hs h}) \<and>
   agreement (evaluate_quorum hs q) = Max (insert 0 (count_list hs ` set hs))"
  by (intro conjI evaluate_quorum_spec)

text \<open>
  fewer than \<open>q\<close> workers that deviate from the true hash \<open>h\<close> can neither get another
  hash agreed nor split the quorum, whatever they return and in whatever order; once \<open>q\<close>
  workers return \<open>h\<close>, \<open>h\<close> is agreed.
\<close>

theorem quorum_tolerates_minority:
  assumes "length (filter (\<lambda>x. x \<noteq> h) hs) < q"
  shows "agreed_hash (evaluate_quorum hs q) = (if q \<le> count_list hs h then Some h else None) \<and>
    \<not> split (evaluate_quorum hs q)"
proof -
  have "x = h" if "x \<in> set hs" "q \<le> count_list hs x" for x
    using assms that count_list_others [of x h hs] by (cases "x = h") simp_all
  moreover have "h \<in> set hs" if "q \<le> count_list hs h"
    using that assms count_notin [of h hs] by (cases "h \<in> set hs") auto
  ultimately have "{x \<in> set hs. q \<le> count_list hs x} = (if q \<le> count_list hs h then {h} else {})"
    by auto
  moreover from this have "card {x \<in> set hs. q \<le> count_list hs x} \<le> 1"
    by (simp split: if_splits)
  ultimately show ?thesis
    using evaluate_quorum_spec(1) [of hs q h] evaluate_quorum_spec(1) [of hs q]
      evaluate_quorum_spec(2) [of hs q]
    by (cases "agreed_hash (evaluate_quorum hs q)") (auto split: if_splits)
qed

theorem quorum_tolerates_minority_witness:
  "agreed_hash (evaluate_quorum [''b'', ''a'', ''a''] 2) = Some ''a'' \<and>
   \<not> split (evaluate_quorum [''b'', ''a'', ''a''] 2)"
  using quorum_tolerates_minority [of "''a''" "[''b'', ''a'', ''a'']" 2] by simp

text \<open>
  the outcome depends neither on the order in which results arrive nor on the iteration
  order of the hash map the counts are collected in.
\<close>

theorem quorum_order_independent:
  assumes "mset hs = mset hs'" "mset es = mset (tally [] hs)"
  shows "quorum_of_entries es q = evaluate_quorum hs' q"
proof (rule quorum_outcome_eqI)
  have "mset (hkeys es) = mset (hkeys (tally [] hs))" using assms(2) by simp
  then have d: "distinct (hkeys es)" by (metis distinct_tally mset_eq_imp_distinct_iff distinct.simps(1) list.simps(8))
  have c: "count_list hs = count_list hs'" "set hs = set hs'"
    using assms(1) by (metis count_mset ext) (metis assms(1) mset_eq_setD)
  have es: "set es = (\<lambda>h. (h, count_list hs' h)) ` set hs'"
    using mset_eq_setD [OF assms(2)] by (simp add: set_tally c)
  then have m: "meeting es q = {h \<in> set hs'. q \<le> count_list hs' h}"
    by (auto simp: meeting_def image_iff)
  show "agreed_hash (quorum_of_entries es q) = Some h \<longleftrightarrow> agreed_hash (evaluate_quorum hs' q) = Some h" for h
    unfolding quorum_of_entries_spec(1) [OF d] evaluate_quorum_spec(1) m ..
  show "split (quorum_of_entries es q) = split (evaluate_quorum hs' q)"
    unfolding quorum_of_entries_spec(2) [OF d] evaluate_quorum_spec(2) m ..
  show "agreement (quorum_of_entries es q) = agreement (evaluate_quorum hs' q)"
    unfolding quorum_of_entries_spec(3) [OF d] evaluate_quorum_spec(3) es by (simp add: image_image)
  show "quorum (quorum_of_entries es q) = quorum (evaluate_quorum hs' q)"
    by (simp add: evaluate_quorum_def quorum_field)
qed

theorem quorum_order_independent_witness:
  "quorum_of_entries [(''b'', 1), (''a'', 2)] 2 = evaluate_quorum [''a'', ''b'', ''a''] 2"
  by (rule quorum_order_independent [of "[''a'', ''a'', ''b'']"]) simp_all

text \<open>
  with a pinned input snapshot, a result computed over another snapshot is only ever counted
  as drift. It is never tallied, so it can neither complete nor break a quorum, and every commit
  is accounted for exactly once. Without a pin the call is the plain quorum.
\<close>

theorem drift_never_tallied:
  "pinned (evaluate_quorum_on_commits commits (Some p) q) =
     evaluate_quorum (map result_hash (filter (\<lambda>c. input_fingerprint c \<in> {[], p}) commits)) q \<and>
   drifted (evaluate_quorum_on_commits commits (Some p) q) =
     length (filter (\<lambda>c. input_fingerprint c \<notin> {[], p}) commits) \<and>
   evaluate_quorum_on_commits commits None q =
     \<lparr>pinned = evaluate_quorum (map result_hash commits) q, drifted = 0\<rparr>"
proof -
  have "(pin = Some p \<and> input_fingerprint c \<noteq> [] \<and> pin \<noteq> Some (input_fingerprint c)) \<longleftrightarrow>
      pin = Some p \<and> input_fingerprint c \<notin> {[], p}" for pin c by auto
  then show ?thesis
    by (auto simp: evaluate_quorum_on_commits_def split_commits_eq Let_def eq_commute [of p]
        intro: arg_cong2 [where f = evaluate_quorum] arg_cong [where f = length])
qed

end
