(* ===== verification/Identity.thy ===== *)
theory Identity
  imports Prelude
begin

text \<open>
  Identities of \<open>crates/proto/src/ids.rs\<close> and the signed statements built on them. Ed25519,
  BLAKE3 and hex come from third-party crates: they are the fields of \<open>crypto\<close>, an argument of
  every definition that calls them. What the code relies on is stated by \<open>hex_ok\<close>, \<open>signer_ok\<close>
  and \<open>only_signed\<close>, which are hypotheses of the theorems that need them. The locale
  \<open>signed_statement\<close> is the contract that receipts and abuse signals share.
\<close>

section \<open>Definitions\<close>

record crypto =
  ed_pk_valid :: "bytes \<Rightarrow> bool"
  ed_verify_strict :: "bytes \<Rightarrow> bytes \<Rightarrow> bytes \<Rightarrow> bool"
  blake3_hash :: "bytes \<Rightarrow> bytes"
  hex_enc :: "bytes \<Rightarrow> string"
  hex_dec :: "string \<Rightarrow> bytes option"

text \<open>The trait \<open>Signer\<close>: what the trust crate needs of a node's key.\<close>

record signer =
  sign_bytes :: "bytes \<Rightarrow> bytes"
  public_key :: bytes
  node_id :: string

definition from_pubkey :: "crypto \<Rightarrow> bytes \<Rightarrow> string" where
  "from_pubkey C pk = ''b3:'' @ hex_enc C (blake3_hash C pk)"

definition query_hash_compute :: "crypto \<Rightarrow> string \<Rightarrow> string \<Rightarrow> string" where
  "query_hash_compute C sql engine_version =
     hex_enc C (blake3_hash C (as_bytes ''duckdb-p2p-query-v1'' @ as_bytes engine_version @ [0] @ as_bytes sql))"

text \<open>
  The steps every verifier of a self-describing statement takes, in order: decode the key, parse
  it, compare the claimed identity with the key's hash, decode the signature, verify strictly.
\<close>

definition check_signed :: "crypto \<Rightarrow> string \<Rightarrow> string \<Rightarrow> string \<Rightarrow> bytes \<Rightarrow> bool" where
  "check_signed C pubkey_hex claimed_id sig_hex msg =
     (case hex_dec C pubkey_hex of
        None \<Rightarrow> False
      | Some pk \<Rightarrow>
          if length pk \<noteq> 32 then False
          else if \<not> ed_pk_valid C pk then False
          else if claimed_id \<noteq> from_pubkey C pk then False
          else (case hex_dec C sig_hex of
                  None \<Rightarrow> False
                | Some s \<Rightarrow>
                    if length s \<noteq> 64 then False
                    else ed_verify_strict C pk msg s))"

text \<open>Documented behaviour of the crates, as hypotheses.\<close>

definition hex_ok :: "crypto \<Rightarrow> bool" where
  "hex_ok C \<longleftrightarrow> (\<forall>b. hex_dec C (hex_enc C b) = Some b)"

definition signer_ok :: "crypto \<Rightarrow> signer \<Rightarrow> bool" where
  "signer_ok C S \<longleftrightarrow> length (public_key S) = 32 \<and> ed_pk_valid C (public_key S) \<and>
     node_id S = from_pubkey C (public_key S) \<and>
     (\<forall>m. length (sign_bytes S m) = 64 \<and> ed_verify_strict C (public_key S) m (sign_bytes S m))"

text \<open>
  Unforgeability, for one presented signature: whatever it verifies under the key is one of the
  messages the key's holder signed.
\<close>

definition only_signed :: "crypto \<Rightarrow> bytes \<Rightarrow> string \<Rightarrow> bytes set \<Rightarrow> bool" where
  "only_signed C pk sig_hex msgs \<longleftrightarrow>
     (\<forall>m s. hex_dec C sig_hex = Some s \<longrightarrow> ed_verify_strict C pk m s \<longrightarrow> m \<in> msgs)"

definition id_injective :: "crypto \<Rightarrow> bool" where
  "id_injective C \<longleftrightarrow> inj (blake3_hash C) \<and> inj (hex_enc C)"

text \<open>
  A concrete instance for examples: the digest is the message itself, hex is the identity on
  bytes, and the messages in \<open>P\<close> verify, with the zero signature; everything else is refused.
\<close>

definition toy_crypto :: "(bytes \<Rightarrow> bool) \<Rightarrow> crypto" where
  "toy_crypto P = \<lparr>ed_pk_valid = (\<lambda>pk. length pk = 32),
     ed_verify_strict = (\<lambda>pk m s. P m \<and> s = replicate 64 0),
     blake3_hash = id, hex_enc = of_bytes, hex_dec = (\<lambda>s. Some (as_bytes s))\<rparr>"

section \<open>Verification of signed statements\<close>

lemma check_signed_iff:
  "check_signed C p i g m \<longleftrightarrow>
     (\<exists>pk s. hex_dec C p = Some pk \<and> length pk = 32 \<and> ed_pk_valid C pk \<and> i = from_pubkey C pk \<and>
        hex_dec C g = Some s \<and> length s = 64 \<and> ed_verify_strict C pk m s)"
  by (auto simp: check_signed_def split: option.splits)

lemma check_signed_own:
  "hex_ok C \<Longrightarrow> signer_ok C S \<Longrightarrow>
    check_signed C (hex_enc C (public_key S)) (node_id S) (hex_enc C (sign_bytes S m)) m"
  by (auto simp: check_signed_iff hex_ok_def signer_ok_def)

lemma from_pubkey_inject: "id_injective C \<Longrightarrow> from_pubkey C a = from_pubkey C b \<longleftrightarrow> a = b"
  by (auto simp: from_pubkey_def id_injective_def dest: injD)

lemma as_bytes_of_bytes [simp]: "as_bytes (of_bytes b) = b"
  by (simp add: as_bytes_def of_bytes_def comp_def of_char_char_of_u8)

lemma toy_crypto_ok [simp]: "hex_ok (toy_crypto P)" "id_injective (toy_crypto P)"
  by (simp_all add: hex_ok_def id_injective_def toy_crypto_def inj_of_bytes)

text \<open>
  The contract of a signed statement: its check is the verification above over bytes that are
  injective in the statement's content.
\<close>

locale signed_statement =
  fixes C :: crypto
    and pubkey :: "'r \<Rightarrow> string" and claimed :: "'r \<Rightarrow> string" and sig :: "'r \<Rightarrow> string"
    and bytes_of :: "'r \<Rightarrow> bytes" and content :: "'r \<Rightarrow> 'p" and ok :: "'r \<Rightarrow> bool"
    and check :: "'r \<Rightarrow> bool"
  assumes check_def: "check r \<longleftrightarrow> check_signed C (pubkey r) (claimed r) (sig r) (bytes_of r)"
    and bytes_inject: "ok r \<Longrightarrow> ok r' \<Longrightarrow> bytes_of r = bytes_of r' \<Longrightarrow> content r = content r'"
begin

lemma accepts_own:
  "hex_ok C \<Longrightarrow> signer_ok C S \<Longrightarrow> pubkey r = hex_enc C (public_key S) \<Longrightarrow> claimed r = node_id S \<Longrightarrow>
    sig r = hex_enc C (sign_bytes S (bytes_of r)) \<Longrightarrow> check r"
  by (simp add: check_def check_signed_own)

lemma authentic:
  assumes "id_injective C" "check r" "claimed r = from_pubkey C pk" "ok r"
    and "only_signed C pk (sig r) (bytes_of ` issued)" "Ball issued ok"
  shows "content r \<in> content ` issued"
proof -
  from assms(2) obtain k s where k: "claimed r = from_pubkey C k" "hex_dec C (sig r) = Some s"
    and v: "ed_verify_strict C k (bytes_of r) s"
    by (auto simp: check_def check_signed_iff)
  from k(1) assms(1,3) have "k = pk" by (simp add: from_pubkey_inject)
  with v k(2) assms(5) have "bytes_of r \<in> bytes_of ` issued" by (auto simp: only_signed_def)
  with assms(4,6) show ?thesis by (auto intro: bytes_inject)
qed

lemma same_identity_same_key:
  assumes "id_injective C" "check r" "check r'" "claimed r = claimed r'"
  shows "hex_dec C (pubkey r) = hex_dec C (pubkey r')"
  using assms by (auto simp: check_def check_signed_iff from_pubkey_inject)

end

end
