(* ===== verification/Token.thy ===== *)
theory Token
  imports Identity
begin

text \<open>
  Capability tokens (\<open>crates/trust/src/token.rs\<close>): a chain of layers, the first signed by an
  issuer and each later one by the previous layer's holder, every layer adding caveats.
\<close>

section \<open>Definitions\<close>

datatype caveat = ExpiresAt u64 | Operation string | ResourcePrefix string | MaxRows u64
  | Group string | Region string

record auth_context =
  now :: u64
  operation :: string
  resource :: string
  ctx_rows :: u64
  ctx_group :: "string option"
  ctx_region :: "string option"

fun satisfied_by :: "caveat \<Rightarrow> auth_context \<Rightarrow> bool" where
  "satisfied_by (ExpiresAt t) ctx = (now ctx \<le> t)"
| "satisfied_by (Operation op) ctx = (operation ctx = op)"
| "satisfied_by (ResourcePrefix p) ctx = (take (length p) (resource ctx) = p)"
| "satisfied_by (MaxRows m) ctx = (ctx_rows ctx \<le> m)"
| "satisfied_by (Group g) ctx = (ctx_group ctx = Some g)"
| "satisfied_by (Region r) ctx = (ctx_region ctx = Some r)"

record layer =
  holder_pubkey :: string
  caveats :: "caveat list"
  signer_pubkey :: string
  layer_sig :: string

type_synonym capability_token = "layer list"

datatype token_error = Empty | IssuerMismatch | BrokenChain nat | BadSignature nat | Encoding
  | CaveatFailed | NotHolder | MissingExpiry

fun encode_caveat :: "caveat \<Rightarrow> bytes" where
  "encode_caveat (ExpiresAt t) = 1 # le_bytes 8 t"
| "encode_caveat (Operation op) = 2 # field (as_bytes op)"
| "encode_caveat (ResourcePrefix p) = 3 # field (as_bytes p)"
| "encode_caveat (MaxRows m) = 4 # le_bytes 8 m"
| "encode_caveat (Group g) = 5 # field (as_bytes g)"
| "encode_caveat (Region r) = 6 # field (as_bytes r)"

definition encode_caveats :: "caveat list \<Rightarrow> bytes" where
  "encode_caveats cs = len64 cs @ concat (map encode_caveat cs)"

definition layer_bytes :: "nat \<Rightarrow> bytes \<Rightarrow> caveat list \<Rightarrow> bytes \<Rightarrow> bytes" where
  "layer_bytes index holder cs prev_sig =
     as_bytes ''duckdb-p2p-capability-v1'' @ le_bytes 8 (of_nat index :: u64) @ holder @
     field (encode_caveats cs) @ field prev_sig"

text \<open>\<open>decode_key\<close> and \<open>decode_sig\<close> are hex decoding to a fixed-size array.\<close>

definition decode_key :: "crypto \<Rightarrow> string \<Rightarrow> token_error + bytes" where
  "decode_key C s = (case hex_dec C s of
     None \<Rightarrow> Inl Encoding | Some b \<Rightarrow> if length b = 32 then Inr b else Inl Encoding)"

definition decode_sig :: "crypto \<Rightarrow> string \<Rightarrow> token_error + bytes" where
  "decode_sig C s = (case hex_dec C s of
     None \<Rightarrow> Inl Encoding | Some b \<Rightarrow> if length b = 64 then Inr b else Inl Encoding)"

text \<open>A signing key of the ed25519 crate: its verifying key and its signing function.\<close>

record signing_key =
  verifying_key :: bytes
  sk_sign :: "bytes \<Rightarrow> bytes"

definition mint :: "crypto \<Rightarrow> signing_key \<Rightarrow> bytes \<Rightarrow> caveat list \<Rightarrow> capability_token" where
  "mint C issuer holder cs =
     [\<lparr>holder_pubkey = hex_enc C holder, caveats = cs,
       signer_pubkey = hex_enc C (verifying_key issuer),
       layer_sig = hex_enc C (sk_sign issuer (layer_bytes 0 holder cs []))\<rparr>]"

definition token_holder :: "crypto \<Rightarrow> capability_token \<Rightarrow> token_error + bytes" where
  "token_holder C ls = (if ls = [] then Inl Empty else decode_key C (holder_pubkey (last ls)))"

definition attenuate ::
    "crypto \<Rightarrow> capability_token \<Rightarrow> signing_key \<Rightarrow> bytes \<Rightarrow> caveat list \<Rightarrow> token_error + capability_token" where
  "attenuate C ls key delegate added =
     (case token_holder C ls of
        Inl e \<Rightarrow> Inl e
      | Inr current \<Rightarrow>
          if verifying_key key \<noteq> current then Inl NotHolder
          else (case decode_sig C (layer_sig (last ls)) of
                  Inl e \<Rightarrow> Inl e
                | Inr prev_sig \<Rightarrow>
                    let msg = layer_bytes (length ls) delegate added prev_sig
                    in Inr (ls @ [\<lparr>holder_pubkey = hex_enc C delegate, caveats = added,
                          signer_pubkey = hex_enc C current,
                          layer_sig = hex_enc C (sk_sign key msg)\<rparr>])))"

text \<open>The inner loop of \<open>verify\<close>: the caveats of one layer, with the flag \<open>saw_expiry\<close>.\<close>

fun check_caveats :: "auth_context \<Rightarrow> bool \<Rightarrow> caveat list \<Rightarrow> token_error + bool" where
  "check_caveats ctx saw [] = Inr saw"
| "check_caveats ctx saw (c # cs) =
     (let saw = (case c of ExpiresAt _ \<Rightarrow> True | _ \<Rightarrow> saw)
      in if satisfied_by c ctx then check_caveats ctx saw cs else Inl CaveatFailed)"

text \<open>The outer loop, with its variables \<open>i\<close>, \<open>prev_sig\<close>, \<open>expected_signer\<close>, \<open>saw_expiry\<close>.\<close>

fun verify_layers ::
    "crypto \<Rightarrow> bytes \<Rightarrow> auth_context \<Rightarrow> nat \<Rightarrow> bytes \<Rightarrow> bytes \<Rightarrow> bool \<Rightarrow> layer list \<Rightarrow> token_error + bool" where
  "verify_layers C issuer ctx i prev expected saw [] = Inr saw"
| "verify_layers C issuer ctx i prev expected saw (l # ls) =
     (case decode_key C (signer_pubkey l) of
        Inl e \<Rightarrow> Inl e
      | Inr sgnr \<Rightarrow>
          if i = 0 \<and> sgnr \<noteq> issuer then Inl IssuerMismatch
          else if i \<noteq> 0 \<and> sgnr \<noteq> expected then Inl (BrokenChain i)
          else (case decode_key C (holder_pubkey l) of
            Inl e \<Rightarrow> Inl e
          | Inr hld \<Rightarrow> (case decode_sig C (layer_sig l) of
              Inl e \<Rightarrow> Inl e
            | Inr s \<Rightarrow>
                if \<not> ed_pk_valid C sgnr then Inl Encoding
                else if \<not> ed_verify_strict C sgnr (layer_bytes i hld (caveats l) prev) s
                then Inl (BadSignature i)
                else (case check_caveats ctx saw (caveats l) of
                        Inl e \<Rightarrow> Inl e
                      | Inr saw' \<Rightarrow> verify_layers C issuer ctx (Suc i) s hld saw' ls))))"

definition verify :: "crypto \<Rightarrow> capability_token \<Rightarrow> bytes \<Rightarrow> auth_context \<Rightarrow> token_error + bytes" where
  "verify C ls issuer ctx =
     (if ls = [] then Inl Empty
      else (case verify_layers C issuer ctx 0 [] issuer False ls of
              Inl e \<Rightarrow> Inl e
            | Inr saw \<Rightarrow> if \<not> saw then Inl MissingExpiry else token_holder C ls))"

definition token_caveats :: "capability_token \<Rightarrow> caveat list" where
  "token_caveats ls = concat (map caveats ls)"

definition authorizes_group :: "capability_token \<Rightarrow> string \<Rightarrow> bool" where
  "authorizes_group ls g = list_ex (\<lambda>c. c = Group g) (token_caveats ls)"

definition authorizes_region :: "capability_token \<Rightarrow> string \<Rightarrow> bool" where
  "authorizes_region ls r = list_ex (\<lambda>c. c = Region r) (token_caveats ls)"

definition default_context :: "u64 \<Rightarrow> auth_context" where
  "default_context t = \<lparr>now = t, operation = '''', resource = '''', ctx_rows = 0, ctx_group = None,
     ctx_region = None\<rparr>"

definition verify_group_membership ::
    "crypto \<Rightarrow> capability_token \<Rightarrow> bytes \<Rightarrow> string \<Rightarrow> u64 \<Rightarrow> token_error + bytes" where
  "verify_group_membership C ls issuer g t =
     (if \<not> authorizes_group ls g then Inl CaveatFailed
      else verify C ls issuer (default_context t\<lparr>ctx_group := Some g\<rparr>))"

definition verify_region_attestation ::
    "crypto \<Rightarrow> capability_token \<Rightarrow> bytes \<Rightarrow> string \<Rightarrow> u64 \<Rightarrow> token_error + bytes" where
  "verify_region_attestation C ls issuer r t =
     (if \<not> authorizes_region ls r then Inl CaveatFailed
      else verify C ls issuer (default_context t\<lparr>ctx_region := Some r\<rparr>))"

section \<open>What a valid chain is\<close>

text \<open>
  The chain without the control flow: layer \<open>i\<close> is signed by the expected key, over its index,
  its holder, its caveats and the previous signature.
\<close>

fun chain_ok :: "crypto \<Rightarrow> nat \<Rightarrow> bytes \<Rightarrow> bytes \<Rightarrow> layer list \<Rightarrow> bool" where
  "chain_ok C i prev expected [] \<longleftrightarrow> True"
| "chain_ok C i prev expected (l # ls) \<longleftrightarrow>
     (\<exists>hld s. decode_key C (signer_pubkey l) = Inr expected \<and> decode_key C (holder_pubkey l) = Inr hld \<and>
        decode_sig C (layer_sig l) = Inr s \<and> ed_pk_valid C expected \<and>
        ed_verify_strict C expected (layer_bytes i hld (caveats l) prev) s \<and> chain_ok C (Suc i) s hld ls)"

definition has_expiry :: "caveat list \<Rightarrow> bool" where
  "has_expiry cs \<longleftrightarrow> (\<exists>t. ExpiresAt t \<in> set cs)"

definition signing_key_ok :: "crypto \<Rightarrow> signing_key \<Rightarrow> bool" where
  "signing_key_ok C k \<longleftrightarrow> length (verifying_key k) = 32 \<and> ed_pk_valid C (verifying_key k) \<and>
     (\<forall>m. length (sk_sign k m) = 64 \<and> ed_verify_strict C (verifying_key k) m (sk_sign k m))"

definition caveat_fits :: "caveat \<Rightarrow> bool" where
  "caveat_fits c \<longleftrightarrow> (case c of Operation s \<Rightarrow> fits s | ResourcePrefix s \<Rightarrow> fits s | Group s \<Rightarrow> fits s
     | Region s \<Rightarrow> fits s | _ \<Rightarrow> True)"

definition caveats_fit :: "caveat list \<Rightarrow> bool" where
  "caveats_fit cs \<longleftrightarrow> fits cs \<and> list_all caveat_fits cs \<and> fits (encode_caveats cs)"

text \<open>The key expected to sign layer \<open>i\<close>, and the signature that layer continues.\<close>

definition layer_key :: "crypto \<Rightarrow> bytes \<Rightarrow> layer list \<Rightarrow> nat \<Rightarrow> bytes" where
  "layer_key C issuer ls i =
     (case i of 0 \<Rightarrow> issuer
      | Suc j \<Rightarrow> (case decode_key C (holder_pubkey (ls ! j)) of Inr k \<Rightarrow> k | Inl _ \<Rightarrow> []))"

definition layer_prev :: "crypto \<Rightarrow> bytes \<Rightarrow> layer list \<Rightarrow> nat \<Rightarrow> bytes" where
  "layer_prev C prev ls i =
     (case i of 0 \<Rightarrow> prev
      | Suc j \<Rightarrow> (case decode_sig C (layer_sig (ls ! j)) of Inr k \<Rightarrow> k | Inl _ \<Rightarrow> []))"

text \<open>What a key's holder may sign: an index, a delegate, caveats and a previous signature.\<close>

definition delegation_fits :: "nat \<times> bytes \<times> caveat list \<times> bytes \<Rightarrow> bool" where
  "delegation_fits = (\<lambda>(j, k, cs, p). j < 2 ^ 64 \<and> length k = 32 \<and> caveats_fit cs \<and> fits p)"

definition delegation_bytes :: "nat \<times> bytes \<times> caveat list \<times> bytes \<Rightarrow> bytes" where
  "delegation_bytes = (\<lambda>(j, k, cs, p). layer_bytes j k cs p)"

definition toy_key :: "u8 \<Rightarrow> signing_key" where
  "toy_key b = \<lparr>verifying_key = replicate 32 b, sk_sign = (\<lambda>_. replicate 64 0)\<rparr>"

lemma has_expiry_simps [simp]:
  "has_expiry [] = False" "has_expiry (c # cs) = ((\<exists>t. c = ExpiresAt t) \<or> has_expiry cs)"
  "has_expiry (cs @ ds) = (has_expiry cs \<or> has_expiry ds)"
  by (auto simp: has_expiry_def)

lemma token_caveats_simps [simp]:
  "token_caveats [] = []" "token_caveats (l # ls) = caveats l @ token_caveats ls"
  "token_caveats (ls @ ms) = token_caveats ls @ token_caveats ms"
  by (simp_all add: token_caveats_def)

lemma check_caveats_eq:
  "check_caveats ctx saw cs =
     (if list_all (\<lambda>c. satisfied_by c ctx) cs then Inr (saw \<or> has_expiry cs) else Inl CaveatFailed)"
  by (induction cs arbitrary: saw) (auto simp: Let_def split: caveat.splits)

lemma verify_layers_iff:
  "(i = 0 \<longrightarrow> expected = issuer) \<Longrightarrow>
   verify_layers C issuer ctx i prev expected saw ls = Inr saw' \<longleftrightarrow>
     chain_ok C i prev expected ls \<and> list_all (\<lambda>c. satisfied_by c ctx) (token_caveats ls) \<and>
     saw' = (saw \<or> has_expiry (token_caveats ls))"
proof (induction ls arbitrary: i prev expected saw)
  case Nil
  then show ?case by auto
next
  case (Cons l ls)
  have IH: "verify_layers C issuer ctx (Suc j) p e sw ls = Inr saw' \<longleftrightarrow>
      chain_ok C (Suc j) p e ls \<and> list_all (\<lambda>c. satisfied_by c ctx) (token_caveats ls) \<and>
      saw' = (sw \<or> has_expiry (token_caveats ls))" for j p e sw
    by (rule Cons.IH) simp
  from Cons.prems show ?case
    by (cases "i = 0") (auto simp: IH check_caveats_eq split: sum.split)
qed

lemma verify_iff:
  "verify C ls issuer ctx = Inr h \<longleftrightarrow>
     ls \<noteq> [] \<and> chain_ok C 0 [] issuer ls \<and> list_all (\<lambda>c. satisfied_by c ctx) (token_caveats ls) \<and>
     has_expiry (token_caveats ls) \<and> token_holder C ls = Inr h"
  using verify_layers_iff [of 0 issuer issuer C ctx "[]" False ls]
  by (cases "verify_layers C issuer ctx 0 [] issuer False ls") (auto simp: verify_def)

lemma decode_not_missing:
  "decode_key C x \<noteq> Inl MissingExpiry" "decode_sig C x \<noteq> Inl MissingExpiry"
  by (simp_all add: decode_key_def decode_sig_def split: option.splits)

lemma verify_layers_not_missing:
  "verify_layers C issuer ctx i prev expected saw ls \<noteq> Inl MissingExpiry"
  by (induction ls arbitrary: i prev expected saw)
    (auto simp: check_caveats_eq decode_not_missing split: sum.split)

lemma verify_missing_expiry:
  "verify C ls issuer ctx = Inl MissingExpiry \<longleftrightarrow> ls \<noteq> [] \<and> chain_ok C 0 [] issuer ls \<and>
     list_all (\<lambda>c. satisfied_by c ctx) (token_caveats ls) \<and> \<not> has_expiry (token_caveats ls)"
proof -
  have "token_holder C ls \<noteq> Inl MissingExpiry"
    by (simp add: token_holder_def decode_not_missing)
  then have "verify C ls issuer ctx = Inl MissingExpiry \<longleftrightarrow>
      ls \<noteq> [] \<and> verify_layers C issuer ctx 0 [] issuer False ls = Inr False"
    using verify_layers_not_missing [of C issuer ctx 0 "[]" issuer False ls]
    by (auto simp: verify_def split: sum.splits)
  also have "\<dots> \<longleftrightarrow> ls \<noteq> [] \<and> chain_ok C 0 [] issuer ls \<and>
     list_all (\<lambda>c. satisfied_by c ctx) (token_caveats ls) \<and> \<not> has_expiry (token_caveats ls)"
    by (simp add: verify_layers_iff)
  finally show ?thesis .
qed

text \<open>The signer a further layer must have, and the signature it must continue.\<close>

lemma chain_ok_snoc:
  "chain_ok C i prev expected (ls @ [l]) \<longleftrightarrow>
     chain_ok C i prev expected ls \<and>
     (if ls = [] then chain_ok C i prev expected [l]
      else \<exists>hld s. decode_key C (holder_pubkey (last ls)) = Inr hld \<and>
        decode_sig C (layer_sig (last ls)) = Inr s \<and> chain_ok C (i + length ls) s hld [l])"
proof (induction ls arbitrary: i prev expected)
  case Nil
  then show ?case by simp
next
  case (Cons m ls)
  show ?case by (cases "ls = []") (auto simp: Cons.IH)
qed

lemma decode_key_hex: "hex_ok C \<Longrightarrow> length k = 32 \<Longrightarrow> decode_key C (hex_enc C k) = Inr k"
  by (simp add: decode_key_def hex_ok_def)

lemma decode_sig_hex: "hex_ok C \<Longrightarrow> length k = 64 \<Longrightarrow> decode_sig C (hex_enc C k) = Inr k"
  by (simp add: decode_sig_def hex_ok_def)

lemma attenuate_chain:
  assumes "hex_ok C" "signing_key_ok C key" "length delegate = 32"
    and "attenuate C ls key delegate added = Inr ls'"
  shows "chain_ok C 0 [] issuer ls' \<longleftrightarrow> chain_ok C 0 [] issuer ls"
    and "ls' \<noteq> []" "ls \<noteq> []" "token_caveats ls' = token_caveats ls @ added"
    and "token_holder C ls' = Inr delegate"
proof -
  from assms(4) obtain prev where ne: "ls \<noteq> []"
    and h: "decode_key C (holder_pubkey (last ls)) = Inr (verifying_key key)"
    and p: "decode_sig C (layer_sig (last ls)) = Inr prev"
    and ls': "ls' = ls @ [\<lparr>holder_pubkey = hex_enc C delegate, caveats = added,
      signer_pubkey = hex_enc C (verifying_key key),
      layer_sig = hex_enc C (sk_sign key (layer_bytes (length ls) delegate added prev))\<rparr>]"
    by (auto simp: attenuate_def token_holder_def Let_def split: sum.splits if_splits)
  then show "chain_ok C 0 [] issuer ls' \<longleftrightarrow> chain_ok C 0 [] issuer ls"
    using assms(1-3) by (simp add: chain_ok_snoc decode_key_hex decode_sig_hex signing_key_ok_def)
  show "ls' \<noteq> []" "ls \<noteq> []" "token_caveats ls' = token_caveats ls @ added"
    "token_holder C ls' = Inr delegate"
    using ls' ne assms(1,3) by (simp_all add: token_holder_def decode_key_hex)
qed

section \<open>The signed bytes of a layer are injective\<close>

interpretation caveat_code: prefix_code encode_caveat caveat_fits
proof
  fix c d r s
  assume ok: "caveat_fits c" "caveat_fits d" and eq: "encode_caveat c @ r = encode_caveat d @ s"
  have "hd (encode_caveat u @ t) = hd (encode_caveat u)" for u t by (cases u) simp_all
  with eq have tag: "hd (encode_caveat c) = hd (encode_caveat d)" by metis
  show "c = d \<and> r = s"
  proof (cases c)
    case (ExpiresAt a)
    with tag obtain b where "d = ExpiresAt b" by (cases d) simp_all
    with ExpiresAt eq ok show ?thesis by (simp add: caveat_fits_def peel_simps)
  next
    case (Operation a)
    with tag obtain b where "d = Operation b" by (cases d) simp_all
    with Operation eq ok show ?thesis by (simp add: caveat_fits_def peel_simps)
  next
    case (ResourcePrefix a)
    with tag obtain b where "d = ResourcePrefix b" by (cases d) simp_all
    with ResourcePrefix eq ok show ?thesis by (simp add: caveat_fits_def peel_simps)
  next
    case (MaxRows a)
    with tag obtain b where "d = MaxRows b" by (cases d) simp_all
    with MaxRows eq ok show ?thesis by (simp add: caveat_fits_def peel_simps)
  next
    case (Group a)
    with tag obtain b where "d = Group b" by (cases d) simp_all
    with Group eq ok show ?thesis by (simp add: caveat_fits_def peel_simps)
  next
    case (Region a)
    with tag obtain b where "d = Region b" by (cases d) simp_all
    with Region eq ok show ?thesis by (simp add: caveat_fits_def peel_simps)
  qed
qed

lemma layer_bytes_inject:
  assumes "layer_bytes i h cs p = layer_bytes j k ds q"
    and "i < 2 ^ 64" "j < 2 ^ 64" "length h = 32" "length k = 32"
    and "caveats_fit cs" "caveats_fit ds" "fits p" "fits q"
  shows "i = j \<and> h = k \<and> cs = ds \<and> p = q"
proof -
  from assms(1,4,5) have idx: "(of_nat i :: u64) = of_nat j" and "h = k"
    and rest: "field (encode_caveats cs) @ field p = field (encode_caveats ds) @ field q"
    by (simp_all add: layer_bytes_def u64_code.enc_append_inject)
  moreover from idx assms(2,3) have "i = j" by (simp add: of_nat_u64_inject)
  moreover from rest assms(6-9) have enc: "encode_caveats cs = encode_caveats ds" and "p = q"
    by (simp_all add: caveats_fit_def peel_simps)
  moreover have "cs = ds"
    using caveat_code.counted_inject [of cs ds "[]" "[]"] enc assms(6,7)
    by (simp add: encode_caveats_def caveats_fit_def)
  ultimately show ?thesis by blast
qed

lemma chain_ok_nth:
  assumes "chain_ok C n prev expected ls" "i < length ls"
  shows "\<exists>hld s. decode_key C (holder_pubkey (ls ! i)) = Inr hld \<and>
    hex_dec C (layer_sig (ls ! i)) = Some s \<and> length hld = 32 \<and> length s = 64 \<and>
    ed_verify_strict C (layer_key C expected ls i)
      (layer_bytes (n + i) hld (caveats (ls ! i)) (layer_prev C prev ls i)) s"
  using assms
proof (induction ls arbitrary: i n prev expected)
  case (Cons l ls)
  have len: "decode_key C x = Inr k \<Longrightarrow> length k = 32"
    "decode_sig C x = Inr k \<Longrightarrow> hex_dec C x = Some k \<and> length k = 64" for x k
    by (auto simp: decode_key_def decode_sig_def split: option.splits if_splits)
  from Cons.prems obtain hld s where l: "decode_key C (holder_pubkey l) = Inr hld"
    "decode_sig C (layer_sig l) = Inr s" "chain_ok C (Suc n) s hld ls"
    and v: "ed_verify_strict C expected (layer_bytes n hld (caveats l) prev) s"
    by auto
  show ?case
  proof (cases i)
    case 0
    with l v show ?thesis by (auto simp: layer_key_def layer_prev_def dest: len)
  next
    case (Suc j)
    with Cons.prems have "j < length ls" by simp
    from Cons.IH [OF l(3) this] l Suc show ?thesis
      by (cases j) (auto simp: layer_key_def layer_prev_def)
  qed
qed simp

section \<open>Properties\<close>

text \<open>
  C32: verification accepts a token, for a holder, exactly when the token has a layer, its chain of
  signatures starts at the trusted issuer and is unbroken, every caveat of every layer holds, at
  least one caveat bounds its lifetime, and the holder is the last layer's delegate.
\<close>

theorem token_verify_exact:
  "verify C ls issuer ctx = Inr h \<longleftrightarrow>
     ls \<noteq> [] \<and> chain_ok C 0 [] issuer ls \<and> list_all (\<lambda>c. satisfied_by c ctx) (token_caveats ls) \<and>
     has_expiry (token_caveats ls) \<and> token_holder C ls = Inr h"
  by (rule verify_iff)

text \<open>
  C20: attenuation only narrows. A delegated token authorises an action exactly when the added
  caveats hold and the original token authorised it, or the original lacked nothing but the
  mandatory expiry and the added caveats supply one; the holder it proves is the delegate.
\<close>

theorem attenuate_only_narrows:
  assumes "hex_ok C" "signing_key_ok C key" "length delegate = 32"
    and "attenuate C ls key delegate added = Inr ls'"
  shows "verify C ls' issuer ctx = Inr h \<longleftrightarrow>
    h = delegate \<and> list_all (\<lambda>c. satisfied_by c ctx) added \<and>
    ((\<exists>g. verify C ls issuer ctx = Inr g) \<or>
     verify C ls issuer ctx = Inl MissingExpiry \<and> has_expiry added)"
proof -
  note a = attenuate_chain [OF assms]
  have "\<exists>g. token_holder C ls = Inr g"
    using assms(4) by (auto simp: attenuate_def split: sum.splits)
  then show ?thesis
    using a(2,3) unfolding verify_iff verify_missing_expiry a(1,4,5) by auto
qed

theorem attenuate_only_narrows_witness:
  "let C = toy_crypto (\<lambda>_. True); t = mint C (toy_key 1) (replicate 32 2) [ExpiresAt 100] in
   \<exists>t'. attenuate C t (toy_key 2) (replicate 32 3) [MaxRows 5] = Inr t' \<and>
     verify C t' (replicate 32 1) (default_context 50) = Inr (replicate 32 3) \<and>
     verify C t' (replicate 32 1) (default_context 50\<lparr>ctx_rows := 6\<rparr>) \<noteq> Inr (replicate 32 3)"
proof -
  let ?C = "toy_crypto (\<lambda>_. True)"
  let ?t = "mint ?C (toy_key 1) (replicate 32 2) [ExpiresAt 100]"
  have d: "decode_key ?C (of_bytes b) = (if length b = 32 then Inr b else Inl Encoding)"
    "decode_sig ?C (of_bytes b) = (if length b = 64 then Inr b else Inl Encoding)" for b
    by (simp_all add: decode_key_def decode_sig_def toy_crypto_def)
  have C: "hex_enc ?C b = of_bytes b" "ed_pk_valid ?C b = (length b = 32)"
    "ed_verify_strict ?C b m s = (s = replicate 64 0)" for b m s
    by (simp_all add: toy_crypto_def)
  have k: "signing_key_ok ?C (toy_key b)" for b
    by (simp add: signing_key_ok_def toy_key_def C)
  obtain t' where t': "attenuate ?C ?t (toy_key 2) (replicate 32 3) [MaxRows 5] = Inr t'"
    by (simp add: attenuate_def token_holder_def mint_def d C toy_key_def Let_def)
  have "verify ?C ?t (replicate 32 1) (default_context 50) = Inr (replicate 32 2)"
    by (simp add: verify_iff mint_def token_holder_def d C toy_key_def default_context_def)
  then have "verify ?C t' (replicate 32 1) (default_context 50) = Inr (replicate 32 3)"
    "verify ?C t' (replicate 32 1) (default_context 50\<lparr>ctx_rows := 6\<rparr>) \<noteq> Inr (replicate 32 3)"
    by (simp_all add: attenuate_only_narrows [OF toy_crypto_ok(1) k _ t'] default_context_def)
  with t' show ?thesis by (simp add: Let_def)
qed

text \<open>
  every layer of an accepted token was delegated as it stands. If the key expected at layer
  \<open>i\<close> signed only the delegations recorded for it, then the layer is one of them, made for
  position \<open>i\<close>, for this holder, with these caveats and after this previous signature: layers
  cannot be dropped, reordered, spliced from other tokens or stripped of caveats.
\<close>

theorem token_layers_authentic:
  assumes "verify C ls issuer ctx = Inr h" "i < length ls"
    and signed: "only_signed C (layer_key C issuer ls i) (layer_sig (ls ! i))
      (delegation_bytes ` delegations)"
    and fit: "\<forall>d\<in>delegations. delegation_fits d"
    and "length ls < 2 ^ 64" "caveats_fit (caveats (ls ! i))"
  shows "\<exists>hld. decode_key C (holder_pubkey (ls ! i)) = Inr hld \<and>
    (i, hld, caveats (ls ! i), layer_prev C [] ls i) \<in> delegations"
proof -
  let ?k = "layer_key C issuer ls i" and ?p = "layer_prev C [] ls i"
  have "chain_ok C 0 [] issuer ls" using assms(1) by (simp add: verify_iff)
  then obtain hld s where h: "decode_key C (holder_pubkey (ls ! i)) = Inr hld" "length hld = 32"
    and v: "ed_verify_strict C ?k (layer_bytes i hld (caveats (ls ! i)) ?p) s"
    "hex_dec C (layer_sig (ls ! i)) = Some s"
    using chain_ok_nth [of C 0 "[]" issuer ls i] assms(2) by auto
  have fp: "fits ?p"
    by (auto simp: layer_prev_def decode_sig_def fits_def split: nat.splits option.splits)
  from v signed have "layer_bytes i hld (caveats (ls ! i)) ?p \<in> delegation_bytes ` delegations"
    by (auto simp: only_signed_def)
  then obtain j k cs p where d: "(j, k, cs, p) \<in> delegations"
    and eq: "layer_bytes i hld (caveats (ls ! i)) ?p = layer_bytes j k cs p"
    by (auto simp: delegation_bytes_def)
  from d fit have "delegation_fits (j, k, cs, p)" by blast
  then have "i = j \<and> hld = k \<and> caveats (ls ! i) = cs \<and> ?p = p"
    using assms(2,5,6) h(2) fp by (intro layer_bytes_inject [OF eq]) (simp_all add: delegation_fits_def)
  with d h(1) show ?thesis by auto
qed

theorem token_layers_authentic_witness:
  "let m = delegation_bytes (0, replicate 32 2, [ExpiresAt 9], []); C = toy_crypto (\<lambda>x. x = m);
       ls = mint C (toy_key 1) (replicate 32 2) [ExpiresAt 9]
   in \<exists>hld. decode_key C (holder_pubkey (ls ! 0)) = Inr hld \<and>
    (0, hld, caveats (ls ! 0), layer_prev C [] ls 0) \<in> {(0, replicate 32 2, [ExpiresAt 9], [])}"
proof -
  let ?d = "(0, replicate 32 2, [ExpiresAt 9], []) :: nat \<times> bytes \<times> caveat list \<times> bytes"
  let ?C = "toy_crypto (\<lambda>x. x = delegation_bytes ?d)"
  let ?ls = "mint ?C (toy_key 1) (replicate 32 2) [ExpiresAt 9]"
  have "verify ?C ?ls (replicate 32 1) (default_context 5) = Inr (replicate 32 2)"
    by (simp add: verify_iff mint_def token_holder_def decode_key_def decode_sig_def toy_crypto_def
        toy_key_def default_context_def delegation_bytes_def)
  then have "\<exists>hld. decode_key ?C (holder_pubkey (?ls ! 0)) = Inr hld \<and>
    (0, hld, caveats (?ls ! 0), layer_prev ?C [] ?ls 0) \<in> {?d}"
  proof (rule token_layers_authentic)
    show "only_signed ?C (layer_key ?C (replicate 32 1) ?ls 0) (layer_sig (?ls ! 0))
        (delegation_bytes ` {?d})"
      by (simp add: only_signed_def) (simp add: toy_crypto_def)
  qed (simp_all add: delegation_fits_def caveats_fit_def caveat_fits_def fits_def mint_def
      encode_caveats_def)
  then show ?thesis by (simp add: Let_def)
qed

text \<open>
  a group proof that is accepted names the group in a caveat, is within its lifetime, and
  carries no caveat that would confine it to anything else: another group, a region, an operation
  or a resource.
\<close>

theorem group_membership_sound:
  assumes "verify_group_membership C ls issuer g t = Inr h"
  shows "Group g \<in> set (token_caveats ls) \<and> (\<exists>e. ExpiresAt e \<in> set (token_caveats ls) \<and> t \<le> e) \<and>
    token_holder C ls = Inr h \<and>
    list_all (\<lambda>c. case c of ExpiresAt e \<Rightarrow> t \<le> e | Operation op \<Rightarrow> op = [] | ResourcePrefix p \<Rightarrow> p = []
        | MaxRows m \<Rightarrow> True | Group g' \<Rightarrow> g' = g | Region r \<Rightarrow> False) (token_caveats ls)"
proof -
  let ?x = "default_context t\<lparr>ctx_group := Some g\<rparr>"
  from assms have g: "authorizes_group ls g" and "verify C ls issuer ?x = Inr h"
    by (auto simp: verify_group_membership_def split: if_splits)
  then have all: "list_all (\<lambda>c. satisfied_by c ?x) (token_caveats ls)"
    and e: "has_expiry (token_caveats ls)" and h: "token_holder C ls = Inr h"
    by (simp_all add: verify_iff)
  have "satisfied_by c ?x \<longleftrightarrow> (case c of ExpiresAt e \<Rightarrow> t \<le> e | Operation op \<Rightarrow> op = []
      | ResourcePrefix p \<Rightarrow> p = [] | MaxRows m \<Rightarrow> True | Group g' \<Rightarrow> g' = g | Region r \<Rightarrow> False)" for c
    by (cases c) (auto simp: default_context_def)
  with all g e h show ?thesis
    by (fastforce simp: authorizes_group_def has_expiry_def list_ex_iff list_all_iff)
qed

theorem group_membership_sound_witness:
  "let C = toy_crypto (\<lambda>_. True);
       ls = mint C (toy_key 1) (replicate 32 2) [Group ''eu'', ExpiresAt 9]
   in verify_group_membership C ls (replicate 32 1) ''eu'' 5 = Inr (replicate 32 2) \<and>
     Group ''eu'' \<in> set (token_caveats ls)"
proof -
  let ?C = "toy_crypto (\<lambda>_. True)"
  have "verify_group_membership ?C (mint ?C (toy_key 1) (replicate 32 2) [Group ''eu'', ExpiresAt 9])
      (replicate 32 1) ''eu'' 5 = Inr (replicate 32 2)"
    by (simp add: verify_group_membership_def verify_iff mint_def token_holder_def authorizes_group_def
        decode_key_def decode_sig_def toy_crypto_def toy_key_def default_context_def)
  with group_membership_sound [OF this] show ?thesis by (simp add: Let_def)
qed

end
