(* ===== verification/Merkle.thy ===== *)
theory Merkle
  imports Prelude
begin

text \<open>
  The Merkle tree over the records of an epoch (\<open>crates/settlement/src/merkle.rs\<close>). SHA-256 is
  third-party: the argument \<open>H\<close>. The levels the code builds are refined to a binary tree, whose
  hash is the root; inclusion proofs are complete, sound and short, and the root binds the whole
  batch, as long as \<open>H\<close> has no collision among the strings hashed for it.
\<close>

section \<open>Definitions\<close>

type_synonym hash32 = bytes

record inclusion_proof =
  leaf :: hash32
  siblings :: "(bool \<times> hash32) list"

definition PAIR_CELL_DESCRIPTOR :: bytes where "PAIR_CELL_DESCRIPTOR = [0x00, 0x80]"
definition LEAF_CELL_DESCRIPTOR :: bytes where "LEAF_CELL_DESCRIPTOR = [0x00, 0x40]"

definition hash_leaf :: "(bytes \<Rightarrow> hash32) \<Rightarrow> hash32 \<Rightarrow> hash32" where
  "hash_leaf H value = H (LEAF_CELL_DESCRIPTOR @ value)"

definition hash_node :: "(bytes \<Rightarrow> hash32) \<Rightarrow> hash32 \<Rightarrow> hash32 \<Rightarrow> hash32" where
  "hash_node H left right = H (PAIR_CELL_DESCRIPTOR @ left @ right)"

text \<open>One round of the outer loop of \<open>levels\<close>: pair up, promote an odd last node unchanged.\<close>

fun next_level :: "(bytes \<Rightarrow> hash32) \<Rightarrow> hash32 list \<Rightarrow> hash32 list" where
  "next_level H (l # r # xs) = hash_node H l r # next_level H xs"
| "next_level H [x] = [x]"
| "next_level H [] = []"

lemma length_next_level: "length (next_level H xs) = (length xs + 1) div 2"
  by (induction H xs rule: next_level.induct) auto

function levels_from :: "(bytes \<Rightarrow> hash32) \<Rightarrow> hash32 list \<Rightarrow> hash32 list list" where
  "levels_from H cur = (if 1 < length cur then cur # levels_from H (next_level H cur) else [cur])"
  by pat_completeness auto
termination
  by (relation "measure (\<lambda>(H, cur). length cur)") (auto simp: length_next_level)

declare levels_from.simps [simp del]

definition levels :: "(bytes \<Rightarrow> hash32) \<Rightarrow> hash32 list \<Rightarrow> hash32 list list option" where
  "levels H values = (if values = [] then None else Some (levels_from H (map (hash_leaf H) values)))"

definition try_merkle_root :: "(bytes \<Rightarrow> hash32) \<Rightarrow> hash32 list \<Rightarrow> hash32 option" where
  "try_merkle_root H values = map_option (\<lambda>all. hd (last all)) (levels H values)"

definition merkle_root :: "(bytes \<Rightarrow> hash32) \<Rightarrow> hash32 list \<Rightarrow> hash32" where
  "merkle_root H values = (case try_merkle_root H values of None \<Rightarrow> replicate 32 0 | Some r \<Rightarrow> r)"

text \<open>The loop of \<open>build_proof\<close> over all levels but the last, with the index at each level.\<close>

fun proof_steps :: "nat \<Rightarrow> hash32 list list \<Rightarrow> (bool \<times> hash32) list" where
  "proof_steps idx [] = []"
| "proof_steps idx (level # rest) =
     (if even idx
      then (if idx + 1 < length level then [(False, level ! (idx + 1))] else [])
      else [(True, level ! (idx - 1))]) @ proof_steps (idx div 2) rest"

definition build_proof :: "(bytes \<Rightarrow> hash32) \<Rightarrow> hash32 list \<Rightarrow> nat \<Rightarrow> inclusion_proof option" where
  "build_proof H values index =
     (if length values \<le> index then None
      else (case levels H values of
              None \<Rightarrow> None
            | Some all \<Rightarrow> Some \<lparr>leaf = values ! index, siblings = proof_steps index (butlast all)\<rparr>))"

fun fold_siblings :: "(bytes \<Rightarrow> hash32) \<Rightarrow> hash32 \<Rightarrow> (bool \<times> hash32) list \<Rightarrow> hash32" where
  "fold_siblings H acc [] = acc"
| "fold_siblings H acc ((sib_is_left, sib) # rest) =
     fold_siblings H (if sib_is_left then hash_node H sib acc else hash_node H acc sib) rest"

definition verify_inclusion :: "(bytes \<Rightarrow> hash32) \<Rightarrow> hash32 \<Rightarrow> inclusion_proof \<Rightarrow> bool" where
  "verify_inclusion H root p = (fold_siblings H (hash_leaf H (leaf p)) (siblings p) = root)"

section \<open>The tree the levels stand for\<close>

datatype mtree = Lf hash32 | Nd mtree mtree

fun tree_hash :: "(bytes \<Rightarrow> hash32) \<Rightarrow> mtree \<Rightarrow> hash32" where
  "tree_hash H (Lf v) = hash_leaf H v"
| "tree_hash H (Nd l r) = hash_node H (tree_hash H l) (tree_hash H r)"

fun leaves :: "mtree \<Rightarrow> hash32 list" where
  "leaves (Lf v) = [v]"
| "leaves (Nd l r) = leaves l @ leaves r"

fun pair_up :: "mtree list \<Rightarrow> mtree list" where
  "pair_up (l # r # ts) = Nd l r # pair_up ts"
| "pair_up [t] = [t]"
| "pair_up [] = []"

lemma length_pair_up: "length (pair_up ts) = (length ts + 1) div 2"
  by (induction ts rule: pair_up.induct) auto

function tree_of :: "mtree list \<Rightarrow> mtree" where
  "tree_of ts = (if 1 < length ts then tree_of (pair_up ts) else hd ts)"
  by pat_completeness auto
termination
  by (relation "measure length") (auto simp: length_pair_up)

declare tree_of.simps [simp del]

definition merkle_tree :: "hash32 list \<Rightarrow> mtree" where
  "merkle_tree values = tree_of (map Lf values)"

text \<open>The strings hashed for a tree, and those hashed while a proof is checked.\<close>

fun tree_preimages :: "(bytes \<Rightarrow> hash32) \<Rightarrow> mtree \<Rightarrow> bytes set" where
  "tree_preimages H (Lf v) = {LEAF_CELL_DESCRIPTOR @ v}"
| "tree_preimages H (Nd l r) =
     insert (PAIR_CELL_DESCRIPTOR @ tree_hash H l @ tree_hash H r) (tree_preimages H l \<union> tree_preimages H r)"

fun sibling_preimages :: "(bytes \<Rightarrow> hash32) \<Rightarrow> hash32 \<Rightarrow> (bool \<times> hash32) list \<Rightarrow> bytes set" where
  "sibling_preimages H acc [] = {}"
| "sibling_preimages H acc ((sib_is_left, sib) # rest) =
     (let pre = PAIR_CELL_DESCRIPTOR @ (if sib_is_left then sib @ acc else acc @ sib)
      in insert pre (sibling_preimages H (H pre) rest))"

definition proof_preimages :: "(bytes \<Rightarrow> hash32) \<Rightarrow> inclusion_proof \<Rightarrow> bytes set" where
  "proof_preimages H p = insert (LEAF_CELL_DESCRIPTOR @ leaf p)
     (sibling_preimages H (hash_leaf H (leaf p)) (siblings p))"

definition wf_proof :: "inclusion_proof \<Rightarrow> bool" where
  "wf_proof p \<longleftrightarrow> length (leaf p) = 32 \<and> list_all (\<lambda>s. length (snd s) = 32) (siblings p)"

text \<open>A digest of the right length for examples.\<close>

definition toy_digest :: "bytes \<Rightarrow> hash32" where
  "toy_digest x = take 32 ((if length x < 2 then 0 else x ! 1) # drop (length x - 31) x @ replicate 32 0)"

section \<open>Refinement of the levels to the tree\<close>

lemma map_tree_hash_pair_up: "map (tree_hash H) (pair_up ts) = next_level H (map (tree_hash H) ts)"
  by (induction ts rule: pair_up.induct) simp_all

lemma leaves_pair_up: "concat (map leaves (pair_up ts)) = concat (map leaves ts)"
  by (induction ts rule: pair_up.induct) simp_all

lemma tree_of_single [simp]: "tree_of [t] = t"
  by (simp add: tree_of.simps)

lemma tree_of_leaves: "ts \<noteq> [] \<Longrightarrow> leaves (tree_of ts) = concat (map leaves ts)"
proof (induction ts rule: tree_of.induct)
  case (1 ts)
  show ?case
  proof (cases "1 < length ts")
    case True
    then have "pair_up ts \<noteq> []" using length_pair_up [of ts] by auto
    then show ?thesis using 1 True by (simp add: tree_of.simps [of ts] leaves_pair_up)
  next
    case False
    with 1 obtain t where "ts = [t]" by (cases ts) auto
    then show ?thesis by simp
  qed
qed

lemma last_levels_from:
  "ts \<noteq> [] \<Longrightarrow> last (levels_from H (map (tree_hash H) ts)) = [tree_hash H (tree_of ts)]"
proof (induction ts rule: tree_of.induct)
  case (1 ts)
  let ?h = "map (tree_hash H)"
  show ?case
  proof (cases "1 < length ts")
    case True
    then have ne: "pair_up ts \<noteq> []" using length_pair_up [of ts] by auto
    have "levels_from H (?h ts) = ?h ts # levels_from H (?h (pair_up ts))"
      using True by (simp add: levels_from.simps [of H "?h ts"] map_tree_hash_pair_up)
    moreover have "levels_from H (?h (pair_up ts)) \<noteq> []"
      by (simp add: levels_from.simps [of H "?h (pair_up ts)"])
    ultimately show ?thesis using 1 True ne by (simp add: tree_of.simps [of ts])
  next
    case False
    with 1 obtain t where "ts = [t]" by (cases ts) auto
    then show ?thesis by (simp add: levels_from.simps)
  qed
qed

lemma tree_hash_Lf: "map (tree_hash H) (map Lf values) = map (hash_leaf H) values"
  by simp

lemma merkle_root_tree:
  "values \<noteq> [] \<Longrightarrow> try_merkle_root H values = Some (tree_hash H (merkle_tree values))"
  using last_levels_from [of "map Lf values" H]
  by (simp add: try_merkle_root_def levels_def merkle_tree_def comp_def del: map_map)
    (simp add: comp_def)

lemma leaves_merkle_tree: "values \<noteq> [] \<Longrightarrow> leaves (merkle_tree values) = values"
  by (simp add: merkle_tree_def tree_of_leaves comp_def)

section \<open>Completeness and size of proofs\<close>

lemma next_level_nth:
  "i < length xs \<Longrightarrow> next_level H xs ! (i div 2) =
     (if even i then (if i + 1 < length xs then hash_node H (xs ! i) (xs ! (i + 1)) else xs ! i)
      else hash_node H (xs ! (i - 1)) (xs ! i))"
proof (induction H xs arbitrary: i rule: next_level.induct)
  case (1 H l r xs)
  show ?case
  proof (cases "i < 2")
    case True
    then consider "i = 0" | "i = 1" by linarith
    then show ?thesis by cases simp_all
  next
    case False
    then obtain j where j: "i = Suc (Suc j)" using less_iff_Suc_add [of 1 i] by auto
    with 1 have "next_level H xs ! (j div 2) =
       (if even j then (if j + 1 < length xs then hash_node H (xs ! j) (xs ! (j + 1)) else xs ! j)
        else hash_node H (xs ! (j - 1)) (xs ! j))" by simp
    with j show ?thesis by (cases j) auto
  qed
qed simp_all

lemma fold_siblings_append:
  "fold_siblings H acc (p @ q) = fold_siblings H (fold_siblings H acc p) q"
  by (induction H acc p rule: fold_siblings.induct) simp_all

lemma proof_steps_complete:
  "i < length xs \<Longrightarrow>
    fold_siblings H (xs ! i) (proof_steps i (butlast (levels_from H xs))) = hd (last (levels_from H xs))"
proof (induction H xs arbitrary: i rule: levels_from.induct)
  case (1 H xs)
  show ?case
  proof (cases "1 < length xs")
    case True
    have ne: "levels_from H (next_level H xs) \<noteq> []" by (simp add: levels_from.simps)
    have "i div 2 < length (next_level H xs)" using 1 by (auto simp: length_next_level)
    then have "fold_siblings H (next_level H xs ! (i div 2))
        (proof_steps (i div 2) (butlast (levels_from H (next_level H xs)))) =
        hd (last (levels_from H (next_level H xs)))" using 1(1) True by blast
    then show ?thesis
      using True ne 1(2)
      by (simp add: levels_from.simps [of H xs] fold_siblings_append next_level_nth split: if_splits)
  next
    case False
    with 1 show ?thesis by (cases xs) (auto simp: levels_from.simps)
  qed
qed

lemma length_proof_steps: "length (proof_steps i ls) \<le> length ls"
  by (induction i ls rule: proof_steps.induct) auto

lemma length_levels_from: "2 ^ (length (levels_from H xs) - 1) \<le> max 1 (2 * (length xs - 1))"
proof (induction H xs rule: levels_from.induct)
  case (1 H xs)
  show ?case
  proof (cases "1 < length xs")
    case True
    let ?n = "next_level H xs"
    have l: "length (levels_from H ?n) = Suc (length (levels_from H ?n) - 1)"
      by (simp add: levels_from.simps [of H ?n])
    have "length (levels_from H xs) - 1 = Suc (length (levels_from H ?n) - 1)"
      using True l by (simp add: levels_from.simps [of H xs])
    moreover have "2 * max 1 (2 * (length ?n - 1)) \<le> max 1 (2 * (length xs - 1))"
      using True by (auto simp: length_next_level)
    moreover have "2 * 2 ^ (length (levels_from H ?n) - 1) \<le> 2 * max 1 (2 * (length ?n - 1))"
      using 1 True by (intro mult_le_mono) auto
    ultimately show ?thesis by (simp only: power_Suc)
  qed (simp add: levels_from.simps)
qed

section \<open>Soundness and binding\<close>

lemma desc_simps:
  "LEAF_CELL_DESCRIPTOR @ x \<noteq> PAIR_CELL_DESCRIPTOR @ y"
  "LEAF_CELL_DESCRIPTOR @ x = LEAF_CELL_DESCRIPTOR @ y \<longleftrightarrow> x = y"
  by (simp_all add: LEAF_CELL_DESCRIPTOR_def PAIR_CELL_DESCRIPTOR_def)

lemma length_tree_hash: "\<forall>x. length (H x) = 32 \<Longrightarrow> length (tree_hash H t) = 32"
  by (cases t) (simp_all add: hash_leaf_def hash_node_def)

lemma tree_preimages_root:
  "\<exists>x \<in> tree_preimages H t. tree_hash H t = H x"
  by (cases t) (auto simp: hash_leaf_def hash_node_def)

text \<open>A node value that equals a hash step opens into the two subtrees.\<close>

lemma open_node:
  assumes "\<forall>x. length (H x) = 32" "inj_on H (insert (PAIR_CELL_DESCRIPTOR @ a @ b) (tree_preimages H t))"
    and "hash_node H a b = tree_hash H t" "length a = 32"
  shows "\<exists>l r. t = Nd l r \<and> a = tree_hash H l \<and> b = tree_hash H r"
proof (cases t)
  case (Lf v)
  then have "PAIR_CELL_DESCRIPTOR @ a @ b = LEAF_CELL_DESCRIPTOR @ v"
    using assms(2,3) by (auto simp: hash_node_def hash_leaf_def dest: inj_onD)
  then show ?thesis by (metis desc_simps(1))
next
  case (Nd l r)
  then have "PAIR_CELL_DESCRIPTOR @ a @ b = PAIR_CELL_DESCRIPTOR @ tree_hash H l @ tree_hash H r"
    using assms(2,3) by (auto simp: hash_node_def dest: inj_onD)
  with Nd assms(4) length_tree_hash [OF assms(1), of l] show ?thesis by auto
qed

lemma open_leaf:
  assumes "inj_on H (insert (LEAF_CELL_DESCRIPTOR @ v) (tree_preimages H t))" "hash_leaf H v = tree_hash H t"
  shows "t = Lf v"
proof (cases t)
  case (Lf w)
  then have "LEAF_CELL_DESCRIPTOR @ v = LEAF_CELL_DESCRIPTOR @ w"
    using assms by (auto simp: hash_leaf_def dest: inj_onD)
  with Lf show ?thesis by simp
next
  case (Nd l r)
  then have "LEAF_CELL_DESCRIPTOR @ v = PAIR_CELL_DESCRIPTOR @ tree_hash H l @ tree_hash H r"
    using assms by (auto simp: hash_leaf_def hash_node_def dest: inj_onD)
  then show ?thesis by (simp add: desc_simps)
qed

lemma sibling_preimages_append:
  "sibling_preimages H acc (p @ [(b, s)]) = sibling_preimages H acc p \<union>
     {PAIR_CELL_DESCRIPTOR @ (if b then s @ fold_siblings H acc p else fold_siblings H acc p @ s)}"
  by (induction H acc p rule: sibling_preimages.induct) (auto simp: Let_def hash_node_def)

lemma length_fold_siblings:
  "\<forall>x. length (H x) = 32 \<Longrightarrow> length acc = 32 \<Longrightarrow> length (fold_siblings H acc p) = 32"
  by (induction H acc p rule: fold_siblings.induct) (auto simp: hash_node_def)

lemma path_sound:
  assumes H: "\<forall>x. length (H x) = 32"
    and "inj_on H (insert (LEAF_CELL_DESCRIPTOR @ v) (sibling_preimages H (hash_leaf H v) p) \<union> tree_preimages H t)"
    and "fold_siblings H (hash_leaf H v) p = tree_hash H t" "list_all (\<lambda>s. length (snd s) = 32) p"
  shows "v \<in> set (leaves t)"
  using assms(2-)
proof (induction p arbitrary: t rule: rev_induct)
  case Nil
  then have "t = Lf v" by (intro open_leaf) auto
  then show ?case by simp
next
  case (snoc x p)
  obtain b s where x: "x = (b, s)" by (cases x)
  let ?acc = "fold_siblings H (hash_leaf H v) p"
  have acc: "length ?acc = 32" using H by (simp add: length_fold_siblings hash_leaf_def)
  have "\<exists>l r. t = Nd l r \<and> (if b then s else ?acc) = tree_hash H l \<and> (if b then ?acc else s) = tree_hash H r"
    by (rule open_node [OF H])
      (use snoc.prems x acc in \<open>auto simp: sibling_preimages_append fold_siblings_append elim: inj_on_subset split: if_splits\<close>)
  then obtain l r where t: "t = Nd l r" "(if b then s else ?acc) = tree_hash H l"
    "(if b then ?acc else s) = tree_hash H r" by blast
  define u where "u = (if b then r else l)"
  have "v \<in> set (leaves u)"
  proof (rule snoc.IH)
    show "?acc = tree_hash H u" using t by (auto simp: u_def split: if_splits)
    show "list_all (\<lambda>s. length (snd s) = 32) p" using snoc.prems(3) by simp
    show "inj_on H (insert (LEAF_CELL_DESCRIPTOR @ v) (sibling_preimages H (hash_leaf H v) p) \<union> tree_preimages H u)"
      using snoc.prems(1) by (rule inj_on_subset) (auto simp: x t u_def sibling_preimages_append split: if_splits)
  qed
  with t(1) show ?case by (auto simp: u_def split: if_splits)
qed

lemma tree_hash_inject:
  assumes "\<forall>x. length (H x) = 32"
  shows "inj_on H (tree_preimages H s \<union> tree_preimages H t) \<Longrightarrow> tree_hash H s = tree_hash H t \<Longrightarrow> s = t"
proof (induction s arbitrary: t)
  case (Lf v)
  then have "t = Lf v" by (intro open_leaf) auto
  then show ?case by simp
next
  case (Nd s1 s2)
  have "\<exists>l r. t = Nd l r \<and> tree_hash H s1 = tree_hash H l \<and> tree_hash H s2 = tree_hash H r"
    using Nd.prems length_tree_hash [OF assms, of s1]
    by (intro open_node [OF assms]) (auto elim: inj_on_subset)
  then obtain l r where t: "t = Nd l r" "tree_hash H s1 = tree_hash H l" "tree_hash H s2 = tree_hash H r"
    by blast
  have "inj_on H (tree_preimages H s1 \<union> tree_preimages H l)"
    "inj_on H (tree_preimages H s2 \<union> tree_preimages H r)"
    using Nd.prems(1) t(1) by (auto elim!: inj_on_subset)
  with Nd.IH t show ?case by blast
qed

lemma toy_digest_leaf: "toy_digest (LEAF_CELL_DESCRIPTOR @ replicate 32 b) = 0x40 # replicate 31 b"
  by (simp add: toy_digest_def LEAF_CELL_DESCRIPTOR_def numeral_eq_Suc)

lemma toy_digest_pair:
  "toy_digest (PAIR_CELL_DESCRIPTOR @ c # replicate 31 a @ d # replicate 31 b) = 0x80 # replicate 31 b"
  by (simp add: toy_digest_def PAIR_CELL_DESCRIPTOR_def numeral_eq_Suc)

section \<open>Properties\<close>

text \<open>
  for every leaf of a non-empty batch, the proof the builder returns carries that leaf, is
  accepted against the batch's root, and has at most one sibling per doubling of the batch.
\<close>

theorem build_proof_complete:
  assumes "i < length values"
  shows "\<exists>p. build_proof H values i = Some p \<and> leaf p = values ! i \<and>
    verify_inclusion H (merkle_root H values) p \<and> 2 ^ length (siblings p) < 2 * length values"
proof -
  let ?all = "levels_from H (map (hash_leaf H) values)"
  from assms have lv: "levels H values = Some ?all" by (auto simp: levels_def)
  let ?p = "\<lparr>leaf = values ! i, siblings = proof_steps i (butlast ?all)\<rparr>"
  have "build_proof H values i = Some ?p" using assms lv by (simp add: build_proof_def)
  moreover have "verify_inclusion H (merkle_root H values) ?p"
    using proof_steps_complete [of i "map (hash_leaf H) values" H] assms lv
    by (simp add: verify_inclusion_def merkle_root_def try_merkle_root_def)
  moreover have "2 ^ length (siblings ?p) < 2 * length values"
  proof -
    have "(2 :: nat) ^ length (siblings ?p) \<le> 2 ^ (length ?all - 1)"
      using length_proof_steps [of i "butlast ?all"] by (intro power_increasing) simp_all
    also have "\<dots> \<le> max 1 (2 * (length values - 1))"
      using length_levels_from [of H "map (hash_leaf H) values"] by simp
    finally show ?thesis using assms by auto
  qed
  ultimately show ?thesis by auto
qed

theorem build_proof_complete_witness:
  "\<exists>p. build_proof toy_digest [[1], [2], [3]] 2 = Some p \<and> leaf p = [[1], [2], [3]] ! 2 \<and>
    verify_inclusion toy_digest (merkle_root toy_digest [[1], [2], [3]]) p \<and>
    2 ^ length (siblings p) < 2 * length [[1], [2], [3 :: u8]]"
  by (rule build_proof_complete) simp

text \<open>
  C18: an accepted proof proves membership. If the digest yields 32 bytes and has no collision
  among the strings hashed for the batch and for the proof, then any proof accepted against the
  batch's root is for a value of the batch. In particular an inner node can not be passed off as
  a leaf.
\<close>

theorem verify_inclusion_sound:
  assumes "\<forall>x. length (H x) = 32" "values \<noteq> []" "wf_proof p"
    and "inj_on H (proof_preimages H p \<union> tree_preimages H (merkle_tree values))"
    and "verify_inclusion H (merkle_root H values) p"
  shows "leaf p \<in> set values"
proof -
  have "leaf p \<in> set (leaves (merkle_tree values))"
    using assms merkle_root_tree [OF assms(2), of H]
    by (intro path_sound [of H "leaf p" "siblings p"])
      (simp_all add: proof_preimages_def verify_inclusion_def merkle_root_def wf_proof_def)
  then show ?thesis by (simp add: leaves_merkle_tree [OF assms(2)])
qed

theorem verify_inclusion_sound_witness:
  "let vs = [replicate 32 1, replicate 32 2];
       p = \<lparr>leaf = replicate 32 1, siblings = [(False, toy_digest (LEAF_CELL_DESCRIPTOR @ replicate 32 2))]\<rparr>
   in verify_inclusion toy_digest (merkle_root toy_digest vs) p \<and> leaf p \<in> set vs"
proof -
  let ?vs = "[replicate 32 1, replicate 32 2] :: bytes list"
  let ?p = "\<lparr>leaf = replicate 32 1, siblings = [(False, toy_digest (LEAF_CELL_DESCRIPTOR @ replicate 32 2))]\<rparr>"
  have t: "merkle_tree ?vs = Nd (Lf (replicate 32 1)) (Lf (replicate 32 2))"
    by (simp add: merkle_tree_def tree_of.simps)
  have v: "verify_inclusion toy_digest (merkle_root toy_digest ?vs) ?p"
    using merkle_root_tree [of ?vs toy_digest]
    by (simp add: merkle_root_def t verify_inclusion_def hash_leaf_def)
  have "leaf ?p \<in> set ?vs"
  proof (rule verify_inclusion_sound [OF _ _ _ _ v])
    show "\<forall>x. length (toy_digest x) = 32" by (simp add: toy_digest_def)
    show "wf_proof ?p" by (simp add: wf_proof_def toy_digest_leaf)
    show "inj_on toy_digest (proof_preimages toy_digest ?p \<union> tree_preimages toy_digest (merkle_tree ?vs))"
      by (simp add: t proof_preimages_def hash_leaf_def toy_digest_leaf toy_digest_pair inj_on_def)
  qed simp
  with v show ?thesis by (simp add: Let_def)
qed

text \<open>
  the anchored root binds the whole batch: two non-empty batches with the same root are equal,
  in values, order and number, unless the digest collides on the strings hashed for them. No
  batch collides with one that repeats its last record.
\<close>

theorem merkle_root_binds_batch:
  assumes "\<forall>x. length (H x) = 32" "vs \<noteq> []" "ws \<noteq> []"
    and "inj_on H (tree_preimages H (merkle_tree vs) \<union> tree_preimages H (merkle_tree ws))"
    and "try_merkle_root H vs = try_merkle_root H ws"
  shows "vs = ws"
proof -
  have "merkle_tree vs = merkle_tree ws"
    using assms by (intro tree_hash_inject [OF assms(1)]) (simp_all add: merkle_root_tree)
  then show ?thesis using assms(2,3) by (metis leaves_merkle_tree)
qed

theorem merkle_root_binds_batch_witness:
  "try_merkle_root toy_digest [replicate 32 1] \<noteq> try_merkle_root toy_digest [replicate 32 1, replicate 32 1]"
proof
  assume eq: "try_merkle_root toy_digest [replicate 32 1] = try_merkle_root toy_digest [replicate 32 1, replicate 32 1]"
  have "[replicate 32 1] = [replicate 32 1, replicate 32 (1 :: u8)]"
  proof (rule merkle_root_binds_batch [OF _ _ _ _ eq])
    show "inj_on toy_digest (tree_preimages toy_digest (merkle_tree [replicate 32 1]) \<union>
        tree_preimages toy_digest (merkle_tree [replicate 32 1, replicate 32 1]))"
      by (simp add: merkle_tree_def tree_of.simps hash_leaf_def toy_digest_leaf toy_digest_pair inj_on_def)
  qed (simp_all add: toy_digest_def)
  then show False by simp
qed

end
