(* ===== verification/Settlement.thy ===== *)
theory Settlement
  imports Merkle "HOL-Library.Monad_Syntax"
begin

text \<open>
  The settlement layer without a chain (\<open>crates/settlement/src\<close>: \<open>types.rs\<close>, \<open>traits.rs\<close>,
  \<open>mock.rs\<close>, \<open>noop.rs\<close>, \<open>engagement.rs\<close>). Amounts are naturals bounded by \<open>u128_max\<close>; the build
  checks overflow in release mode too, so an unchecked addition that overflows panics, and a
  panic is \<open>None\<close>. The traits \<open>Settlement\<close>, \<open>StakeRegistry\<close> and \<open>RecordAnchor\<close> are locales,
  interpreted by the in-memory and by the no-op implementation.
\<close>

section \<open>Escrow types and arithmetic\<close>

type_synonym amount = nat

record wallet_address =
  workchain :: int
  account :: hash32

record payout =
  to :: wallet_address
  amount :: amount

record escrow_handle =
  job :: string
  address :: wallet_address
  max_bid :: amount

record settlement_outcome =
  out_result_hash :: hash32
  base :: amount
  winner :: payout
  participants :: "payout list"
  platform_fee :: amount

datatype settle_error = NotFunded string | PayoutExceedsEscrow amount amount
  | InsufficientEscrow amount amount nat nat nat | HashMismatch
  | TreasuryMismatch string string nat | SettleBackend string | Disabled string
  | TxFailed int | TxUnconfirmed

fun sum_checked :: "amount list \<Rightarrow> amount option" where
  "sum_checked [] = Some 0"
| "sum_checked (x # xs) = Option.bind (sum_checked xs) (checked_add u128_max x)"

definition total :: "settlement_outcome \<Rightarrow> amount option" where
  "total outcome = do {
     a \<leftarrow> checked_add u128_max (amount (winner outcome)) (platform_fee outcome);
     s \<leftarrow> sum_checked (map amount (participants outcome));
     checked_add u128_max a s
   }"

definition BPS_DENOM :: amount where "BPS_DENOM = 10000"

definition required_escrow_total :: "amount \<Rightarrow> nat \<Rightarrow> nat \<Rightarrow> nat \<Rightarrow> amount" where
  "required_escrow_total bs agreeing_non_winners platform_fee_bps participation_commission_bps =
     (let fee = sat_mul u128_max bs platform_fee_bps div BPS_DENOM;
          commission_each = sat_mul u128_max bs participation_commission_bps div BPS_DENOM;
          commissions = sat_mul u128_max commission_each agreeing_non_winners
      in sat_add u128_max (sat_add u128_max bs fee) commissions)"

definition ensure_escrow_covers ::
    "amount \<Rightarrow> amount \<Rightarrow> nat \<Rightarrow> nat \<Rightarrow> nat \<Rightarrow> settle_error + amount" where
  "ensure_escrow_covers available bs agreeing_non_winners platform_fee_bps participation_commission_bps =
     (let needed = required_escrow_total bs agreeing_non_winners platform_fee_bps participation_commission_bps
      in if available < needed
         then Inl (InsufficientEscrow needed available agreeing_non_winners platform_fee_bps
                participation_commission_bps)
         else Inr needed)"

section \<open>The money rail\<close>

text \<open>An operation of a rail: the result and the new state, or a panic.\<close>

type_synonym ('s, 'a) act = "'s \<Rightarrow> ((settle_error + 'a) \<times> 's) option"

record escrow_terms =
  expected_hash :: hash32
  params_version :: nat
  candidates :: "wallet_address list"
  fee_recipient :: "wallet_address option"
  platform_fee_bps :: "nat option"
  participation_commission_bps :: "nat option"

record 's rail =
  open_escrow :: "string \<Rightarrow> amount \<Rightarrow> ('s, escrow_handle) act"
  open_escrow_with_terms :: "string \<Rightarrow> amount \<Rightarrow> escrow_terms \<Rightarrow> ('s, escrow_handle) act"
  settle :: "escrow_handle \<Rightarrow> settlement_outcome \<Rightarrow> ('s, unit) act"
  refund :: "escrow_handle \<Rightarrow> ('s, unit) act"
  is_onchain :: bool

text \<open>The default method of the trait: the terms are ignored.\<close>

definition default_open_with_terms ::
    "(string \<Rightarrow> amount \<Rightarrow> ('s, escrow_handle) act) \<Rightarrow>
     string \<Rightarrow> amount \<Rightarrow> escrow_terms \<Rightarrow> ('s, escrow_handle) act" where
  "default_open_with_terms op j b terms = op j b"

datatype settlement_event = Opened string amount | Settled string amount | Refunded string

definition escrow_address_for :: "(bytes \<Rightarrow> hash32) \<Rightarrow> string \<Rightarrow> wallet_address" where
  "escrow_address_for blake3 j = \<lparr>workchain = 0, account = blake3 (as_bytes j)\<rparr>"

definition mock_open_escrow ::
    "(bytes \<Rightarrow> hash32) \<Rightarrow> string \<Rightarrow> amount \<Rightarrow> (settlement_event list, escrow_handle) act" where
  "mock_open_escrow blake3 j b events =
     Some (Inr \<lparr>job = j, address = escrow_address_for blake3 j, max_bid = b\<rparr>, events @ [Opened j b])"

definition mock_settle ::
    "escrow_handle \<Rightarrow> settlement_outcome \<Rightarrow> (settlement_event list, unit) act" where
  "mock_settle h outcome events =
     (case total outcome of
        None \<Rightarrow> None
      | Some t \<Rightarrow>
          if max_bid h < t then Some (Inl (PayoutExceedsEscrow t (max_bid h)), events)
          else Some (Inr (), events @ [Settled (job h) t]))"

definition mock_refund :: "escrow_handle \<Rightarrow> (settlement_event list, unit) act" where
  "mock_refund h events = Some (Inr (), events @ [Refunded (job h)])"

definition mock_rail :: "(bytes \<Rightarrow> hash32) \<Rightarrow> settlement_event list rail" where
  "mock_rail blake3 = \<lparr>open_escrow = mock_open_escrow blake3,
     open_escrow_with_terms = default_open_with_terms (mock_open_escrow blake3),
     settle = mock_settle, refund = mock_refund, is_onchain = True\<rparr>"

definition noop_open_escrow :: "string \<Rightarrow> amount \<Rightarrow> (unit, escrow_handle) act" where
  "noop_open_escrow j b s =
     Some (Inr \<lparr>job = j, address = \<lparr>workchain = 0, account = replicate 32 0\<rparr>, max_bid = b\<rparr>, s)"

definition noop_rail :: "unit rail" where
  "noop_rail = \<lparr>open_escrow = noop_open_escrow,
     open_escrow_with_terms = default_open_with_terms noop_open_escrow,
     settle = (\<lambda>h outcome s. Some (Inr (), s)), refund = (\<lambda>h s. Some (Inr (), s)),
     is_onchain = False\<rparr>"

datatype payment_mode = Free | Paid

definition settle_if_paid ::
    "payment_mode \<Rightarrow> 's rail \<Rightarrow> string \<Rightarrow> amount \<Rightarrow> settlement_outcome \<Rightarrow> ('s, bool) act" where
  "settle_if_paid mode r j b outcome s =
     (if mode = Free then Some (Inr False, s)
      else do {
        (res, s) \<leftarrow> open_escrow r j b s;
        (case res of
           Inl e \<Rightarrow> Some (Inl e, s)
         | Inr h \<Rightarrow> do {
             (res, s) \<leftarrow> settle r h outcome s;
             (case res of Inl e \<Rightarrow> Some (Inl e, s) | Inr _ \<Rightarrow> Some (Inr True, s))
           })
      })"

section \<open>Stake\<close>

datatype data_class = Public | Internal | Sensitive

datatype slash_reason = WrongResult | Cheat | Downtime | Equivocation | AnchorFault | FailedCommitment

fun slash_code :: "slash_reason \<Rightarrow> u8" where
  "slash_code WrongResult = 1"
| "slash_code Cheat = 2"
| "slash_code Downtime = 3"
| "slash_code Equivocation = 4"
| "slash_code AnchorFault = 5"
| "slash_code FailedCommitment = 6"

datatype slash_error = UnknownNode string | ExceedsStake amount amount | StakeBackend string

record stake_entry =
  staked :: amount
  unbonding :: amount

record stake_state =
  stakes :: "(string, stake_entry) hmap"
  min_public :: amount
  min_internal :: amount
  min_sensitive :: amount
  stake_cap :: amount

type_synonym ('s, 'a) stake_act = "'s \<Rightarrow> ((slash_error + 'a) \<times> 's) option"

definition set_stake :: "string \<Rightarrow> amount \<Rightarrow> stake_state \<Rightarrow> stake_state" where
  "set_stake n a s =
     (let e = (case hget (stakes s) n of None \<Rightarrow> \<lparr>staked = 0, unbonding = 0\<rparr> | Some e \<Rightarrow> e)
      in s\<lparr>stakes := hput n (e\<lparr>staked := a\<rparr>) (stakes s)\<rparr>)"

fun min_for :: "stake_state \<Rightarrow> data_class \<Rightarrow> amount" where
  "min_for s Public = min_public s"
| "min_for s Internal = min_internal s"
| "min_for s Sensitive = min_sensitive s"

definition stake_of :: "stake_state \<Rightarrow> string \<Rightarrow> amount" where
  "stake_of s n = (case hget (stakes s) n of None \<Rightarrow> 0 | Some e \<Rightarrow> staked e)"

definition is_eligible :: "stake_state \<Rightarrow> string \<Rightarrow> data_class \<Rightarrow> bool" where
  "is_eligible s n c \<longleftrightarrow> min_for s c \<le> stake_of s n"

definition slash :: "string \<Rightarrow> slash_reason \<Rightarrow> amount \<Rightarrow> (stake_state, unit) stake_act" where
  "slash n reason a s =
     (case hget (stakes s) n of
        None \<Rightarrow> Some (Inl (UnknownNode n), s)
      | Some e \<Rightarrow> (case checked_add u128_max (staked e) (unbonding e) of
          None \<Rightarrow> None
        | Some slashable \<Rightarrow>
            if slashable < a then Some (Inl (ExceedsStake a slashable), s)
            else let from_staked = min a (staked e);
                     e = e\<lparr>staked := staked e - from_staked, unbonding := unbonding e - (a - from_staked)\<rparr>
                 in Some (Inr (), s\<lparr>stakes := hput n e (stakes s)\<rparr>)))"

definition request_unbond :: "string \<Rightarrow> amount \<Rightarrow> (stake_state, unit) stake_act" where
  "request_unbond n a s =
     (case hget (stakes s) n of
        None \<Rightarrow> Some (Inl (UnknownNode n), s)
      | Some e \<Rightarrow>
          if staked e < a then Some (Inl (ExceedsStake a (staked e)), s)
          else (case checked_add u128_max (unbonding e) a of
                  None \<Rightarrow> None
                | Some u \<Rightarrow> Some (Inr (),
                    s\<lparr>stakes := hput n (e\<lparr>staked := staked e - a, unbonding := u\<rparr>) (stakes s)\<rparr>)))"

text \<open>The no-op registry has no state.\<close>

definition noop_stake_of :: "unit \<Rightarrow> string \<Rightarrow> amount" where "noop_stake_of s n = 0"
definition noop_is_eligible :: "unit \<Rightarrow> string \<Rightarrow> data_class \<Rightarrow> bool" where
  "noop_is_eligible s n c \<longleftrightarrow> c = Public"
definition noop_slash :: "string \<Rightarrow> slash_reason \<Rightarrow> amount \<Rightarrow> (unit, unit) stake_act" where
  "noop_slash n reason a s = Some (Inr (), s)"
definition noop_request_unbond :: "string \<Rightarrow> amount \<Rightarrow> (unit, unit) stake_act" where
  "noop_request_unbond n a s = Some (Inr (), s)"

text \<open>Views of the states that the contracts below speak about.\<close>

definition bonded :: "stake_state \<Rightarrow> string \<Rightarrow> amount" where
  "bonded s n = (case hget (stakes s) n of None \<Rightarrow> 0 | Some e \<Rightarrow> staked e + unbonding e)"

definition stake_inv :: "stake_state \<Rightarrow> bool" where
  "stake_inv s \<longleftrightarrow> (\<forall>n. bonded s n \<le> u128_max)"

fun event_outflow :: "string \<Rightarrow> settlement_event \<Rightarrow> amount" where
  "event_outflow j (Settled k t) = (if j = k then t else 0)"
| "event_outflow j _ = 0"

definition mock_outflow :: "settlement_event list \<Rightarrow> string \<Rightarrow> amount" where
  "mock_outflow events j = sum_list (map (event_outflow j) events)"

section \<open>Arithmetic of the escrow\<close>

lemma sum_checked_eq: "sum_checked xs = (if sum_list xs \<le> u128_max then Some (sum_list xs) else None)"
  by (induction xs) (auto simp: checked_add_def)

lemma total_eq:
  "total oc = (let t = amount (winner oc) + platform_fee oc + sum_list (map amount (participants oc))
     in if t \<le> u128_max then Some t else None)"
  by (auto simp: total_def sum_checked_eq checked_add_def Let_def)

lemma required_escrow_total_mono:
  assumes "b \<le> b'" "n \<le> n'"
  shows "required_escrow_total b n f k \<le> required_escrow_total b' n' f k"
proof -
  have m: "sat_mul u128_max x y \<le> sat_mul u128_max x' y'" if "x \<le> x'" "y \<le> y'" for x y x' y'
    unfolding sat_mul_def using that by (intro min.mono mult_le_mono) simp_all
  have a: "sat_add u128_max x y \<le> sat_add u128_max x' y'" if "x \<le> x'" "y \<le> y'" for x y x' y'
    unfolding sat_add_def using that by (intro min.mono add_mono) simp_all
  show ?thesis
    unfolding required_escrow_total_def Let_def
    using assms by (intro a m div_le_mono) simp_all
qed

lemma sat_div_le: "sat_mul u128_max x y div BPS_DENOM \<le> x * y div BPS_DENOM"
  by (simp add: sat_mul_def div_le_mono)

text \<open>Below the ceiling of \<open>u128\<close> nothing saturates in the sum.\<close>

lemma required_escrow_total_exact:
  assumes "required_escrow_total b n f k < u128_max"
  shows "required_escrow_total b n f k =
    b + sat_mul u128_max b f div BPS_DENOM + (sat_mul u128_max b k div BPS_DENOM) * n"
  using assms unfolding required_escrow_total_def Let_def by (auto simp: sat_add_def sat_mul_def min_def split: if_splits)

text \<open>The fixed-price split: the largest base whose fee and commissions fit the escrow.\<close>

lemma fixed_split_fits:
  fixes b f n k :: nat
  defines "x \<equiv> b * BPS_DENOM div (BPS_DENOM + f + n * k)"
  shows "x + x * f div BPS_DENOM + n * (x * k div BPS_DENOM) \<le> b"
proof -
  have d: "y div BPS_DENOM * BPS_DENOM \<le> y" for y by simp
  have nk: "n * (x * k div BPS_DENOM) * BPS_DENOM \<le> n * (x * k)"
    using mult_le_mono2 [OF d, of n "x * k"] by (simp only: mult.assoc)
  have "(x + x * f div BPS_DENOM + n * (x * k div BPS_DENOM)) * BPS_DENOM
      = x * BPS_DENOM + x * f div BPS_DENOM * BPS_DENOM + n * (x * k div BPS_DENOM) * BPS_DENOM"
    by (simp only: distrib_right)
  also have "\<dots> \<le> x * BPS_DENOM + x * f + n * (x * k)" by (intro add_mono d nk order_refl)
  also have "\<dots> = x * (BPS_DENOM + f + n * k)" by (simp add: algebra_simps)
  also have "\<dots> \<le> b * BPS_DENOM" by (simp add: x_def BPS_DENOM_def)
  finally show ?thesis by (simp add: BPS_DENOM_def)
qed

section \<open>The contract of a money rail\<close>

text \<open>
  What a rail promises: an escrow is opened for the job and the bid asked for and moves nothing;
  a settlement moves the outcome's total, and on a rail that moves value never more than the bid;
  a failed call and a refund move nothing to the payees.
\<close>

locale settlement_rail =
  fixes r :: "'s rail"
    and outflow :: "'s \<Rightarrow> string \<Rightarrow> amount"
  assumes open_ok: "open_escrow r j b s = Some (Inr h, s') \<Longrightarrow>
      job h = j \<and> max_bid h = b \<and> outflow s' = outflow s"
    and open_terms_ok: "open_escrow_with_terms r j b terms s = Some (Inr h, s') \<Longrightarrow>
      job h = j \<and> max_bid h = b \<and> outflow s' = outflow s"
    and open_err: "open_escrow r j b s = Some (Inl e, s') \<Longrightarrow> outflow s' = outflow s"
    and open_terms_err: "open_escrow_with_terms r j b terms s = Some (Inl e, s') \<Longrightarrow> outflow s' = outflow s"
    and settle_ok: "settle r h oc s = Some (Inr u, s') \<Longrightarrow>
      outflow s' k - outflow s k \<le> max_bid h \<and> outflow s k \<le> outflow s' k \<and>
      (k \<noteq> job h \<longrightarrow> outflow s' k = outflow s k)"
    and settle_err: "settle r h oc s = Some (Inl e, s') \<Longrightarrow> outflow s' = outflow s"
    and settle_defined: "total oc = Some t \<Longrightarrow> settle r h oc s \<noteq> None"
    and refund_ok: "refund r h s = Some (res, s') \<Longrightarrow> outflow s' = outflow s"
begin

lemma free_is_inert: "settle_if_paid Free r j b oc s = Some (Inr False, s)"
  by (simp add: settle_if_paid_def)

lemma paid_bounded:
  assumes "settle_if_paid mode r j b oc s = Some (res, s')"
  shows "outflow s' k \<le> outflow s k + b \<and> (k \<noteq> j \<or> mode = Free \<longrightarrow> outflow s' k = outflow s k)"
proof (cases mode)
  case Free
  with assms show ?thesis by (simp add: settle_if_paid_def)
next
  case Paid
  with assms obtain x s1 where o: "open_escrow r j b s = Some (x, s1)"
    by (auto simp: settle_if_paid_def bind_eq_Some_conv)
  show ?thesis
  proof (cases x)
    case (Inl e)
    with assms Paid o show ?thesis using open_err by (auto simp: settle_if_paid_def)
  next
    case (Inr h)
    with o have h: "job h = j" "max_bid h = b" "outflow s1 = outflow s" using open_ok by auto
    from assms Paid o Inr obtain y where y: "settle r h oc s1 = Some (y, s')"
      by (cases "settle r h oc s1") (auto simp: settle_if_paid_def split: sum.splits)
    show ?thesis
    proof (cases y)
      case (Inl e)
      with y h show ?thesis using settle_err by fastforce
    next
      case (Inr u)
      with y h Paid settle_ok [of h oc s1 u s' k] show ?thesis by auto
    qed
  qed
qed

end

interpretation mock: settlement_rail "mock_rail blake3" mock_outflow for blake3
proof
  show "settle (mock_rail blake3) h oc s = Some (Inr u, s') \<Longrightarrow>
      mock_outflow s' k - mock_outflow s k \<le> max_bid h \<and> mock_outflow s k \<le> mock_outflow s' k \<and>
      (k \<noteq> job h \<longrightarrow> mock_outflow s' k = mock_outflow s k)" for h oc s u s' k
    by (auto simp: mock_rail_def mock_settle_def mock_outflow_def split: option.splits if_splits)
qed (auto simp: mock_rail_def mock_open_escrow_def mock_settle_def mock_refund_def mock_outflow_def
    default_open_with_terms_def split: option.splits if_splits)

interpretation noop: settlement_rail noop_rail "\<lambda>s j. 0"
  by unfold_locales (auto simp: noop_rail_def noop_open_escrow_def default_open_with_terms_def)

section \<open>The contract of a stake registry\<close>

text \<open>
  What a registry promises: a slash takes its amount from what the node has bonded, unbonding
  stake included, and touches no other node; starting to unbond changes what counts for
  eligibility but not what can be slashed; a failed call changes nothing; no call panics.
\<close>

locale stake_registry =
  fixes stake :: "'s \<Rightarrow> string \<Rightarrow> amount"
    and bond :: "'s \<Rightarrow> string \<Rightarrow> amount"
    and sl :: "string \<Rightarrow> slash_reason \<Rightarrow> amount \<Rightarrow> ('s, unit) stake_act"
    and unbond :: "string \<Rightarrow> amount \<Rightarrow> ('s, unit) stake_act"
    and inv :: "'s \<Rightarrow> bool"
  assumes stake_le: "stake s n \<le> bond s n"
    and slash_defined: "inv s \<Longrightarrow> sl n rs a s \<noteq> None"
    and slash_ok: "inv s \<Longrightarrow> sl n rs a s = Some (Inr u, s') \<Longrightarrow>
      inv s' \<and> bond s' n = bond s n - a \<and> stake s' n \<le> stake s n \<and>
      (\<forall>m. m \<noteq> n \<longrightarrow> bond s' m = bond s m \<and> stake s' m = stake s m)"
    and slash_err: "sl n rs a s = Some (Inl e, s') \<Longrightarrow> s' = s"
    and slash_enough: "inv s \<Longrightarrow> 0 < a \<Longrightarrow> a \<le> bond s n \<Longrightarrow> \<exists>s'. sl n rs a s = Some (Inr (), s')"
    and unbond_defined: "inv s \<Longrightarrow> unbond n a s \<noteq> None"
    and unbond_ok: "inv s \<Longrightarrow> unbond n a s = Some (Inr u, s') \<Longrightarrow>
      inv s' \<and> bond s' = bond s \<and> stake s' n = stake s n - a \<and>
      (\<forall>m. m \<noteq> n \<longrightarrow> stake s' m = stake s m)"
    and unbond_err: "unbond n a s = Some (Inl e, s') \<Longrightarrow> s' = s"
begin

lemma unbonding_stays_slashable:
  assumes "inv s" "unbond n a s = Some (Inr u, s')" "0 < b" "b \<le> bond s n"
  shows "\<exists>s''. sl n rs b s' = Some (Inr (), s'') \<and> bond s'' n = bond s n - b \<and>
    (\<forall>m. m \<noteq> n \<longrightarrow> bond s'' m = bond s m)"
proof -
  have u: "inv s'" "bond s' = bond s" using unbond_ok [OF assms(1,2)] by auto
  with assms(3,4) obtain s'' where "sl n rs b s' = Some (Inr (), s'')"
    using slash_enough [of s' b n rs] by auto
  with slash_ok [OF u(1) this] u(2) show ?thesis by auto
qed

text \<open>One call of either kind, and a sequence of calls with their failures ignored.\<close>

definition step :: "(string \<times> slash_reason \<times> amount) + (string \<times> amount) \<Rightarrow> 's \<Rightarrow> 's" where
  "step opn s = (case (case opn of Inl (n, rs, a) \<Rightarrow> sl n rs a s | Inr (n, a) \<Rightarrow> unbond n a s) of
     None \<Rightarrow> s | Some (_, s') \<Rightarrow> s')"

lemma step_bond: "inv s \<Longrightarrow> inv (step opn s) \<and> bond (step opn s) m \<le> bond s m"
proof -
  assume i: "inv s"
  have "inv s' \<and> bond s' m \<le> bond s m" if "sl n rs a s = Some (x, s')" for n rs a x s'
    using slash_ok [OF i, of n rs a "()" s'] slash_err [of n rs a s _ s'] that i
    by (cases x; cases "m = n") auto
  moreover have "inv s' \<and> bond s' m \<le> bond s m" if "unbond n a s = Some (x, s')" for n a x s'
    using unbond_ok [OF i, of n a "()" s'] unbond_err [of n a s _ s'] that i by (cases x) auto
  ultimately show ?thesis using i
    unfolding step_def by (cases opn) (auto split: option.split)
qed

lemma run_bond: "inv s \<Longrightarrow> inv (fold step ops s) \<and> bond (fold step ops s) m \<le> bond s m"
proof (induction ops arbitrary: s)
  case Nil
  then show ?case by simp
next
  case (Cons x ops)
  then show ?case using step_bond [of s x m] by (auto intro: order_trans)
qed

end

lemma stake_of_le_bonded: "stake_of s n \<le> bonded s n"
  by (simp add: stake_of_def bonded_def split: option.split)

lemma bonded_hput:
  "bonded (s\<lparr>stakes := hput n e (stakes s)\<rparr>) m = (if m = n then staked e + unbonding e else bonded s m)"
  "stake_of (s\<lparr>stakes := hput n e (stakes s)\<rparr>) m = (if m = n then staked e else stake_of s m)"
  by (simp_all add: bonded_def stake_of_def update_conv')

interpretation memory_stake: stake_registry stake_of bonded slash request_unbond stake_inv
proof
  fix s :: stake_state and n rs a u s'
  have sum: "stake_inv s \<Longrightarrow> hget (stakes s) n = Some e \<Longrightarrow> staked e + unbonding e \<le> u128_max" for e
    by (metis (mono_tags, lifting) bonded_def option.simps(5) stake_inv_def)
  show "stake_inv s \<Longrightarrow> slash n rs a s \<noteq> None"
    by (auto simp: slash_def checked_add_def Let_def dest: sum split: option.splits)
  show "stake_inv s \<Longrightarrow> request_unbond n a s \<noteq> None"
    by (fastforce simp: request_unbond_def checked_add_def dest: sum split: option.splits)
  show "stake_inv s \<Longrightarrow> slash n rs a s = Some (Inr u, s') \<Longrightarrow>
      stake_inv s' \<and> bonded s' n = bonded s n - a \<and> stake_of s' n \<le> stake_of s n \<and>
      (\<forall>m. m \<noteq> n \<longrightarrow> bonded s' m = bonded s m \<and> stake_of s' m = stake_of s m)"
    by (auto simp: slash_def checked_add_def Let_def stake_inv_def bonded_hput split: option.splits if_splits)
      (auto simp: bonded_def stake_of_def split: option.splits)
  show "stake_inv s \<Longrightarrow> request_unbond n a s = Some (Inr u, s') \<Longrightarrow>
      stake_inv s' \<and> bonded s' = bonded s \<and> stake_of s' n = stake_of s n - a \<and>
      (\<forall>m. m \<noteq> n \<longrightarrow> stake_of s' m = stake_of s m)"
    by (auto simp: request_unbond_def checked_add_def stake_inv_def bonded_hput fun_eq_iff split: option.splits if_splits)
      (auto simp: bonded_def stake_of_def split: option.splits)
  show "stake_inv s \<Longrightarrow> 0 < a \<Longrightarrow> a \<le> bonded s n \<Longrightarrow> \<exists>s'. slash n rs a s = Some (Inr (), s')"
    by (auto simp: slash_def checked_add_def Let_def bonded_def dest: sum split: option.splits)
qed (auto simp: stake_of_le_bonded slash_def request_unbond_def Let_def split: option.splits if_splits)

interpretation noop_stake: stake_registry noop_stake_of noop_stake_of noop_slash noop_request_unbond "\<lambda>_. True"
  by unfold_locales (auto simp: noop_stake_of_def noop_slash_def noop_request_unbond_def)

section \<open>Properties\<close>

text \<open>
  once the coverage guard accepts, every settlement it was asked for can be paid: a winner paid
  at most the base, the fee at its rate and at most \<open>n\<close> participants at most the commission at its
  rate add up, without overflow, to at most what is available.
\<close>

theorem escrow_guard_covers:
  assumes "ensure_escrow_covers available b n f k = Inr needed" "available < u128_max"
    and "amount (winner oc) \<le> b" "platform_fee oc \<le> sat_mul u128_max b f div BPS_DENOM"
    and "length (participants oc) \<le> n"
    and "\<forall>p\<in>set (participants oc). amount p \<le> sat_mul u128_max b k div BPS_DENOM"
  shows "\<exists>t. total oc = Some t \<and> t \<le> needed \<and> needed \<le> available"
proof -
  let ?c = "sat_mul u128_max b k div BPS_DENOM"
  from assms(1) have needed: "needed = required_escrow_total b n f k" "needed \<le> available"
    by (auto simp: ensure_escrow_covers_def Let_def split: if_splits)
  with assms(2) have ex: "needed = b + sat_mul u128_max b f div BPS_DENOM + ?c * n"
    using required_escrow_total_exact [of b n f k] by simp
  have "sum_list (map amount (participants oc)) \<le> length (participants oc) * ?c"
    using assms(6) sum_list_mono [of "participants oc" amount "\<lambda>_. ?c"] by (simp add: sum_list_triv)
  also have "\<dots> \<le> ?c * n" using assms(5) by (simp add: mult.commute)
  finally have "amount (winner oc) + platform_fee oc + sum_list (map amount (participants oc)) \<le> needed"
    using assms(3,4) ex by linarith
  with needed(2) assms(2) show ?thesis by (simp add: total_eq Let_def)
qed

definition example_outcome :: settlement_outcome where
  "example_outcome = (let w = \<lparr>workchain = 0, account = replicate 32 1\<rparr> in
     \<lparr>out_result_hash = replicate 32 9, base = 1000, winner = \<lparr>to = w, amount = 1000\<rparr>,
      participants = [\<lparr>to = w, amount = 50\<rparr>], platform_fee = 20\<rparr>)"

theorem escrow_guard_covers_witness:
  "\<exists>t. total example_outcome = Some t \<and> t \<le> 1070 \<and> 1070 \<le> (2000 :: nat)"
proof (rule escrow_guard_covers)
  show "ensure_escrow_covers 2000 1000 1 200 500 = Inr 1070"
    by (simp add: ensure_escrow_covers_def required_escrow_total_def sat_mul_def sat_add_def
        u128_max_def BPS_DENOM_def Let_def)
qed (simp_all add: example_outcome_def sat_mul_def u128_max_def BPS_DENOM_def Let_def)

text \<open>
  a free job leaves the rail untouched, and a paid one moves at most its bid, for its own job
  only, whether the calls succeed or fail. Stated for the in-memory rail; any rail that keeps the
  contract gives the same.
\<close>

theorem settle_if_paid_bounded:
  "settle_if_paid Free (mock_rail blake3) j b oc s = Some (Inr False, s) \<and>
   (case settle_if_paid Paid (mock_rail blake3) j b oc s of
      None \<Rightarrow> total oc = None
    | Some (res, s') \<Rightarrow> mock_outflow s' j \<le> mock_outflow s j + b \<and>
        (k = j \<or> mock_outflow s' k = mock_outflow s k))"
proof (intro conjI)
  show "settle_if_paid Free (mock_rail blake3) j b oc s = Some (Inr False, s)"
    by (rule mock.free_is_inert)
  show "case settle_if_paid Paid (mock_rail blake3) j b oc s of
      None \<Rightarrow> total oc = None
    | Some (res, s') \<Rightarrow> mock_outflow s' j \<le> mock_outflow s j + b \<and>
        (k = j \<or> mock_outflow s' k = mock_outflow s k)"
  proof (cases "settle_if_paid Paid (mock_rail blake3) j b oc s")
    case None
    then have "total oc = None"
      by (auto simp: settle_if_paid_def mock_rail_def mock_open_escrow_def mock_settle_def
          split: option.splits if_splits)
    with None show ?thesis by simp
  next
    case (Some x)
    then show ?thesis
      using mock.paid_bounded [of Paid blake3 j b oc s "fst x" "snd x" j]
        mock.paid_bounded [of Paid blake3 j b oc s "fst x" "snd x" k] by (cases x) auto
  qed
qed

text \<open>
  stake on its way out can still be slashed. After an unbonding request has been accepted, a
  slash of anything the node had bonded before still succeeds and takes exactly its amount, from
  that node only.
\<close>

theorem unbonding_does_not_escape_slashing:
  assumes "stake_inv s" "request_unbond n a s = Some (Inr (), s')" "0 < b" "b \<le> bonded s n"
  shows "\<exists>s''. slash n rs b s' = Some (Inr (), s'') \<and> bonded s'' n = bonded s n - b \<and>
    (\<forall>m. m \<noteq> n \<longrightarrow> bonded s'' m = bonded s m)"
  using assms by (rule memory_stake.unbonding_stays_slashable)

definition example_stakes :: stake_state where
  "example_stakes = set_stake ''a'' 100 (set_stake ''b'' 7
     \<lparr>stakes = [], min_public = 0, min_internal = 10, min_sensitive = 50, stake_cap = 1000\<rparr>)"

theorem unbonding_does_not_escape_slashing_witness:
  "\<exists>s' s''. request_unbond ''a'' 60 example_stakes = Some (Inr (), s') \<and>
    slash ''a'' Cheat 90 s' = Some (Inr (), s'') \<and> bonded s'' ''a'' = 10 \<and> bonded s'' ''b'' = 7"
proof -
  obtain s' where u: "request_unbond ''a'' 60 example_stakes = Some (Inr (), s')"
    by (simp add: request_unbond_def example_stakes_def set_stake_def checked_add_def u128_max_def)
  have b: "bonded example_stakes ''a'' = 100" "bonded example_stakes ''b'' = 7"
    by (simp_all add: bonded_def example_stakes_def set_stake_def)
  have "stake_inv example_stakes"
    by (simp add: stake_inv_def bonded_def example_stakes_def set_stake_def u128_max_def)
  from unbonding_does_not_escape_slashing [OF this u, of 90 Cheat] u b show ?thesis by auto
qed

end
