(* ===== verification/Governor.thy ===== *)
theory Governor
  imports Settlement Complex_Main
begin

text \<open>
  The process-wide capacity governor (\<open>crates/node/src/governor.rs\<close>) and the admission controller
  layered on it (\<open>crates/node/src/admission.rs\<close>). First each reservation and each release as one
  step, with the locale \<open>lease_pool\<close> for what both components promise; then the governor's
  atomics one memory operation at a time, under any interleaving of any number of threads.
  Counters are naturals; \<open>fetch_sub\<close> wraps as the machine does.
\<close>

section \<open>The governor\<close>

datatype role = Local | Served

record budget_config =
  memory_bytes :: nat
  threads :: nat
  per_job_memory_bytes :: nat
  budget_max_jobs :: nat
  budget_data_classes :: "data_class list"

record governor =
  memory_total :: nat
  threads_total :: nat
  served_memory_ceiling :: nat
  used_memory :: nat
  used_threads :: nat
  served_memory :: nat
  job_slots :: nat
  max_jobs :: nat

definition governor_new :: "budget_config \<Rightarrow> nat \<Rightarrow> real \<Rightarrow> bool \<Rightarrow> governor" where
  "governor_new budget max_concurrent_jobs local_reserved_fraction local_active =
     (let fraction = (if local_active then max 0 (min 1 local_reserved_fraction) else 0);
          per_job_floor = min (per_job_memory_bytes budget) (memory_bytes budget);
          ceiling = max (nat \<lfloor>real (memory_bytes budget) * (1 - fraction)\<rfloor>) per_job_floor;
          jobs = max max_concurrent_jobs 1
      in \<lparr>memory_total = memory_bytes budget, threads_total = threads budget,
          served_memory_ceiling = ceiling, used_memory = 0, used_threads = 0, served_memory = 0,
          job_slots = jobs, max_jobs = jobs\<rparr>)"

definition free_memory :: "governor \<Rightarrow> nat" where
  "free_memory g = memory_total g - used_memory g"

definition free_threads :: "governor \<Rightarrow> nat" where
  "free_threads g = threads_total g - used_threads g"

text \<open>\<open>fetch_sub\<close> on a counter of the given width.\<close>

definition fetch_sub :: "nat \<Rightarrow> nat \<Rightarrow> nat \<Rightarrow> nat" where
  "fetch_sub width a b = (a + 2 ^ width - b) mod 2 ^ width"

record lease =
  lease_role :: role
  lease_memory :: nat
  lease_threads :: nat

definition rollback_memory :: "role \<Rightarrow> nat \<Rightarrow> governor \<Rightarrow> governor" where
  "rollback_memory r m g =
     (let g = g\<lparr>used_memory := fetch_sub 64 (used_memory g) m\<rparr>
      in if r = Served then g\<lparr>served_memory := fetch_sub 64 (served_memory g) m\<rparr> else g)"

text \<open>
  \<open>try_reserve\<close> run without interference: the slot, the shared memory, the served ceiling, the
  threads, each rolled back when a later one refuses.
\<close>

definition try_reserve :: "role \<Rightarrow> nat \<Rightarrow> nat \<Rightarrow> governor \<Rightarrow> lease option \<times> governor" where
  "try_reserve r m t g =
     (if job_slots g = 0 then (None, g)
      else case checked_add u64_max (used_memory g) m of
        None \<Rightarrow> (None, g)
      | Some next \<Rightarrow>
          if memory_total g < next then (None, g)
          else let g1 = g\<lparr>job_slots := job_slots g - 1, used_memory := next\<rparr>;
                   unslot = (\<lambda>g. g\<lparr>job_slots := job_slots g + 1\<rparr>) in
          let served = (if r = Served then
                 (case checked_add u64_max (served_memory g1) m of
                    None \<Rightarrow> None
                  | Some n \<Rightarrow> if n \<le> served_memory_ceiling g1 then Some (g1\<lparr>served_memory := n\<rparr>) else None)
               else Some g1) in
          (case served of
             None \<Rightarrow> (None, unslot (g1\<lparr>used_memory := fetch_sub 64 (used_memory g1) m\<rparr>))
           | Some g2 \<Rightarrow> (case checked_add u32_max (used_threads g2) t of
               None \<Rightarrow> (None, unslot (rollback_memory r m g2))
             | Some n \<Rightarrow>
                 if n \<le> threads_total g2
                 then (Some \<lparr>lease_role = r, lease_memory = m, lease_threads = t\<rparr>, g2\<lparr>used_threads := n\<rparr>)
                 else (None, unslot (rollback_memory r m g2)))))"

definition drop_lease :: "lease \<Rightarrow> governor \<Rightarrow> governor" where
  "drop_lease l g =
     (let g = rollback_memory (lease_role l) (lease_memory l) g
      in g\<lparr>used_threads := fetch_sub 32 (used_threads g) (lease_threads l), job_slots := job_slots g + 1\<rparr>)"

section \<open>Admission\<close>

record admission =
  adm_memory_bytes :: nat
  adm_threads :: nat
  adm_data_classes :: "data_class list"
  adm_used_memory :: nat
  adm_used_threads :: nat
  adm_job_slots :: nat
  adm_max_jobs :: nat
  adm_governor :: "governor option"

definition admission_build :: "budget_config \<Rightarrow> governor option \<Rightarrow> admission" where
  "admission_build budget g = \<lparr>adm_memory_bytes = memory_bytes budget, adm_threads = threads budget,
     adm_data_classes = budget_data_classes budget, adm_used_memory = 0, adm_used_threads = 0, adm_job_slots = budget_max_jobs budget,
     adm_max_jobs = budget_max_jobs budget, adm_governor = g\<rparr>"

text \<open>The data class of a job (\<open>p2p_proto::DataClass\<close>), translated to the configuration's.\<close>

datatype job_class = JobPublic | JobInternal | JobSensitive

fun class_cfg :: "job_class \<Rightarrow> data_class" where
  "class_cfg JobPublic = Public"
| "class_cfg JobInternal = Internal"
| "class_cfg JobSensitive = Sensitive"

definition serves_data_class :: "job_class \<Rightarrow> admission \<Rightarrow> bool" where
  "serves_data_class dc a = (class_cfg dc \<in> set (adm_data_classes a))"

record adm_lease =
  al_memory :: nat
  al_threads :: nat
  al_governor_lease :: "lease option"

record free_resources =
  fr_memory_bytes :: nat
  fr_threads :: nat
  fr_free_jobs :: nat

definition free :: "admission \<Rightarrow> free_resources" where
  "free a = \<lparr>fr_memory_bytes = adm_memory_bytes a - adm_used_memory a,
     fr_threads = adm_threads a - adm_used_threads a, fr_free_jobs = adm_job_slots a\<rparr>"

definition try_admit :: "nat \<Rightarrow> nat \<Rightarrow> admission \<Rightarrow> adm_lease option \<times> admission" where
  "try_admit m t a =
     (if adm_job_slots a = 0 then (None, a)
      else case checked_add u64_max (adm_used_memory a) m of
        None \<Rightarrow> (None, a)
      | Some next \<Rightarrow>
          if adm_memory_bytes a < next then (None, a)
          else let a1 = a\<lparr>adm_job_slots := adm_job_slots a - 1, adm_used_memory := next\<rparr>;
                   undo_mem = (\<lambda>a. a\<lparr>adm_used_memory := fetch_sub 64 (adm_used_memory a) m,
                                      adm_job_slots := adm_job_slots a + 1\<rparr>) in
          (case checked_add u32_max (adm_used_threads a1) t of
             None \<Rightarrow> (None, undo_mem a1)
           | Some n \<Rightarrow>
               if adm_threads a1 < n then (None, undo_mem a1)
               else let a2 = a1\<lparr>adm_used_threads := n\<rparr> in
               (case adm_governor a2 of
                  None \<Rightarrow> (Some \<lparr>al_memory = m, al_threads = t, al_governor_lease = None\<rparr>, a2)
                | Some g \<Rightarrow> (case try_reserve Served m t g of
                    (Some l, g') \<Rightarrow> (Some \<lparr>al_memory = m, al_threads = t, al_governor_lease = Some l\<rparr>,
                                    a2\<lparr>adm_governor := Some g'\<rparr>)
                  | (None, g') \<Rightarrow> (None, undo_mem (a2\<lparr>adm_governor := Some g',
                                    adm_used_threads := fetch_sub 32 (adm_used_threads a2) t\<rparr>))))))"

definition drop_adm_lease :: "adm_lease \<Rightarrow> admission \<Rightarrow> admission" where
  "drop_adm_lease l a =
     a\<lparr>adm_used_memory := fetch_sub 64 (adm_used_memory a) (al_memory l),
       adm_used_threads := fetch_sub 32 (adm_used_threads a) (al_threads l),
       adm_job_slots := adm_job_slots a + 1,
       adm_governor := (case al_governor_lease l of
          None \<Rightarrow> adm_governor a | Some gl \<Rightarrow> map_option (drop_lease gl) (adm_governor a))\<rparr>"

definition example_budget :: budget_config where
  "example_budget = \<lparr>memory_bytes = 1000, threads = 8, per_job_memory_bytes = 300, budget_max_jobs = 4,
     budget_data_classes = [Public]\<rparr>"

section \<open>The governor under concurrency\<close>

text \<open>
  Where a thread is inside \<open>try_reserve\<close> or inside the release of a lease. A \<open>Cas\<close> state carries
  the value last observed; the weak compare-exchange may fail even when nothing changed.
\<close>

datatype pc = Idle
  | LoadMem role nat nat | CasMem role nat nat nat
  | LoadServed nat nat | CasServed nat nat nat | UndoServed nat
  | LoadThreads role nat nat | CasThreads role nat nat nat
  | UndoMem role nat | UndoMemServed nat | ReleasePermit
  | Held role nat nat
  | DropServed nat nat | DropThreads nat

type_synonym gov_conf = "governor \<times> pc list"

inductive gov_step :: "gov_conf \<Rightarrow> gov_conf \<Rightarrow> bool" where
  spawn: "gov_step (g, ps) (g, ps @ [Idle])"
| acquire: "i < length ps \<Longrightarrow> ps ! i = Idle \<Longrightarrow> 0 < job_slots g \<Longrightarrow>
    gov_step (g, ps) (g\<lparr>job_slots := job_slots g - 1\<rparr>, ps[i := LoadMem r m t])"
| load_mem: "i < length ps \<Longrightarrow> ps ! i = LoadMem r m t \<Longrightarrow>
    gov_step (g, ps) (g, ps[i := CasMem r m t (used_memory g)])"
| mem_refused: "i < length ps \<Longrightarrow> ps ! i = CasMem r m t cur \<Longrightarrow> u64_max < cur + m \<or> memory_total g < cur + m \<Longrightarrow>
    gov_step (g, ps) (g, ps[i := ReleasePermit])"
| mem_cas: "i < length ps \<Longrightarrow> ps ! i = CasMem r m t cur \<Longrightarrow> cur + m \<le> u64_max \<Longrightarrow> cur + m \<le> memory_total g \<Longrightarrow>
    used_memory g = cur \<Longrightarrow>
    gov_step (g, ps) (g\<lparr>used_memory := cur + m\<rparr>,
      ps[i := if r = Served then LoadServed m t else LoadThreads r m t])"
| mem_retry: "i < length ps \<Longrightarrow> ps ! i = CasMem r m t cur \<Longrightarrow>
    gov_step (g, ps) (g, ps[i := CasMem r m t (used_memory g)])"
| load_served: "i < length ps \<Longrightarrow> ps ! i = LoadServed m t \<Longrightarrow>
    gov_step (g, ps) (g, ps[i := CasServed m t (served_memory g)])"
| served_refused: "i < length ps \<Longrightarrow> ps ! i = CasServed m t cur \<Longrightarrow>
    u64_max < cur + m \<or> served_memory_ceiling g < cur + m \<Longrightarrow>
    gov_step (g, ps) (g, ps[i := UndoServed m])"
| served_cas: "i < length ps \<Longrightarrow> ps ! i = CasServed m t cur \<Longrightarrow> cur + m \<le> u64_max \<Longrightarrow>
    cur + m \<le> served_memory_ceiling g \<Longrightarrow> served_memory g = cur \<Longrightarrow>
    gov_step (g, ps) (g\<lparr>served_memory := cur + m\<rparr>, ps[i := LoadThreads Served m t])"
| served_retry: "i < length ps \<Longrightarrow> ps ! i = CasServed m t cur \<Longrightarrow>
    gov_step (g, ps) (g, ps[i := CasServed m t (served_memory g)])"
| undo_served: "i < length ps \<Longrightarrow> ps ! i = UndoServed m \<Longrightarrow>
    gov_step (g, ps) (g\<lparr>used_memory := fetch_sub 64 (used_memory g) m\<rparr>, ps[i := ReleasePermit])"
| load_threads: "i < length ps \<Longrightarrow> ps ! i = LoadThreads r m t \<Longrightarrow>
    gov_step (g, ps) (g, ps[i := CasThreads r m t (used_threads g)])"
| threads_refused: "i < length ps \<Longrightarrow> ps ! i = CasThreads r m t cur \<Longrightarrow>
    u32_max < cur + t \<or> threads_total g < cur + t \<Longrightarrow>
    gov_step (g, ps) (g, ps[i := UndoMem r m])"
| threads_cas: "i < length ps \<Longrightarrow> ps ! i = CasThreads r m t cur \<Longrightarrow> cur + t \<le> u32_max \<Longrightarrow>
    cur + t \<le> threads_total g \<Longrightarrow> used_threads g = cur \<Longrightarrow>
    gov_step (g, ps) (g\<lparr>used_threads := cur + t\<rparr>, ps[i := Held r m t])"
| threads_retry: "i < length ps \<Longrightarrow> ps ! i = CasThreads r m t cur \<Longrightarrow>
    gov_step (g, ps) (g, ps[i := CasThreads r m t (used_threads g)])"
| undo_mem: "i < length ps \<Longrightarrow> ps ! i = UndoMem r m \<Longrightarrow>
    gov_step (g, ps) (g\<lparr>used_memory := fetch_sub 64 (used_memory g) m\<rparr>,
      ps[i := if r = Served then UndoMemServed m else ReleasePermit])"
| undo_mem_served: "i < length ps \<Longrightarrow> ps ! i = UndoMemServed m \<Longrightarrow>
    gov_step (g, ps) (g\<lparr>served_memory := fetch_sub 64 (served_memory g) m\<rparr>, ps[i := ReleasePermit])"
| release: "i < length ps \<Longrightarrow> ps ! i = ReleasePermit \<Longrightarrow>
    gov_step (g, ps) (g\<lparr>job_slots := job_slots g + 1\<rparr>, ps[i := Idle])"
| drop_mem: "i < length ps \<Longrightarrow> ps ! i = Held r m t \<Longrightarrow>
    gov_step (g, ps) (g\<lparr>used_memory := fetch_sub 64 (used_memory g) m\<rparr>,
      ps[i := if r = Served then DropServed m t else DropThreads t])"
| drop_served: "i < length ps \<Longrightarrow> ps ! i = DropServed m t \<Longrightarrow>
    gov_step (g, ps) (g\<lparr>served_memory := fetch_sub 64 (served_memory g) m\<rparr>, ps[i := DropThreads t])"
| drop_threads: "i < length ps \<Longrightarrow> ps ! i = DropThreads t \<Longrightarrow>
    gov_step (g, ps) (g\<lparr>used_threads := fetch_sub 32 (used_threads g) t\<rparr>, ps[i := ReleasePermit])"

text \<open>What a thread accounts for in each counter, at each point.\<close>

fun memC :: "pc \<Rightarrow> nat" where
  "memC (LoadServed m t) = m"
| "memC (CasServed m t c) = m"
| "memC (UndoServed m) = m"
| "memC (LoadThreads r m t) = m"
| "memC (CasThreads r m t c) = m"
| "memC (UndoMem r m) = m"
| "memC (Held r m t) = m"
| "memC _ = 0"

fun servedC :: "pc \<Rightarrow> nat" where
  "servedC (LoadThreads r m t) = (if r = Served then m else 0)"
| "servedC (CasThreads r m t c) = (if r = Served then m else 0)"
| "servedC (UndoMem r m) = (if r = Served then m else 0)"
| "servedC (UndoMemServed m) = m"
| "servedC (Held r m t) = (if r = Served then m else 0)"
| "servedC (DropServed m t) = m"
| "servedC _ = 0"

fun thrC :: "pc \<Rightarrow> nat" where
  "thrC (Held r m t) = t"
| "thrC (DropServed m t) = t"
| "thrC (DropThreads t) = t"
| "thrC _ = 0"

fun slotC :: "pc \<Rightarrow> nat" where
  "slotC Idle = 0"
| "slotC _ = 1"

definition tot :: "(pc \<Rightarrow> nat) \<Rightarrow> pc list \<Rightarrow> nat" where
  "tot f ps = sum_list (map f ps)"

definition gov_inv :: "gov_conf \<Rightarrow> bool" where
  "gov_inv c \<longleftrightarrow> (case c of (g, ps) \<Rightarrow>
     used_memory g = tot memC ps \<and> tot memC ps \<le> memory_total g \<and> memory_total g \<le> u64_max \<and>
     served_memory g = tot servedC ps \<and> tot servedC ps \<le> served_memory_ceiling g \<and>
     served_memory_ceiling g \<le> u64_max \<and>
     used_threads g = tot thrC ps \<and> tot thrC ps \<le> threads_total g \<and> threads_total g \<le> u32_max \<and>
     job_slots g + tot slotC ps = max_jobs g)"

text \<open>What the leases handed out hold.\<close>

fun heldM :: "pc \<Rightarrow> nat" where
  "heldM (Held r m t) = m"
| "heldM _ = 0"

fun heldS :: "pc \<Rightarrow> nat" where
  "heldS (Held Served m t) = m"
| "heldS _ = 0"

fun heldT :: "pc \<Rightarrow> nat" where
  "heldT (Held r m t) = t"
| "heldT _ = 0"

fun heldJ :: "pc \<Rightarrow> nat" where
  "heldJ (Held r m t) = 1"
| "heldJ _ = 0"

section \<open>The invariant of the counters\<close>

lemma fetch_sub_exact: "b \<le> a \<Longrightarrow> a < 2 ^ w \<Longrightarrow> fetch_sub w a b = a - b"
proof -
  assume "b \<le> a" "a < 2 ^ w"
  then have "fetch_sub w a b = ((a - b) + 2 ^ w) mod 2 ^ w" by (simp add: fetch_sub_def)
  with \<open>a < 2 ^ w\<close> show ?thesis by (simp add: less_imp_diff_less)
qed

lemma tot_append [simp]: "tot f (ps @ qs) = tot f ps + tot f qs"
  and tot_simps [simp]: "tot f [] = 0" "tot f (p # ps) = f p + tot f ps"
  by (simp_all add: tot_def)

lemma tot_nth: "i < length ps \<Longrightarrow> f (ps ! i) \<le> tot f ps"
  unfolding tot_def by (rule member_le_sum_list) simp_all

lemma tot_update: "i < length ps \<Longrightarrow> tot f (ps[i := p]) + f (ps ! i) = tot f ps + f p"
proof -
  assume i: "i < length ps"
  then have "tot f (ps[i := p]) = tot f ps + f p - f (ps ! i)"
    unfolding tot_def by (simp add: map_update sum_list_update)
  with tot_nth [OF i, of f] show ?thesis by simp
qed

lemma tot_mono: "(\<And>p. f p \<le> h p) \<Longrightarrow> tot f ps \<le> tot h ps"
  by (simp add: tot_def sum_list_mono)

text \<open>
  One thread moves: the invariant is kept when every counter changes by the difference of what
  the thread accounts for, and stays under its cap.
\<close>

lemma gov_inv_move:
  assumes "gov_inv (g, ps)" "i < length ps"
    and "memory_total g' = memory_total g" "served_memory_ceiling g' = served_memory_ceiling g"
    and "threads_total g' = threads_total g" "max_jobs g' = max_jobs g"
    and "used_memory g' + memC (ps ! i) = used_memory g + memC q" "used_memory g' \<le> memory_total g"
    and "served_memory g' + servedC (ps ! i) = served_memory g + servedC q"
    and "served_memory g' \<le> served_memory_ceiling g"
    and "used_threads g' + thrC (ps ! i) = used_threads g + thrC q" "used_threads g' \<le> threads_total g"
    and "job_slots g' + slotC q = job_slots g + slotC (ps ! i)"
  shows "gov_inv (g', ps[i := q])"
proof -
  note u = tot_update [OF assms(2), of _ q]
  have "tot memC (ps[i := q]) = used_memory g'" "tot servedC (ps[i := q]) = served_memory g'"
    "tot thrC (ps[i := q]) = used_threads g'" "job_slots g' + tot slotC (ps[i := q]) = max_jobs g"
    using u [of memC] u [of servedC] u [of thrC] u [of slotC] assms(1,7-)
    by (simp_all add: gov_inv_def)
  with assms show ?thesis by (simp add: gov_inv_def)
qed

lemma gov_inv_bounds:
  assumes "gov_inv (g, ps)" "i < length ps"
  shows "memC (ps ! i) \<le> used_memory g \<and> used_memory g \<le> memory_total g \<and> used_memory g < 2 ^ 64 \<and>
    servedC (ps ! i) \<le> served_memory g \<and> served_memory g \<le> served_memory_ceiling g \<and> served_memory g < 2 ^ 64 \<and>
    thrC (ps ! i) \<le> used_threads g \<and> used_threads g \<le> threads_total g \<and> used_threads g < 2 ^ 32"
  using assms tot_nth [OF assms(2), of memC] tot_nth [OF assms(2), of servedC] tot_nth [OF assms(2), of thrC]
  by (auto simp: gov_inv_def u64_max_def u32_max_def)

lemma gov_step_inv:
  assumes "gov_step c c'" "gov_inv c"
  shows "gov_inv c'"
  using assms
proof (induction rule: gov_step.induct)
  case (spawn g ps)
  then show ?case by (simp add: gov_inv_def)
qed (frule (1) gov_inv_bounds, erule (1) gov_inv_move; auto simp: fetch_sub_exact)+

section \<open>Leases\<close>

text \<open>
  What a pool promises its clients, in terms of the leases outstanding: a refused request changes
  nothing, a granted one adds its lease, a release removes it, the outstanding leases never cost
  more than the caps, and the leases determine the state.
\<close>

text \<open>A run of a pool: requests, and releases of a lease that is outstanding.\<close>

fun lease_run :: "('q \<Rightarrow> 's \<Rightarrow> 'l option \<times> 's) \<Rightarrow> ('l \<Rightarrow> 's \<Rightarrow> 's) \<Rightarrow> ('q + 'l) list \<Rightarrow>
    's \<times> 'l multiset \<Rightarrow> 's \<times> 'l multiset" where
  "lease_run reserve release [] c = c"
| "lease_run reserve release (Inl q # es) (s, L) =
     (case reserve q s of
        (None, s') \<Rightarrow> lease_run reserve release es (s', L)
      | (Some l, s') \<Rightarrow> lease_run reserve release es (s', add_mset l L))"
| "lease_run reserve release (Inr l # es) (s, L) =
     (if l \<in># L then lease_run reserve release es (release l s, L - {#l#})
      else lease_run reserve release es (s, L))"

locale lease_pool =
  fixes reserve :: "'q \<Rightarrow> 's \<Rightarrow> 'l option \<times> 's"
    and release :: "'l \<Rightarrow> 's \<Rightarrow> 's"
    and acct :: "'s \<Rightarrow> 'l multiset \<Rightarrow> bool"
    and config :: "'s \<Rightarrow> 'c"
    and cost :: "'l \<Rightarrow> nat"
    and cap :: "'c \<Rightarrow> nat"
  assumes refused: "acct s L \<Longrightarrow> reserve q s = (None, s') \<Longrightarrow> s' = s"
    and granted: "acct s L \<Longrightarrow> reserve q s = (Some l, s') \<Longrightarrow> acct s' (add_mset l L) \<and> config s' = config s"
    and released: "acct s L \<Longrightarrow> l \<in># L \<Longrightarrow> acct (release l s) (L - {#l#}) \<and> config (release l s) = config s"
    and within: "acct s L \<Longrightarrow> (\<Sum>l\<in>#L. cost l) \<le> cap (config s)"
    and determined: "acct s L \<Longrightarrow> acct s' L \<Longrightarrow> config s = config s' \<Longrightarrow> s = s'"
begin

lemma run_acct:
  "acct s L \<Longrightarrow> lease_run reserve release es (s, L) = (s', L') \<Longrightarrow> acct s' L' \<and> config s' = config s"
proof (induction es arbitrary: s L)
  case Nil
  then show ?case by simp
next
  case (Cons e es)
  show ?case
  proof (cases e)
    case (Inl q)
    obtain x s1 where r: "reserve q s = (x, s1)" by (cases "reserve q s")
    show ?thesis
    proof (cases x)
      case None
      with r refused [OF Cons.prems(1)] have "s1 = s" by blast
      with Cons.prems Inl r None have "lease_run reserve release es (s, L) = (s', L')" by simp
      then show ?thesis by (rule Cons.IH [OF Cons.prems(1)])
    next
      case (Some l)
      with r granted [OF Cons.prems(1)] have g: "acct s1 (add_mset l L)" "config s1 = config s" by blast+
      with Cons.prems Inl r Some have "lease_run reserve release es (s1, add_mset l L) = (s', L')" by simp
      from Cons.IH [OF g(1) this] g(2) show ?thesis by simp
    qed
  next
    case (Inr l)
    show ?thesis
    proof (cases "l \<in># L")
      case True
      with Cons.prems Inr have "lease_run reserve release es (release l s, L - {#l#}) = (s', L')" by simp
      with released [OF Cons.prems(1) True] Cons.IH show ?thesis by metis
    next
      case False
      with Cons.prems Inr have "lease_run reserve release es (s, L) = (s', L')" by simp
      then show ?thesis by (rule Cons.IH [OF Cons.prems(1)])
    qed
  qed
qed

lemma run_within: "acct s L \<Longrightarrow> lease_run reserve release es (s, L) = (s', L') \<Longrightarrow> (\<Sum>l\<in>#L'. cost l) \<le> cap (config s)"
  using run_acct within by metis

lemma run_restores: "acct s L \<Longrightarrow> lease_run reserve release es (s, L) = (s', L) \<Longrightarrow> s' = s"
  using run_acct determined by metis

end

text \<open>Accounting of the governor by its leases.\<close>

definition served_part :: "lease \<Rightarrow> nat" where
  "served_part l = (if lease_role l = Served then lease_memory l else 0)"

definition gov_acct :: "governor \<Rightarrow> lease multiset \<Rightarrow> bool" where
  "gov_acct g L \<longleftrightarrow>
     used_memory g = (\<Sum>l\<in>#L. lease_memory l) \<and> used_memory g \<le> memory_total g \<and> memory_total g \<le> u64_max \<and>
     served_memory g = (\<Sum>l\<in>#L. served_part l) \<and> served_memory g \<le> served_memory_ceiling g \<and>
     served_memory_ceiling g \<le> u64_max \<and>
     used_threads g = (\<Sum>l\<in>#L. lease_threads l) \<and> used_threads g \<le> threads_total g \<and>
     threads_total g \<le> u32_max \<and> job_slots g + size L = max_jobs g"

definition gov_config :: "governor \<Rightarrow> nat \<times> nat \<times> nat \<times> nat" where
  "gov_config g = (memory_total g, served_memory_ceiling g, threads_total g, max_jobs g)"

lemma gov_acct_lt:
  "gov_acct g L \<Longrightarrow> used_memory g < 2 ^ 64 \<and> served_memory g < 2 ^ 64 \<and> used_threads g < 2 ^ 32"
  by (auto simp: gov_acct_def u64_max_def u32_max_def)

lemma rollback_exact:
  assumes "m \<le> used_memory g" "used_memory g < 2 ^ 64" "r = Served \<longrightarrow> m \<le> served_memory g" "served_memory g < 2 ^ 64"
  shows "rollback_memory r m g = g\<lparr>used_memory := used_memory g - m,
    served_memory := (if r = Served then served_memory g - m else served_memory g)\<rparr>"
  using assms by (auto simp: rollback_memory_def fetch_sub_exact Let_def)

lemma try_reserve_None:
  assumes "gov_acct g L" "try_reserve r m t g = (None, g')"
  shows "g' = g"
proof -
  have b: "used_memory g < 2 ^ 64" "served_memory g < 2 ^ 64" "memory_total g < 2 ^ 64" "served_memory_ceiling g < 2 ^ 64"
    using assms(1) gov_acct_lt [OF assms(1)] by (auto simp: gov_acct_def u64_max_def)
  from assms(2) b show ?thesis
    by (auto simp: try_reserve_def checked_add_def Let_def rollback_exact fetch_sub_exact
        split: if_splits option.splits)
qed

lemma try_reserve_Some:
  assumes "try_reserve r m t g = (Some l, g')"
  shows "l = \<lparr>lease_role = r, lease_memory = m, lease_threads = t\<rparr> \<and> 0 < job_slots g \<and>
    used_memory g + m \<le> memory_total g \<and> used_threads g + t \<le> threads_total g \<and>
    (r = Served \<longrightarrow> served_memory g + m \<le> served_memory_ceiling g) \<and>
    g' = g\<lparr>job_slots := job_slots g - 1, used_memory := used_memory g + m,
      served_memory := (if r = Served then served_memory g + m else served_memory g),
      used_threads := used_threads g + t\<rparr>"
  using assms
  by (auto simp: try_reserve_def checked_add_def Let_def split: if_splits option.splits)

lemma sum_mset_elem: "l \<in># L \<Longrightarrow> f l \<le> (\<Sum>x\<in>#L. f x :: nat)"
  by (auto dest!: multi_member_split)

lemma sum_mset_remove: "l \<in># L \<Longrightarrow> (\<Sum>x\<in>#L - {#l#}. f x) = (\<Sum>x\<in>#L. f x :: nat) - f l"
  by (auto dest!: multi_member_split)

lemma drop_lease_exact:
  assumes "gov_acct g L" "l \<in># L"
  shows "drop_lease l g = g\<lparr>used_memory := used_memory g - lease_memory l,
    served_memory := served_memory g - served_part l, used_threads := used_threads g - lease_threads l,
    job_slots := job_slots g + 1\<rparr>"
proof -
  have "lease_memory l \<le> used_memory g" "served_part l \<le> served_memory g" "lease_threads l \<le> used_threads g"
    using assms by (auto simp: gov_acct_def intro: sum_mset_elem)
  with gov_acct_lt [OF assms(1)] show ?thesis
    by (auto simp: drop_lease_def rollback_exact fetch_sub_exact served_part_def Let_def split: if_splits)
qed

lemma gov_acct_reserve:
  assumes "gov_acct g L" "try_reserve r m t g = (Some l, g')"
  shows "gov_acct g' (add_mset l L) \<and> gov_config g' = gov_config g"
  using assms(1) try_reserve_Some [OF assms(2)]
  by (cases r) (simp_all add: gov_acct_def gov_config_def served_part_def)

lemma gov_acct_drop:
  assumes "gov_acct g L" "l \<in># L"
  shows "gov_acct (drop_lease l g) (L - {#l#}) \<and> gov_config (drop_lease l g) = gov_config g"
proof -
  from assms(2) obtain M where L: "L = add_mset l M" by (auto dest: multi_member_split)
  show ?thesis
    using assms(1) unfolding drop_lease_exact [OF assms] L
    by (simp add: gov_acct_def gov_config_def)
qed

interpretation gov_pool: lease_pool "\<lambda>(r, m, t). try_reserve r m t" drop_lease gov_acct gov_config lease_memory fst
proof
  fix g g' :: governor and L l and q :: "role \<times> nat \<times> nat"
  assume acct: "gov_acct g L"
  obtain r m t where q: "q = (r, m, t)" by (cases q)
  show "(case q of (r, m, t) \<Rightarrow> try_reserve r m t) g = (None, g') \<Longrightarrow> g' = g"
    using try_reserve_None [OF acct] by (simp add: q)
  show "(case q of (r, m, t) \<Rightarrow> try_reserve r m t) g = (Some l, g') \<Longrightarrow>
      gov_acct g' (add_mset l L) \<and> gov_config g' = gov_config g"
    unfolding q prod.case by (rule gov_acct_reserve [OF acct])
  show "l \<in># L \<Longrightarrow> gov_acct (drop_lease l g) (L - {#l#}) \<and> gov_config (drop_lease l g) = gov_config g"
    by (rule gov_acct_drop [OF acct])
  show "(\<Sum>l\<in>#L. lease_memory l) \<le> fst (gov_config g)"
    using acct by (simp add: gov_acct_def gov_config_def)
  show "gov_acct g' L \<Longrightarrow> gov_config g = gov_config g' \<Longrightarrow> g = g'"
    using acct by (simp add: gov_acct_def gov_config_def)
qed

text \<open>
  Accounting of the admission controller: its own counters, and in the shared governor one served
  lease for every lease it handed out, besides the leases \<open>X\<close> of the node's own queries.
\<close>

definition adm_gov_lease :: "adm_lease \<Rightarrow> lease" where
  "adm_gov_lease l = \<lparr>lease_role = Served, lease_memory = al_memory l, lease_threads = al_threads l\<rparr>"

fun adm_gov_acct :: "lease multiset \<Rightarrow> governor option \<Rightarrow> adm_lease multiset \<Rightarrow> bool" where
  "adm_gov_acct X None L \<longleftrightarrow> (\<forall>l\<in>#L. al_governor_lease l = None)"
| "adm_gov_acct X (Some g) L \<longleftrightarrow> (\<forall>l\<in>#L. al_governor_lease l = Some (adm_gov_lease l)) \<and>
     gov_acct g (X + image_mset adm_gov_lease L)"

definition adm_acct :: "lease multiset \<Rightarrow> admission \<Rightarrow> adm_lease multiset \<Rightarrow> bool" where
  "adm_acct X a L \<longleftrightarrow>
     adm_used_memory a = (\<Sum>l\<in>#L. al_memory l) \<and> adm_used_memory a \<le> adm_memory_bytes a \<and>
     adm_memory_bytes a \<le> u64_max \<and>
     adm_used_threads a = (\<Sum>l\<in>#L. al_threads l) \<and> adm_used_threads a \<le> adm_threads a \<and>
     adm_threads a \<le> u32_max \<and> adm_job_slots a + size L = adm_max_jobs a \<and>
     adm_gov_acct X (adm_governor a) L"

definition adm_config :: "admission \<Rightarrow> nat \<times> nat \<times> nat \<times> data_class list \<times> (nat \<times> nat \<times> nat \<times> nat) option" where
  "adm_config a = (adm_memory_bytes a, adm_threads a, adm_max_jobs a, adm_data_classes a,
     map_option gov_config (adm_governor a))"

lemma adm_acct_lt: "adm_acct X a L \<Longrightarrow> adm_used_memory a < 2 ^ 64 \<and> adm_used_threads a < 2 ^ 32"
  by (auto simp: adm_acct_def u64_max_def u32_max_def)

lemma try_admit_None:
  assumes "adm_acct X a L" "try_admit m t a = (None, a')"
  shows "a' = a"
proof -
  have b: "adm_memory_bytes a < 2 ^ 64" "adm_threads a < 2 ^ 32"
    using assms(1) by (auto simp: adm_acct_def u64_max_def u32_max_def)
  have g: "try_reserve Served m t g = (None, g') \<Longrightarrow> adm_governor a = Some g \<Longrightarrow> g' = g" for g g'
    using assms(1) try_reserve_None [of g "X + image_mset adm_gov_lease L" Served m t g']
    by (simp add: adm_acct_def)
  have f: "fetch_sub 64 (adm_used_memory a + m) m = adm_used_memory a"
    if "adm_used_memory a + m \<le> adm_memory_bytes a" 
    using b that by (simp add: fetch_sub_exact)
  have ft: "fetch_sub 32 (adm_used_threads a + t) t = adm_used_threads a"
    if "adm_used_threads a + t \<le> adm_threads a" 
    using b that by (simp add: fetch_sub_exact)
  consider (early) "adm_job_slots a = 0 \<or> u64_max < adm_used_memory a + m \<or> adm_memory_bytes a < adm_used_memory a + m"
    | (thr) "0 < adm_job_slots a" "adm_used_memory a + m \<le> u64_max" "adm_used_memory a + m \<le> adm_memory_bytes a"
        "u32_max < adm_used_threads a + t \<or> adm_threads a < adm_used_threads a + t"
    | (gov) "0 < adm_job_slots a" "adm_used_memory a + m \<le> u64_max" "adm_used_memory a + m \<le> adm_memory_bytes a"
        "adm_used_threads a + t \<le> u32_max" "adm_used_threads a + t \<le> adm_threads a" by linarith
  then show ?thesis
  proof cases
    case early
    with assms(2) show ?thesis
      by (elim disjE) (simp_all add: try_admit_def checked_add_def split: if_splits)
  next
    case thr
    from thr(4) have "try_admit m t a = (None, a)"
      by (elim disjE; cases a) (use thr f in \<open>simp_all add: try_admit_def checked_add_def Let_def\<close>)
    with assms(2) show ?thesis by simp
  next
    case gov
    show ?thesis
    proof (cases "adm_governor a")
      case None
      with gov assms(2) show ?thesis by (simp add: try_admit_def checked_add_def Let_def)
    next
      case (Some gv)
      obtain x gv' where r: "try_reserve Served m t gv = (x, gv')" by (cases "try_reserve Served m t gv")
      show ?thesis
      proof (cases x)
        case None
        with g r Some have "gv' = gv" by simp
        with gov assms(2) f ft Some r None show ?thesis
          by (cases a) (simp add: try_admit_def checked_add_def Let_def)
      next
        case (Some l)
        with gov assms(2) \<open>adm_governor a = Some gv\<close> r show ?thesis
          by (simp add: try_admit_def checked_add_def Let_def)
      qed
    qed
  qed
qed

lemma try_admit_Some:
  assumes "try_admit m t a = (Some l, a')"
  obtains gv where "al_memory l = m" "al_threads l = t" "0 < adm_job_slots a"
    "adm_used_memory a + m \<le> adm_memory_bytes a" "adm_used_threads a + t \<le> adm_threads a"
    "a' = a\<lparr>adm_job_slots := adm_job_slots a - 1, adm_used_memory := adm_used_memory a + m,
      adm_used_threads := adm_used_threads a + t, adm_governor := gv\<rparr>"
    "adm_governor a = None \<Longrightarrow> al_governor_lease l = None \<and> gv = None"
    "\<And>g. adm_governor a = Some g \<Longrightarrow>
       \<exists>gl g'. try_reserve Served m t g = (Some gl, g') \<and> al_governor_lease l = Some gl \<and> gv = Some g'"
proof -
  have c: "0 < adm_job_slots a" "adm_used_memory a + m \<le> u64_max" "adm_used_memory a + m \<le> adm_memory_bytes a"
    "adm_used_threads a + t \<le> u32_max" "adm_used_threads a + t \<le> adm_threads a"
    using assms by (auto simp: try_admit_def checked_add_def Let_def split: if_splits)
  show ?thesis
  proof (cases "adm_governor a")
    case None
    with assms c show ?thesis
      by (intro that [of None]) (auto simp: try_admit_def checked_add_def Let_def)
  next
    case (Some g)
    obtain x g' where r: "try_reserve Served m t g = (x, g')" by (cases "try_reserve Served m t g")
    with assms c Some obtain gl where x: "x = Some gl"
      by (cases x) (auto simp: try_admit_def checked_add_def Let_def)
    with assms c Some r show ?thesis
      by (intro that [of "Some g'"]) (auto simp: try_admit_def checked_add_def Let_def)
  qed
qed

lemma adm_acct_admit:
  assumes "adm_acct X a L" "try_admit m t a = (Some l, a')"
  shows "adm_acct X a' (add_mset l L) \<and> adm_config a' = adm_config a"
  using assms(2)
proof (rule try_admit_Some)
  fix gv
  assume s: "al_memory l = m" "al_threads l = t" "0 < adm_job_slots a"
    "adm_used_memory a + m \<le> adm_memory_bytes a" "adm_used_threads a + t \<le> adm_threads a"
    and a': "a' = a\<lparr>adm_job_slots := adm_job_slots a - 1, adm_used_memory := adm_used_memory a + m,
      adm_used_threads := adm_used_threads a + t, adm_governor := gv\<rparr>"
    and n: "adm_governor a = None \<Longrightarrow> al_governor_lease l = None \<and> gv = None"
    and g: "\<And>g. adm_governor a = Some g \<Longrightarrow>
       \<exists>gl g'. try_reserve Served m t g = (Some gl, g') \<and> al_governor_lease l = Some gl \<and> gv = Some g'"
  show ?thesis
  proof (cases "adm_governor a")
    case None
    with assms(1) s n show ?thesis by (simp add: a' adm_acct_def adm_config_def)
  next
    case (Some h)
    from g [OF this] obtain gl h' where r: "try_reserve Served m t h = (Some gl, h')"
      "al_governor_lease l = Some gl" "gv = Some h'" by blast
    have gl: "gl = adm_gov_lease l" using try_reserve_Some [OF r(1)] s by (simp add: adm_gov_lease_def)
    have "gov_acct h (X + image_mset adm_gov_lease L)" using assms(1) Some by (simp add: adm_acct_def)
    from gov_acct_reserve [OF this r(1)] have "gov_acct h' (add_mset gl (X + image_mset adm_gov_lease L))"
      "gov_config h' = gov_config h" by simp_all
    with assms(1) Some s r(2,3) gl show ?thesis by (simp add: a' adm_acct_def adm_config_def)
  qed
qed

lemma adm_gov_acct_drop:
  assumes "adm_gov_acct X gv (add_mset l M)"
  defines "h \<equiv> (case al_governor_lease l of None \<Rightarrow> gv | Some gl \<Rightarrow> map_option (drop_lease gl) gv)"
  shows "adm_gov_acct X h M \<and> map_option gov_config h = map_option gov_config gv"
proof (cases gv)
  case None
  with assms show ?thesis by (cases "al_governor_lease l") simp_all
next
  case (Some g)
  with assms(1) have l: "al_governor_lease l = Some (adm_gov_lease l)"
    and m: "\<forall>x\<in>#M. al_governor_lease x = Some (adm_gov_lease x)"
    and "gov_acct g (add_mset (adm_gov_lease l) (X + image_mset adm_gov_lease M))" by simp_all
  from gov_acct_drop [OF this(3), of "adm_gov_lease l"]
  have "gov_acct (drop_lease (adm_gov_lease l) g) (X + image_mset adm_gov_lease M)"
    "gov_config (drop_lease (adm_gov_lease l) g) = gov_config g" by simp_all
  with l m Some show ?thesis by (simp add: h_def)
qed

lemma adm_acct_drop:
  assumes "adm_acct X a L" "l \<in># L"
  shows "adm_acct X (drop_adm_lease l a) (L - {#l#}) \<and> adm_config (drop_adm_lease l a) = adm_config a"
proof -
  from assms(2) obtain M where L: "L = add_mset l M" by (auto dest: multi_member_split)
  note acct = assms(1) [unfolded L adm_acct_def]
  define h where "h = (case al_governor_lease l of
      None \<Rightarrow> adm_governor a | Some gl \<Rightarrow> map_option (drop_lease gl) (adm_governor a))"
  have g: "adm_gov_acct X h M" "map_option gov_config h = map_option gov_config (adm_governor a)"
    using adm_gov_acct_drop [of X "adm_governor a" l M] acct by (simp_all add: h_def)
  have b: "al_memory l \<le> adm_used_memory a" "al_threads l \<le> adm_used_threads a"
    using acct by simp_all
  have d: "drop_adm_lease l a = a\<lparr>adm_used_memory := adm_used_memory a - al_memory l,
      adm_used_threads := adm_used_threads a - al_threads l, adm_job_slots := adm_job_slots a + 1,
      adm_governor := h\<rparr>"
    using adm_acct_lt [OF assms(1)] b
    by (simp only: drop_adm_lease_def h_def fetch_sub_exact [OF b(1)] fetch_sub_exact [OF b(2)])
  from acct g show ?thesis unfolding d L by (simp add: adm_acct_def adm_config_def)
qed

lemma adm_acct_determined:
  assumes "adm_acct X a L" "adm_acct X a' L" "adm_config a = adm_config a'"
  shows "a = a'"
proof (rule admission.equality)
  show "adm_governor a = adm_governor a'"
    using assms gov_pool.determined [of _ "X + image_mset adm_gov_lease L"]
    by (cases "adm_governor a"; cases "adm_governor a'") (simp_all add: adm_acct_def adm_config_def)
qed (use assms in \<open>simp_all add: adm_acct_def adm_config_def\<close>)

interpretation adm_pool: lease_pool "\<lambda>(m, t). try_admit m t" drop_adm_lease "adm_acct X" adm_config al_memory fst for X
proof
  fix a a' :: admission and L l and q :: "nat \<times> nat"
  assume acct: "adm_acct X a L"
  obtain m t where q: "q = (m, t)" by (cases q)
  show "(case q of (m, t) \<Rightarrow> try_admit m t) a = (None, a') \<Longrightarrow> a' = a"
    using try_admit_None [OF acct] by (simp add: q)
  show "(case q of (m, t) \<Rightarrow> try_admit m t) a = (Some l, a') \<Longrightarrow>
      adm_acct X a' (add_mset l L) \<and> adm_config a' = adm_config a"
    unfolding q prod.case by (rule adm_acct_admit [OF acct])
  show "l \<in># L \<Longrightarrow> adm_acct X (drop_adm_lease l a) (L - {#l#}) \<and> adm_config (drop_adm_lease l a) = adm_config a"
    by (rule adm_acct_drop [OF acct])
  show "(\<Sum>l\<in>#L. al_memory l) \<le> fst (adm_config a)"
    using acct by (simp add: adm_acct_def adm_config_def)
  show "adm_acct X a' L \<Longrightarrow> adm_config a = adm_config a' \<Longrightarrow> a = a'"
    by (rule adm_acct_determined [OF acct])
qed

lemma governor_new_simps:
  "memory_total (governor_new b j f act) = memory_bytes b"
  "threads_total (governor_new b j f act) = threads b"
  "used_memory (governor_new b j f act) = 0" "used_threads (governor_new b j f act) = 0"
  "served_memory (governor_new b j f act) = 0" "job_slots (governor_new b j f act) = max j 1"
  "max_jobs (governor_new b j f act) = max j 1"
  "min (per_job_memory_bytes b) (memory_bytes b) \<le> served_memory_ceiling (governor_new b j f act)"
  by (simp_all add: governor_new_def Let_def)

lemma served_ceiling_le: "served_memory_ceiling (governor_new b j f act) \<le> memory_bytes b"
proof -
  let ?x = "if act then max 0 (min 1 f) else 0"
  have "real (memory_bytes b) * (1 - ?x) \<le> real (memory_bytes b)"
    by (intro mult_left_le) auto
  then have "nat \<lfloor>real (memory_bytes b) * (1 - ?x)\<rfloor> \<le> memory_bytes b" by linarith
  then show ?thesis by (simp add: governor_new_def Let_def)
qed

lemma gov_acct_new:
  "memory_bytes b \<le> u64_max \<Longrightarrow> threads b \<le> u32_max \<Longrightarrow> gov_acct (governor_new b j f act) {#}"
  using served_ceiling_le [of b j f act] by (simp add: gov_acct_def governor_new_simps)

lemma gov_inv_new:
  "memory_bytes b \<le> u64_max \<Longrightarrow> threads b \<le> u32_max \<Longrightarrow> gov_inv (governor_new b j f act, [])"
  using served_ceiling_le [of b j f act] by (simp add: gov_inv_def governor_new_simps)

lemma gov_reach_inv: "gov_step\<^sup>*\<^sup>* c c' \<Longrightarrow> gov_inv c \<Longrightarrow> gov_inv c'"
  by (induction rule: rtranclp_induct) (auto intro: gov_step_inv)

lemma gov_step_config: "gov_step c c' \<Longrightarrow> gov_config (fst c') = gov_config (fst c)"
  by (induction rule: gov_step.induct) (simp_all add: gov_config_def)

lemma gov_reach_config: "gov_step\<^sup>*\<^sup>* c c' \<Longrightarrow> gov_config (fst c') = gov_config (fst c)"
  by (induction rule: rtranclp_induct) (auto dest: gov_step_config)

lemma held_le: "tot heldM ps \<le> tot memC ps" "tot heldS ps \<le> tot servedC ps" "tot heldT ps \<le> tot thrC ps"
  "tot heldJ ps \<le> tot slotC ps"
proof -
  have h: "heldM p \<le> memC p \<and> heldS p \<le> servedC p \<and> heldT p \<le> thrC p \<and> heldJ p \<le> slotC p" for p
  proof (cases p)
    case (Held r m t)
    then show ?thesis by (cases r) simp_all
  qed simp_all
  show "tot heldM ps \<le> tot memC ps" "tot heldS ps \<le> tot servedC ps" "tot heldT ps \<le> tot thrC ps"
    "tot heldJ ps \<le> tot slotC ps" using h by (simp_all add: tot_mono)
qed

lemma adm_acct_new:
  assumes "memory_bytes b \<le> u64_max" "threads b \<le> u32_max"
    "memory_bytes mb \<le> u64_max" "threads mb \<le> u32_max"
  shows "adm_acct {#} (admission_build b (Some (governor_new mb j f act))) {#}"
  using assms gov_acct_new [of mb j f act] by (simp add: adm_acct_def admission_build_def)

text \<open>A complete grant and release of a served job, for the concrete budget.\<close>

lemma example_grant:
  fixes g :: governor
  assumes g: "g = governor_new example_budget 2 (1 / 2) True"
  shows "gov_step\<^sup>*\<^sup>* (g, []) (g\<lparr>job_slots := 1, used_memory := 10, served_memory := 10, used_threads := 1\<rparr>,
    [Held Served 10 1])"
proof -
  have c: "10 \<le> served_memory_ceiling g" "memory_total g = 1000" "threads_total g = 8" "used_memory g = 0"
    "used_threads g = 0" "served_memory g = 0" "job_slots g = 2"
    by (simp_all add: g governor_new_def example_budget_def Let_def)
  let ?s = "\<lambda>h p. gov_step\<^sup>*\<^sup>* (g, []) (h, [p])"
  have "?s g Idle" using gov_step.spawn [of g "[]"] by (simp add: r_into_rtranclp)
  from rtranclp.rtrancl_into_rtrancl [OF this gov_step.acquire [of 0 _ _ Served 10 1]]
  have "?s (g\<lparr>job_slots := 1\<rparr>) (LoadMem Served 10 1)" using c by simp
  from rtranclp.rtrancl_into_rtrancl [OF this gov_step.load_mem [of 0]]
  have "?s (g\<lparr>job_slots := 1\<rparr>) (CasMem Served 10 1 0)" using c by simp
  from rtranclp.rtrancl_into_rtrancl [OF this gov_step.mem_cas [of 0 _ Served 10 1 0]]
  have "?s (g\<lparr>job_slots := 1, used_memory := 10\<rparr>) (LoadServed 10 1)" using c by (simp add: u64_max_def)
  from rtranclp.rtrancl_into_rtrancl [OF this gov_step.load_served [of 0]]
  have "?s (g\<lparr>job_slots := 1, used_memory := 10\<rparr>) (CasServed 10 1 0)" using c by simp
  from rtranclp.rtrancl_into_rtrancl [OF this gov_step.served_cas [of 0 _ 10 1 0]]
  have "?s (g\<lparr>job_slots := 1, used_memory := 10, served_memory := 10\<rparr>) (LoadThreads Served 10 1)"
    using c by (simp add: u64_max_def)
  from rtranclp.rtrancl_into_rtrancl [OF this gov_step.load_threads [of 0]]
  have "?s (g\<lparr>job_slots := 1, used_memory := 10, served_memory := 10\<rparr>) (CasThreads Served 10 1 0)" using c by simp
  from rtranclp.rtrancl_into_rtrancl [OF this gov_step.threads_cas [of 0 _ Served 10 1 0]]
  show ?thesis using c by (simp add: u32_max_def)
qed

lemma example_release:
  fixes g :: governor
  assumes g: "g = governor_new example_budget 2 (1 / 2) True"
  shows "gov_step\<^sup>*\<^sup>* (g, []) (g, [Idle])"
proof -
  have c: "used_memory g = 0" "used_threads g = 0" "served_memory g = 0" "job_slots g = 2"
    by (simp_all add: g governor_new_def Let_def)
  let ?s = "\<lambda>h p. gov_step\<^sup>*\<^sup>* (g, []) (h, [p])"
  from rtranclp.rtrancl_into_rtrancl [OF example_grant [OF g] gov_step.drop_mem [of 0 _ Served 10 1]]
  have "?s (g\<lparr>job_slots := 1, served_memory := 10, used_threads := 1, used_memory := 0\<rparr>) (DropServed 10 1)"
    by (simp add: fetch_sub_exact)
  from rtranclp.rtrancl_into_rtrancl [OF this gov_step.drop_served [of 0]]
  have "?s (g\<lparr>job_slots := 1, used_threads := 1, used_memory := 0, served_memory := 0\<rparr>) (DropThreads 1)"
    by (simp add: fetch_sub_exact)
  from rtranclp.rtrancl_into_rtrancl [OF this gov_step.drop_threads [of 0]]
  have "?s (g\<lparr>job_slots := 1, used_memory := 0, served_memory := 0, used_threads := 0\<rparr>) ReleasePermit"
    by (simp add: fetch_sub_exact)
  from rtranclp.rtrancl_into_rtrancl [OF this gov_step.release [of 0]]
  have "?s (g\<lparr>used_memory := 0, served_memory := 0, used_threads := 0, job_slots := Suc (Suc 0)\<rparr>) Idle" by simp
  moreover have "g\<lparr>used_memory := 0, served_memory := 0, used_threads := 0, job_slots := Suc (Suc 0)\<rparr> = g"
    using c by (simp add: g)
  ultimately show ?thesis by simp
qed

section \<open>Properties\<close>

text \<open>
  C16: however many threads race through the governor's atomics, in whatever order, and however
  often a compare-exchange fails, the leases handed out never hold more memory, served memory,
  threads or job slots than the machine's budget, the served ceiling, the thread budget and the
  job limit.
\<close>

theorem governor_never_oversubscribed:
  assumes "gov_step\<^sup>*\<^sup>* (governor_new b j f act, []) (g, ps)" "memory_bytes b \<le> u64_max" "threads b \<le> u32_max"
  shows "tot heldM ps \<le> memory_bytes b \<and>
    tot heldS ps \<le> served_memory_ceiling (governor_new b j f act) \<and>
    tot heldT ps \<le> threads b \<and> tot heldJ ps \<le> max j 1"
proof -
  have "gov_inv (g, ps)" using gov_reach_inv [OF assms(1) gov_inv_new [OF assms(2,3)]] .
  moreover have "gov_config g = gov_config (governor_new b j f act)"
    using gov_reach_config [OF assms(1)] by simp
  ultimately show ?thesis
    using held_le [of ps] by (auto simp: gov_inv_def gov_config_def governor_new_simps)
qed

theorem governor_never_oversubscribed_witness:
  "tot heldM [Held Served 10 1] \<le> memory_bytes example_budget"
proof -
  note governor_never_oversubscribed [OF example_grant [OF refl]]
  then show ?thesis by (simp add: example_budget_def u64_max_def u32_max_def)
qed

text \<open>
  nothing leaks. Whenever every thread is out of the governor, after any interleaving of
  grants, refusals with their rollbacks and releases, all counters are back at zero and every job
  slot is free.
\<close>

theorem governor_quiescent_is_fresh:
  assumes "gov_step\<^sup>*\<^sup>* (governor_new b j f act, []) (g, replicate n Idle)"
    and "memory_bytes b \<le> u64_max" "threads b \<le> u32_max"
  shows "g = governor_new b j f act"
proof -
  have z: "tot h (replicate n Idle) = n * h Idle" for h by (simp add: tot_def sum_list_replicate)
  have "gov_inv (g, replicate n Idle)" using gov_reach_inv [OF assms(1) gov_inv_new [OF assms(2,3)]] .
  moreover have "gov_config g = gov_config (governor_new b j f act)"
    using gov_reach_config [OF assms(1)] by simp
  ultimately show ?thesis by (simp add: gov_inv_def z gov_config_def governor_new_simps)
qed

theorem governor_quiescent_is_fresh_witness:
  "governor_new example_budget 2 (1 / 2) True = governor_new example_budget 2 (1 / 2) True"
proof (rule governor_quiescent_is_fresh [where n = 1])
  show "gov_step\<^sup>*\<^sup>* (governor_new example_budget 2 (1 / 2) True, [])
      (governor_new example_budget 2 (1 / 2) True, replicate 1 Idle)"
    using example_release [OF refl] by simp
qed (simp_all add: example_budget_def u64_max_def u32_max_def)

text \<open>
  the admission controller over the shared governor. After any run of admissions and lease
  drops the admitted jobs hold at most the donated memory, and a run that ends with no lease
  outstanding, refused admissions and their rollbacks included, leaves the controller and the
  governor exactly as they were built.
\<close>

theorem admission_bounded_and_restored:
  assumes "lease_run (\<lambda>(m, t). try_admit m t) drop_adm_lease es
      (admission_build b (Some (governor_new mb j f act)), {#}) = (a, L)"
    and "memory_bytes b \<le> u64_max" "threads b \<le> u32_max" "memory_bytes mb \<le> u64_max" "threads mb \<le> u32_max"
  shows "(\<Sum>l\<in>#L. al_memory l) \<le> memory_bytes b \<and>
    (L = {#} \<longrightarrow> a = admission_build b (Some (governor_new mb j f act)))"
  using adm_pool.run_within [OF adm_acct_new [OF assms(2-)] assms(1)]
    adm_pool.run_restores [OF adm_acct_new [OF assms(2-)]] assms(1)
  by (auto simp: adm_config_def admission_build_def)

theorem admission_bounded_and_restored_witness:
  "fst (lease_run (\<lambda>(m, t). try_admit m t) drop_adm_lease
     [Inl (400, 2), Inl (400, 2), Inr \<lparr>al_memory = 400, al_threads = 2,
        al_governor_lease = Some \<lparr>lease_role = Served, lease_memory = 400, lease_threads = 2\<rparr>\<rparr>]
     (admission_build example_budget (Some (governor_new example_budget 2 (1 / 2) True)), {#})) =
   admission_build example_budget (Some (governor_new example_budget 2 (1 / 2) True))"
proof -
  let ?g = "governor_new example_budget 2 (1 / 2) True"
  let ?l = "\<lparr>al_memory = 400, al_threads = 2,
        al_governor_lease = Some \<lparr>lease_role = Served, lease_memory = 400, lease_threads = 2\<rparr>\<rparr>"
  let ?r = "lease_run (\<lambda>(m, t). try_admit m t) drop_adm_lease
     [Inl (400, 2), Inl (400, 2), Inr ?l] (admission_build example_budget (Some ?g), {#})"
  have "snd ?r = {#}"
    by (simp add: try_admit_def try_reserve_def admission_build_def governor_new_def example_budget_def
        checked_add_def u64_max_def u32_max_def Let_def)
  then have "?r = (fst ?r, {#})" by (metis prod.collapse)
  from admission_bounded_and_restored [OF this] show ?thesis
    by (simp add: example_budget_def u64_max_def u32_max_def)
qed

end
