(* ===== verification/Receipt.thy ===== *)
theory Receipt
  imports Identity
begin

text \<open>
  Signed receipts (\<open>crates/trust/src/receipt.rs\<close>), the verdicts they carry
  (\<open>crates/proto/src/messages.rs\<close>) and signed abuse signals
  (\<open>crates/trust/src/antiabuse.rs\<close>). Both kinds of statement interpret the locale
  \<open>signed_statement\<close>.
\<close>

section \<open>Verdicts\<close>

datatype verdict = Correct | Incorrect | Timeout | Malformed | ResourceExceeded | Infeasible
  | Inconclusive

fun is_correct :: "verdict \<Rightarrow> bool" where
  "is_correct Correct = True"
| "is_correct _ = False"

fun is_provider_fault :: "verdict \<Rightarrow> bool" where
  "is_provider_fault Incorrect = True"
| "is_provider_fault Timeout = True"
| "is_provider_fault Malformed = True"
| "is_provider_fault _ = False"

definition affects_reputation :: "verdict \<Rightarrow> bool" where
  "affects_reputation v \<longleftrightarrow> is_correct v \<or> is_provider_fault v"

fun verdict_tag :: "verdict \<Rightarrow> u8" where
  "verdict_tag Correct = 1"
| "verdict_tag Incorrect = 2"
| "verdict_tag Timeout = 3"
| "verdict_tag Malformed = 4"
| "verdict_tag ResourceExceeded = 5"
| "verdict_tag Infeasible = 6"
| "verdict_tag Inconclusive = 7"

section \<open>Receipts\<close>

record receipt_draft =
  job_id :: string
  worker_id :: string
  query_hash :: string
  result_hash :: string
  verdict :: verdict
  latency_ms :: u64
  ts :: u64
  observed_input_bytes :: u64
  observed_result_rows :: u64
  observed_result_bytes :: u64
  input_fingerprint :: string

text \<open>A receipt has the fields of its draft and three more.\<close>

record receipt = receipt_draft +
  requester_id :: string
  requester_pubkey :: string
  sig :: string

definition draft_new ::
    "string \<Rightarrow> string \<Rightarrow> string \<Rightarrow> string \<Rightarrow> verdict \<Rightarrow> u64 \<Rightarrow> u64 \<Rightarrow> receipt_draft" where
  "draft_new job worker qh rh v latency t =
     \<lparr>job_id = job, worker_id = worker, query_hash = qh, result_hash = rh, verdict = v,
      latency_ms = latency, ts = t, observed_input_bytes = 0, observed_result_rows = 0,
      observed_result_bytes = 0, input_fingerprint = ''''\<rparr>"

definition signing_bytes ::
    "string \<Rightarrow> string \<Rightarrow> string \<Rightarrow> string \<Rightarrow> string \<Rightarrow> verdict \<Rightarrow> u64 \<Rightarrow> u64 \<Rightarrow> u64 \<Rightarrow> u64 \<Rightarrow> u64 \<Rightarrow>
      string \<Rightarrow> bytes" where
  "signing_bytes job worker requester qh rh v latency t inb rrows rbytes fp =
     as_bytes ''duckdb-p2p-receipt-v1'' @ field (as_bytes job) @ field (as_bytes worker) @
     field (as_bytes requester) @ field (as_bytes qh) @ field (as_bytes fp) @ field (as_bytes rh) @
     [verdict_tag v] @ le_bytes 8 latency @ le_bytes 8 t @ le_bytes 8 inb @ le_bytes 8 rrows @
     le_bytes 8 rbytes"

text \<open>The call of \<open>signing_bytes\<close> that both \<open>sign_receipt\<close> and \<open>verify_receipt\<close> make.\<close>

definition draft_bytes :: "string \<Rightarrow> 'a receipt_draft_scheme \<Rightarrow> bytes" where
  "draft_bytes requester d = signing_bytes (job_id d) (worker_id d) requester (query_hash d)
     (result_hash d) (verdict d) (latency_ms d) (ts d) (observed_input_bytes d)
     (observed_result_rows d) (observed_result_bytes d) (input_fingerprint d)"

definition sign_receipt :: "crypto \<Rightarrow> receipt_draft \<Rightarrow> signer \<Rightarrow> receipt" where
  "sign_receipt C d S =
     (let requester = node_id S;
          msg = draft_bytes requester d;
          g = sign_bytes S msg
      in receipt_draft.extend d
           \<lparr>requester_id = requester, requester_pubkey = hex_enc C (public_key S), sig = hex_enc C g\<rparr>)"

definition verify_receipt :: "crypto \<Rightarrow> receipt \<Rightarrow> bool" where
  "verify_receipt C r =
     check_signed C (requester_pubkey r) (requester_id r) (sig r) (draft_bytes (requester_id r) r)"

section \<open>Abuse signals\<close>

record abuse_signal =
  subject_id :: string
  subject_wallet :: "string option"
  reason :: string
  as_ts :: u64
  reporter_id :: string
  reporter_pubkey :: string
  as_sig :: string

definition abuse_signing_bytes ::
    "string \<Rightarrow> string option \<Rightarrow> string \<Rightarrow> u64 \<Rightarrow> string \<Rightarrow> bytes" where
  "abuse_signing_bytes subject wallet why t reporter =
     as_bytes ''duckdb-p2p-abuse-v1'' @ field (as_bytes subject) @
     field (as_bytes (case wallet of None \<Rightarrow> '''' | Some w \<Rightarrow> w)) @ field (as_bytes why) @
     field (as_bytes reporter) @ le_bytes 8 t"

definition sign_abuse_signal ::
    "crypto \<Rightarrow> string \<Rightarrow> string option \<Rightarrow> string \<Rightarrow> u64 \<Rightarrow> signer \<Rightarrow> abuse_signal" where
  "sign_abuse_signal C subject wallet why t S =
     (let reporter = node_id S;
          msg = abuse_signing_bytes subject wallet why t reporter
      in \<lparr>subject_id = subject, subject_wallet = wallet, reason = why, as_ts = t,
          reporter_id = reporter, reporter_pubkey = hex_enc C (public_key S),
          as_sig = hex_enc C (sign_bytes S msg)\<rparr>)"

definition verify_abuse_signal :: "crypto \<Rightarrow> abuse_signal \<Rightarrow> bool" where
  "verify_abuse_signal C a =
     check_signed C (reporter_pubkey a) (reporter_id a) (as_sig a)
       (abuse_signing_bytes (subject_id a) (subject_wallet a) (reason a) (as_ts a) (reporter_id a))"

section \<open>Signing bytes are injective\<close>

text \<open>Every variable-length field fits its 64-bit length prefix.\<close>

definition draft_fits :: "'a receipt_draft_scheme \<Rightarrow> bool" where
  "draft_fits d \<longleftrightarrow> fits (job_id d) \<and> fits (worker_id d) \<and> fits (query_hash d) \<and>
     fits (result_hash d) \<and> fits (input_fingerprint d)"

definition receipt_fits :: "receipt \<Rightarrow> bool" where
  "receipt_fits r \<longleftrightarrow> draft_fits r \<and> fits (requester_id r)"

definition signal_fits :: "abuse_signal \<Rightarrow> bool" where
  "signal_fits a \<longleftrightarrow> fits (subject_id a) \<and> fits (case subject_wallet a of None \<Rightarrow> '''' | Some w \<Rightarrow> w) \<and>
     fits (reason a) \<and> fits (reporter_id a)"

text \<open>What a statement says, apart from the key and the signature.\<close>

definition receipt_content :: "receipt \<Rightarrow> receipt_draft \<times> string" where
  "receipt_content r = (receipt_draft.truncate r, requester_id r)"

definition signal_content :: "abuse_signal \<Rightarrow> string \<times> string \<times> string \<times> u64 \<times> string" where
  "signal_content a = (subject_id a, case subject_wallet a of None \<Rightarrow> '''' | Some w \<Rightarrow> w, reason a,
     as_ts a, reporter_id a)"

text \<open>A key and a draft, for examples.\<close>

definition toy_draft :: receipt_draft where
  "toy_draft = draft_new ''job1'' ''b3:w'' ''q'' ''r'' Correct 12 1700000000"

definition toy_signer :: signer where
  "toy_signer = \<lparr>sign_bytes = (\<lambda>_. replicate 64 0), public_key = replicate 32 7,
     node_id = ''b3:'' @ of_bytes (replicate 32 7)\<rparr>"

definition toy_signal :: "crypto \<Rightarrow> abuse_signal" where
  "toy_signal C = sign_abuse_signal C ''b3:x'' None ''equivocation'' 7 toy_signer"

lemma verdict_tag_inject [simp]: "verdict_tag v = verdict_tag w \<longleftrightarrow> v = w"
  by (cases v; cases w) simp_all

lemma draft_bytes_inject:
  fixes d d' :: receipt_draft
  assumes "draft_fits d" "draft_fits d'" "fits i" "fits i'" "draft_bytes i d = draft_bytes i' d'"
  shows "d = d' \<and> i = i'"
proof -
  from assms have
    "job_id d = job_id d' \<and> worker_id d = worker_id d' \<and> i = i' \<and> query_hash d = query_hash d' \<and>
     input_fingerprint d = input_fingerprint d' \<and> result_hash d = result_hash d' \<and>
     verdict d = verdict d' \<and> latency_ms d = latency_ms d' \<and> ts d = ts d' \<and>
     observed_input_bytes d = observed_input_bytes d' \<and>
     observed_result_rows d = observed_result_rows d' \<and>
     observed_result_bytes d = observed_result_bytes d'"
    by (simp add: draft_bytes_def signing_bytes_def draft_fits_def peel_simps)
  then show ?thesis by simp
qed

lemma draft_bytes_truncate: "draft_bytes i (receipt_draft.truncate r) = draft_bytes i r"
  by (simp add: draft_bytes_def receipt_draft.defs)

lemma draft_fits_truncate: "draft_fits (receipt_draft.truncate r) = draft_fits r"
  by (simp add: draft_fits_def receipt_draft.defs)

interpretation signed_receipt: signed_statement C requester_pubkey requester_id sig
  "\<lambda>r. draft_bytes (requester_id r) r" receipt_content receipt_fits "verify_receipt C" for C
proof
  show "verify_receipt C r \<longleftrightarrow>
      check_signed C (requester_pubkey r) (requester_id r) (sig r) (draft_bytes (requester_id r) r)" for r
    by (simp add: verify_receipt_def)
  fix r r'
  assume "receipt_fits r" "receipt_fits r'"
    "draft_bytes (requester_id r) r = draft_bytes (requester_id r') r'"
  then have "receipt_draft.truncate r = receipt_draft.truncate r' \<and> requester_id r = requester_id r'"
    by (intro draft_bytes_inject) (simp_all add: receipt_fits_def draft_bytes_truncate draft_fits_truncate)
  then show "receipt_content r = receipt_content r'" by (simp add: receipt_content_def)
qed

interpretation signed_signal: signed_statement C reporter_pubkey reporter_id as_sig
  "\<lambda>a. abuse_signing_bytes (subject_id a) (subject_wallet a) (reason a) (as_ts a) (reporter_id a)"
  signal_content signal_fits "verify_abuse_signal C" for C
proof
  show "verify_abuse_signal C a \<longleftrightarrow> check_signed C (reporter_pubkey a) (reporter_id a) (as_sig a)
      (abuse_signing_bytes (subject_id a) (subject_wallet a) (reason a) (as_ts a) (reporter_id a))" for a
    by (simp add: verify_abuse_signal_def)
  fix a b
  assume "signal_fits a" "signal_fits b"
    "abuse_signing_bytes (subject_id a) (subject_wallet a) (reason a) (as_ts a) (reporter_id a) =
     abuse_signing_bytes (subject_id b) (subject_wallet b) (reason b) (as_ts b) (reporter_id b)"
  then show "signal_content a = signal_content b"
    by (simp add: abuse_signing_bytes_def signal_fits_def signal_content_def peel_simps)
qed

lemma draft_bytes_sign_receipt:
  "draft_bytes i (sign_receipt C d S) = draft_bytes i d"
  by (simp add: sign_receipt_def Let_def draft_bytes_def receipt_draft.defs)

lemma receipt_content_sign_receipt:
  "receipt_content (sign_receipt C d S) = (d, node_id S)"
  by (simp add: receipt_content_def sign_receipt_def Let_def receipt_draft.defs)

lemma toy_signer_ok: "signer_ok (toy_crypto (\<lambda>_. True)) toy_signer"
  by (simp add: signer_ok_def toy_crypto_def toy_signer_def from_pubkey_def)

lemma toy_node_id: "node_id toy_signer = from_pubkey (toy_crypto P) (replicate 32 7)"
  by (simp add: toy_crypto_def toy_signer_def from_pubkey_def)

section \<open>Properties\<close>

text \<open>
  a receipt signed by a node's key verifies, it carries the draft unchanged, and it names
  that node as requester.
\<close>

theorem sign_verify_receipt:
  assumes "hex_ok C" "signer_ok C S"
  shows "verify_receipt C (sign_receipt C d S) \<and>
    receipt_content (sign_receipt C d S) = (d, node_id S)"
proof
  show "verify_receipt C (sign_receipt C d S)"
    by (rule signed_receipt.accepts_own [OF assms], unfold draft_bytes_sign_receipt)
      (simp_all add: sign_receipt_def Let_def receipt_draft.defs)
qed (rule receipt_content_sign_receipt)

theorem sign_verify_receipt_witness:
  "verify_receipt (toy_crypto (\<lambda>_. True)) (sign_receipt (toy_crypto (\<lambda>_. True)) toy_draft toy_signer)"
  using sign_verify_receipt [OF toy_crypto_ok(1) toy_signer_ok] by blast



text \<open>
  an abuse signal that verifies under a node's identity accuses whom, of what and when one of
  the signals signed by that node does. The wallet is covered up to the absent wallet being
  signed as the empty one.
\<close>

theorem abuse_signal_authentic:
  assumes "id_injective C" "verify_abuse_signal C a" "reporter_id a = from_pubkey C pk" "signal_fits a"
    and "only_signed C pk (as_sig a)
      ((\<lambda>b. abuse_signing_bytes (subject_id b) (subject_wallet b) (reason b) (as_ts b) (reporter_id b)) ` issued)"
    and "\<forall>b\<in>issued. signal_fits b"
  shows "signal_content a \<in> signal_content ` issued"
  using assms by (rule signed_signal.authentic)

theorem abuse_signal_authentic_witness:
  "\<exists>C. signal_content (toy_signal C) \<in> signal_content ` {toy_signal C} \<and> verify_abuse_signal C (toy_signal C)"
proof -
  let ?m = "abuse_signing_bytes ''b3:x'' None ''equivocation'' 7 (node_id toy_signer)"
  let ?C = "toy_crypto (\<lambda>m. m = ?m)"
  have v: "verify_abuse_signal ?C (toy_signal ?C)"
    by (simp add: verify_abuse_signal_def toy_signal_def sign_abuse_signal_def check_signed_iff)
      (simp add: toy_crypto_def toy_signer_def from_pubkey_def)
  moreover have "signal_content (toy_signal ?C) \<in> signal_content ` {toy_signal ?C}"
  proof (rule abuse_signal_authentic [OF _ v, where pk = "replicate 32 7"])
    show "id_injective ?C" by simp
    show "reporter_id (toy_signal ?C) = from_pubkey ?C (replicate 32 7)"
      using toy_node_id by (simp add: toy_signal_def sign_abuse_signal_def Let_def)
    show "signal_fits (toy_signal ?C)" "\<forall>b\<in>{toy_signal ?C}. signal_fits b"
      by (simp_all add: signal_fits_def toy_signal_def sign_abuse_signal_def fits_def toy_signer_def of_bytes_def)
    show "only_signed ?C (replicate 32 7) (as_sig (toy_signal ?C))
      ((\<lambda>b. abuse_signing_bytes (subject_id b) (subject_wallet b) (reason b) (as_ts b) (reporter_id b)) ` {toy_signal ?C})"
      by (simp add: only_signed_def toy_signal_def sign_abuse_signal_def Let_def) (simp add: toy_crypto_def)
  qed
  ultimately show ?thesis by blast
qed

end
