(* ===== verification/Address.thy ===== *)
theory Address
  imports Identity Settlement
begin

unbundle bit_operations_syntax

text \<open>
  TON wallet addresses: the raw and the user-friendly form of \<open>crates/settlement/src/types.rs\<close>,
  and the base64 codec of \<open>crates/settlement/src/wallet.rs\<close>. Strings are bytes, so \<open>trim\<close> strips
  the ASCII white space (an address is ASCII).
\<close>

section \<open>Strings\<close>

definition is_space :: "char \<Rightarrow> bool" where
  "is_space c \<longleftrightarrow> (of_char c :: nat) \<in> {9, 10, 11, 12, 13, 32}"

definition trim_start :: "string \<Rightarrow> string" where "trim_start s = dropWhile is_space s"

definition trim_end_matches :: "(char \<Rightarrow> bool) \<Rightarrow> string \<Rightarrow> string" where
  "trim_end_matches P s = rev (dropWhile P (rev s))"

definition trim :: "string \<Rightarrow> string" where
  "trim s = trim_start (trim_end_matches is_space s)"

text \<open>\<open>s.split_once(c)\<close>.\<close>

definition split_once :: "char \<Rightarrow> string \<Rightarrow> (string \<times> string) option" where
  "split_once c s =
     (if c \<in> set s then Some (takeWhile (\<lambda>x. x \<noteq> c) s, tl (dropWhile (\<lambda>x. x \<noteq> c) s)) else None)"

definition digit_val :: "char \<Rightarrow> nat option" where
  "digit_val c = (let n = of_char c in if 48 \<le> n \<and> n \<le> (57 :: nat) then Some (n - 48) else None)"

fun parse_digits :: "nat \<Rightarrow> string \<Rightarrow> nat option" where
  "parse_digits acc [] = Some acc"
| "parse_digits acc (c # cs) =
     (case digit_val c of None \<Rightarrow> None | Some d \<Rightarrow> parse_digits (10 * acc + d) cs)"

text \<open>\<open>str::parse::<i32>\<close>: an optional sign, at least one digit, and the range.\<close>

definition parse_i32 :: "string \<Rightarrow> int option" where
  "parse_i32 s =
     (let (neg, ds) = (case s of [] \<Rightarrow> (False, []) | c # cs \<Rightarrow>
            if c = CHR ''-'' then (True, cs) else if c = CHR ''+'' then (False, cs) else (False, c # cs))
      in if ds = [] then None
         else (case parse_digits 0 ds of
                 None \<Rightarrow> None
               | Some n \<Rightarrow> let v = (if neg then - int n else int n)
                          in if - (2 ^ 31) \<le> v \<and> v < 2 ^ 31 then Some v else None))"

fun show_nat :: "nat \<Rightarrow> string" where
  "show_nat n = (if n < 10 then [char_of (48 + n)] else show_nat (n div 10) @ [char_of (48 + n mod 10)])"

declare show_nat.simps [simp del]

definition show_int :: "int \<Rightarrow> string" where
  "show_int i = (if i < 0 then CHR ''-'' # show_nat (nat (- i)) else show_nat (nat i))"

section \<open>Base64\<close>

definition ALPHABET :: string where
  "ALPHABET = ''ABCDEFGHIJKLMNOPQRSTUVWXYZabcdefghijklmnopqrstuvwxyz0123456789+/''"

text \<open>The body of the loop of \<open>base64_encode\<close> over the chunks of three bytes.\<close>

definition b64_word :: "u8 \<Rightarrow> u8 \<Rightarrow> u8 \<Rightarrow> u32" where
  "b64_word a b c = push_bit 16 (ucast a) OR push_bit 8 (ucast b) OR ucast c"

definition b64_sym :: "u32 \<Rightarrow> nat \<Rightarrow> char" where
  "b64_sym n k = ALPHABET ! unat (drop_bit k n AND 0x3f)"

fun base64_encode :: "bytes \<Rightarrow> string" where
  "base64_encode [] = []"
| "base64_encode [a] = (let n = b64_word a 0 0 in [b64_sym n 18, b64_sym n 12, CHR ''='', CHR ''=''])"
| "base64_encode [a, b] = (let n = b64_word a b 0 in [b64_sym n 18, b64_sym n 12, b64_sym n 6, CHR ''=''])"
| "base64_encode (a # b # c # rest) =
     (let n = b64_word a b c in [b64_sym n 18, b64_sym n 12, b64_sym n 6, b64_sym n 0]) @ base64_encode rest"

definition b64_val :: "char \<Rightarrow> u32 option" where
  "b64_val ch =
     (let c = of_char ch :: nat in
      if 65 \<le> c \<and> c \<le> 90 then Some (of_nat (c - 65))
      else if 97 \<le> c \<and> c \<le> 122 then Some (of_nat (c - 97 + 26))
      else if 48 \<le> c \<and> c \<le> 57 then Some (of_nat (c - 48 + 52))
      else if c = 43 \<or> c = 45 then Some 62
      else if c = 47 \<or> c = 95 then Some 63
      else None)"

text \<open>The loop over the symbols, with the 32-bit buffer and the number of bits in it.\<close>

fun b64_loop :: "u32 \<Rightarrow> nat \<Rightarrow> string \<Rightarrow> bytes option" where
  "b64_loop buf bits [] = Some []"
| "b64_loop buf bits (c # cs) =
     (case b64_val c of
        None \<Rightarrow> None
      | Some v \<Rightarrow>
          let buf = push_bit 6 buf OR v; bits = bits + 6
          in if 8 \<le> bits
             then map_option (\<lambda>out. ucast (drop_bit (bits - 8) buf) # out) (b64_loop buf (bits - 8) cs)
             else b64_loop buf bits cs)"

definition b64_decode :: "string \<Rightarrow> bytes option" where
  "b64_decode s = b64_loop 0 0 (trim_end_matches (\<lambda>c. c = CHR ''='') s)"

definition base64_decode :: "string \<Rightarrow> bytes option" where
  "base64_decode s = b64_loop 0 0 (trim_end_matches (\<lambda>c. c = CHR ''='') (trim s))"

section \<open>Addresses\<close>

definition crc16_step :: "u16 \<Rightarrow> u16" where
  "crc16_step crc = (if crc AND 0x8000 \<noteq> 0 then push_bit 1 crc XOR 0x1021 else push_bit 1 crc)"

definition crc16_ccitt :: "bytes \<Rightarrow> u16" where
  "crc16_ccitt data = fold (\<lambda>b crc. (crc16_step ^^ 8) (crc XOR push_bit 8 (ucast b))) data 0"

definition to_raw_bytes :: "wallet_address \<Rightarrow> bytes" where
  "to_raw_bytes w = be_bytes_of 4 (of_int (workchain w) :: u32) @ account w"

definition from_raw_str :: "crypto \<Rightarrow> string \<Rightarrow> wallet_address option" where
  "from_raw_str C s = do {
     (wc, hexpart) \<leftarrow> split_once (CHR '':'') s;
     w \<leftarrow> parse_i32 wc;
     b \<leftarrow> hex_dec C hexpart;
     if length b \<noteq> 32 then None else Some \<lparr>workchain = w, account = b\<rparr>
   }"

definition to_raw_string :: "crypto \<Rightarrow> wallet_address \<Rightarrow> string" where
  "to_raw_string C w = show_int (workchain w) @ '':'' @ hex_enc C (account w)"

definition from_base64_str :: "string \<Rightarrow> wallet_address option" where
  "from_base64_str s = do {
     b \<leftarrow> b64_decode (trim s);
     if length b \<noteq> 36 then None
     else (let want = push_bit 8 (ucast (b ! 34) :: u16) OR ucast (b ! 35)
           in if crc16_ccitt (take 34 b) \<noteq> want then None
              else Some \<lparr>workchain = sint (b ! 1), account = take 32 (drop 2 b)\<rparr>)
   }"

definition from_any_str :: "crypto \<Rightarrow> string \<Rightarrow> wallet_address option" where
  "from_any_str C s =
     (let t = trim s in if CHR '':'' \<in> set t then from_raw_str C t else from_base64_str t)"

definition valid_address :: "wallet_address \<Rightarrow> bool" where
  "valid_address w \<longleftrightarrow> length (account w) = 32 \<and> - (2 ^ 31) \<le> workchain w \<and> workchain w < 2 ^ 31"

text \<open>Documented behaviour of the hex crate: the lower-case alphabet.\<close>

definition hex_alphabet :: "crypto \<Rightarrow> bool" where
  "hex_alphabet C \<longleftrightarrow> (\<forall>b. set (hex_enc C b) \<subseteq> set ''0123456789abcdef'' \<and> (b \<noteq> [] \<longrightarrow> hex_enc C b \<noteq> []))"

text \<open>The hex codec of the crate, written out for examples.\<close>

definition hex_digit :: "nat \<Rightarrow> char" where "hex_digit n = ''0123456789abcdef'' ! n"

definition hex_value :: "char \<Rightarrow> nat option" where
  "hex_value c = map_of (zip ''0123456789abcdef'' [0..<16]) c"

definition hex_encode_ref :: "bytes \<Rightarrow> string" where
  "hex_encode_ref b = concat (map (\<lambda>w. [hex_digit (unat w div 16), hex_digit (unat w mod 16)]) b)"

fun hex_decode_ref :: "string \<Rightarrow> bytes option" where
  "hex_decode_ref [] = Some []"
| "hex_decode_ref [c] = None"
| "hex_decode_ref (c # d # r) = do {
     x \<leftarrow> hex_value c; y \<leftarrow> hex_value d; out \<leftarrow> hex_decode_ref r; Some (of_nat (16 * x + y) # out)
   }"

definition hex_crypto :: crypto where
  "hex_crypto = (toy_crypto (\<lambda>_. True))\<lparr>hex_enc := hex_encode_ref, hex_dec := hex_decode_ref\<rparr>"

section \<open>Base64 round trip\<close>

lemma digit_val_char: "d < 10 \<Longrightarrow> digit_val (char_of (48 + d)) = Some d"
  by (simp add: digit_val_def)

lemma parse_digits_append:
  "parse_digits acc (xs @ ys) = Option.bind (parse_digits acc xs) (\<lambda>a. parse_digits a ys)"
  by (induction xs arbitrary: acc) (auto split: option.split)

lemma parse_show_nat: "parse_digits 0 (show_nat n) = Some n"
proof (induction n rule: show_nat.induct)
  case (1 n)
  show ?case
  proof (cases "n < 10")
    case True
    then show ?thesis by (simp add: show_nat.simps [of n] digit_val_char)
  next
    case False
    then have "parse_digits 0 (show_nat n) = parse_digits (n div 10) [char_of (48 + n mod 10)]"
      using 1 by (simp add: show_nat.simps [of n] parse_digits_append)
    then show ?thesis by (simp add: digit_val_char)
  qed
qed

lemma show_nat_chars: "c \<in> set (show_nat n) \<Longrightarrow> 48 \<le> (of_char c :: nat) \<and> (of_char c :: nat) \<le> 57"
proof (induction n rule: show_nat.induct)
  case (1 n)
  then show ?case by (cases "n < 10") (auto simp: show_nat.simps [of n])
qed

lemma show_nat_nonempty: "show_nat n \<noteq> []"
  by (simp add: show_nat.simps)

lemma b64_val_alphabet: "i < 64 \<Longrightarrow> b64_val (ALPHABET ! i) = Some (of_nat i)"
proof -
  have "map b64_val ALPHABET = map (\<lambda>i. Some (of_nat i)) [0..<64]" by code_simp
  then have "map b64_val ALPHABET ! i = map (\<lambda>i. Some (of_nat i)) [0..<64] ! i" by simp
  moreover assume "i < 64"
  moreover have "length ALPHABET = 64" by code_simp
  ultimately show ?thesis by simp
qed

lemma and_63_less: "unat (w AND 0x3f :: u32) < 64"
proof -
  have "w AND 0x3f \<le> 0x3f" by (rule word_and_le1)
  then show ?thesis by (simp add: word_le_nat_alt)
qed

lemma b64_val_sym: "b64_val (b64_sym n k) = Some (drop_bit k n AND 0x3f)"
  by (simp add: b64_sym_def b64_val_alphabet and_63_less)


lemma b64_mask: "(0x3f :: u32) = mask 6" by (simp add: mask_eq_exp_minus_1)

lemmas b64_bits = bit_push_bit_iff bit_drop_bit_eq bit_unsigned_iff bit_or_iff bit_and_iff bit_mask_iff

lemma bit_b64_word:
  "k < 8 \<Longrightarrow> bit (b64_word a b c) k = bit c k"
  "k < 8 \<Longrightarrow> bit (b64_word a b c) (k + 8) = bit b k"
  "k < 8 \<Longrightarrow> bit (b64_word a b c) (k + 16) = bit a k"
  by (auto simp: b64_word_def b64_bits dest: bit_imp_le_length)

lemma bit_shift_in:
  fixes buf v :: u32
  assumes "k < 26"
  shows "bit (push_bit 6 buf OR (v AND 0x3f)) k = (if k < 6 then bit v k else bit buf (k - 6))"
  using assms by (auto simp: b64_mask b64_bits)

lemma b64_bytes:
  fixes buf :: u32 and a b c :: u8
  defines "w \<equiv> b64_word a b c"
  defines "s0 \<equiv> push_bit 6 buf OR (drop_bit 18 w AND 0x3f)"
  defines "s1 \<equiv> push_bit 6 s0 OR (drop_bit 12 w AND 0x3f)"
  defines "s2 \<equiv> push_bit 6 s1 OR (drop_bit 6 w AND 0x3f)"
  defines "s3 \<equiv> push_bit 6 s2 OR (drop_bit 0 w AND 0x3f)"
  shows "ucast (drop_bit 4 s1) = a" "ucast (drop_bit 2 s2) = b" "ucast (drop_bit 0 s3) = c"
proof -
  note sh = bit_shift_in [of _ _ "drop_bit _ w"]
  have t: "k < 26 \<Longrightarrow> bit s3 k = (if k < 6 then bit (drop_bit 0 w) k else bit s2 (k - 6))"
    "k < 26 \<Longrightarrow> bit s2 k = (if k < 6 then bit (drop_bit 6 w) k else bit s1 (k - 6))"
    "k < 26 \<Longrightarrow> bit s1 k = (if k < 6 then bit (drop_bit 12 w) k else bit s0 (k - 6))"
    "k < 26 \<Longrightarrow> bit s0 k = (if k < 6 then bit (drop_bit 18 w) k else bit buf (k - 6))" for k
    unfolding s3_def s2_def s1_def s0_def by (fact sh)+
  have b3: "bit s3 k = bit w k" if "k < 12" for k
    using that by (auto simp: t bit_drop_bit_eq)
  have b2: "bit s2 k = bit w (k + 6)" if "k < 12" for k
    using that by (auto simp: t bit_drop_bit_eq add.commute)
  have b1: "bit s1 k = bit w (k + 12)" if "k < 12" for k
    using that by (auto simp: t bit_drop_bit_eq add.commute)
  show "ucast (drop_bit 4 s1) = a"
    by (rule bit_word_eqI) (simp add: bit_unsigned_iff bit_drop_bit_eq b1 w_def bit_b64_word(3) ac_simps)
  show "ucast (drop_bit 2 s2) = b"
    by (rule bit_word_eqI) (simp add: bit_unsigned_iff bit_drop_bit_eq b2 w_def bit_b64_word(2) ac_simps)
  show "ucast (drop_bit 0 s3) = c"
    by (rule bit_word_eqI) (simp add: bit_unsigned_iff b3 w_def bit_b64_word(1))
qed

lemma b64_loop_syms:
  "b64_loop buf 0 (b64_sym (b64_word a b c) 18 # b64_sym (b64_word a b c) 12 # xs) =
    map_option (Cons a) (b64_loop (push_bit 6 (push_bit 6 buf OR (drop_bit 18 (b64_word a b c) AND 0x3f)) OR
      (drop_bit 12 (b64_word a b c) AND 0x3f)) 4 xs)"
  "b64_loop buf 0 (b64_sym (b64_word a b c) 18 # b64_sym (b64_word a b c) 12 # b64_sym (b64_word a b c) 6 # []) =
    Some [a, b]"
  "\<exists>buf'. b64_loop buf 0 (b64_sym (b64_word a b c) 18 # b64_sym (b64_word a b c) 12 # b64_sym (b64_word a b c) 6
      # b64_sym (b64_word a b c) 0 # xs) = map_option (\<lambda>out. a # b # c # out) (b64_loop buf' 0 xs)"
  using b64_bytes [of buf a b c]
  by (auto simp: b64_val_sym Let_def option.map_comp comp_def simp del: push_bit_or push_bit_and)

lemma b64_sym_char: "b64_sym n k \<in> set ALPHABET"
proof -
  have "length ALPHABET = 64" by code_simp
  then show ?thesis using and_63_less [of "drop_bit k n"] by (simp add: b64_sym_def)
qed

lemma alphabet_chars: "c \<in> set ALPHABET \<Longrightarrow> c \<noteq> CHR ''='' \<and> \<not> is_space c"
proof -
  have "list_all (\<lambda>c. c \<noteq> CHR ''='' \<and> \<not> is_space c) ALPHABET" by code_simp
  then show "c \<in> set ALPHABET \<Longrightarrow> c \<noteq> CHR ''='' \<and> \<not> is_space c" by (simp add: list_all_iff)
qed

lemma b64_sym_neq [simp]: "b64_sym n k \<noteq> CHR ''=''" "\<not> is_space (b64_sym n k)"
  using alphabet_chars [OF b64_sym_char] by auto

lemma b64_loop_encode:
  "b64_loop buf 0 (filter (\<lambda>c. c \<noteq> CHR ''='') (base64_encode d)) = Some d"
proof (induction d arbitrary: buf rule: base64_encode.induct)
  case (4 a b c rest)
  obtain buf' where "\<And>xs. b64_loop buf 0 (b64_sym (b64_word a b c) 18 # b64_sym (b64_word a b c) 12 # b64_sym (b64_word a b c) 6
      # b64_sym (b64_word a b c) 0 # xs) = map_option (\<lambda>out. a # b # c # out) (b64_loop (buf' xs) 0 xs)"
    using b64_loop_syms(3) by metis
  then show ?case by (simp add: Let_def 4)
next
  case (3 a b)
  then show ?case by (simp add: Let_def b64_loop_syms(2) del: b64_loop.simps(2))
qed (simp_all add: Let_def b64_loop_syms(1) del: b64_loop.simps(2))

lemma base64_encode_padding:
  "\<exists>k. base64_encode d = filter (\<lambda>c. c \<noteq> CHR ''='') (base64_encode d) @ replicate k (CHR ''='')"
proof (induction d rule: base64_encode.induct)
  case (2 a)
  show ?case by (rule exI [of _ 2]) (simp add: Let_def numeral_eq_Suc)
next
  case (3 a b)
  show ?case by (rule exI [of _ 1]) (simp add: Let_def)
next
  case (4 a b c rest)
  then show ?case by (auto simp: Let_def)
qed simp

lemma trim_id: "list_all (\<lambda>c. \<not> is_space c) s \<Longrightarrow> trim s = s"
proof -
  assume a: "list_all (\<lambda>c. \<not> is_space c) s"
  have "dropWhile is_space xs = xs" if "list_all (\<lambda>c. \<not> is_space c) xs" for xs
    using that by (cases xs) auto
  with a show ?thesis by (simp add: trim_def trim_start_def trim_end_matches_def)
qed

lemma trim_pad:
  assumes "list_all (\<lambda>c. \<not> is_space c) s" "list_all is_space l" "list_all is_space r" "s \<noteq> []"
  shows "trim (l @ s @ r) = s"
proof -
  have sp: "dropWhile is_space (xs @ ys) = dropWhile is_space ys" if "list_all is_space xs" for xs ys
    using that by (induction xs) simp_all
  have ns: "dropWhile is_space (xs @ ys) = xs @ ys" if "list_all (\<lambda>c. \<not> is_space c) xs" "xs \<noteq> []" for xs ys
    using that by (cases xs) auto
  have "trim_end_matches is_space (l @ s @ r) = l @ s"
    using assms sp [of "rev r" "rev s @ rev l"] ns [of "rev s" "rev l"]
    by (simp add: trim_end_matches_def list_all_rev)
  then show ?thesis using assms sp [of l s] ns [of s "[]"] by (simp add: trim_def trim_start_def)
qed

lemma no_space_encode: "list_all (\<lambda>c. \<not> is_space c) (base64_encode d)"
  by (induction d rule: base64_encode.induct) (simp_all add: Let_def is_space_def [of "CHR ''=''"])

lemma trim_padding: "trim_end_matches (\<lambda>c. c = CHR ''='') (base64_encode d) = filter (\<lambda>c. c \<noteq> CHR ''='') (base64_encode d)"
proof -
  let ?b = "filter (\<lambda>c. c \<noteq> CHR ''='') (base64_encode d)"
  obtain k where k: "base64_encode d = ?b @ replicate k (CHR ''='')" using base64_encode_padding by blast
  have "dropWhile (\<lambda>c. c = CHR ''='') (replicate k (CHR ''='') @ rev ?b) = dropWhile (\<lambda>c. c = CHR ''='') (rev ?b)"
    by (induction k) simp_all
  also have "\<dots> = rev ?b"
    using hd_in_set [of "rev ?b"] by (cases "?b = []") (auto simp: dropWhile_eq_self_iff)
  finally show ?thesis by (subst k) (simp add: trim_end_matches_def)
qed

lemma split_once_append: "c \<notin> set xs \<Longrightarrow> split_once c (xs @ c # ys) = Some (xs, ys)"
proof -
  assume "c \<notin> set xs"
  then have "\<forall>x\<in>set xs. x \<noteq> c" by auto
  then show ?thesis by (simp add: split_once_def takeWhile_append2 dropWhile_append2)
qed

lemma show_int_chars: "c \<in> set (show_int i) \<Longrightarrow> c \<noteq> CHR '':'' \<and> \<not> is_space c"
  by (auto simp: show_int_def is_space_def dest: show_nat_chars split: if_splits)

lemma show_nat_head:
  assumes "show_nat n = c # cs" shows "c \<noteq> CHR ''-''" "c \<noteq> CHR ''+''"
  using assms show_nat_chars [of c n] by auto

lemma parse_show_int:
  assumes "- (2 ^ 31) \<le> i" "i < 2 ^ 31"
  shows "parse_i32 (show_int i) = Some i"
proof (cases "i < 0")
  case True
  then show ?thesis
    using assms by (simp add: show_int_def parse_i32_def parse_show_nat show_nat_nonempty)
next
  case False
  obtain c cs where c: "show_nat (nat i) = c # cs" using show_nat_nonempty by (cases "show_nat (nat i)") auto
  from show_nat_head [OF this] parse_show_nat [of "nat i"] False assms c show ?thesis
    by (simp add: show_int_def parse_i32_def)
qed

lemma hex_chars:
  "hex_alphabet C \<Longrightarrow> list_all (\<lambda>c. \<not> is_space c) (hex_enc C b)"
proof -
  have "list_all (\<lambda>c. \<not> is_space c) ''0123456789abcdef''" by code_simp
  then show "hex_alphabet C \<Longrightarrow> list_all (\<lambda>c. \<not> is_space c) (hex_enc C b)"
    unfolding hex_alphabet_def list_all_iff by blast
qed


lemma hex_value_digit: "n < 16 \<Longrightarrow> hex_value (hex_digit n) = Some n"
proof -
  have "map (\<lambda>n. hex_value (hex_digit n)) [0..<16] = map Some [0..<16]" by code_simp
  then have "\<forall>n\<in>{0..<16}. hex_value (hex_digit n) = Some n" by simp
  then show "n < 16 \<Longrightarrow> hex_value (hex_digit n) = Some n" by simp
qed

lemma hex_ref_roundtrip: "hex_decode_ref (hex_encode_ref b) = Some b"
proof (induction b)
  case Nil
  then show ?case by (simp add: hex_encode_ref_def)
next
  case (Cons w b)
  have "unat w < 256" using unsigned_less [of w] by simp
  then have "unat w div 16 < 16" by simp
  then show ?case using Cons
    by (simp add: hex_encode_ref_def hex_value_digit del: of_nat_add of_nat_mult)
qed

lemma hex_crypto_ok: "hex_ok hex_crypto" "hex_alphabet hex_crypto"
proof -
  show "hex_ok hex_crypto" by (simp add: hex_ok_def hex_crypto_def hex_ref_roundtrip)
  have "unat w < 256" for w :: u8 using unsigned_less [of w] by simp
  then have "unat w div 16 < 16" for w :: u8 by (simp add: less_mult_imp_div_less)
  then have "c \<in> hex_digit ` {0..<16}" if "c \<in> set (hex_encode_ref b)" for c b
    using that unfolding hex_encode_ref_def by auto
  moreover have "hex_digit ` {0..<16} \<subseteq> set ''0123456789abcdef''"
  proof
    fix c
    assume "c \<in> hex_digit ` {0..<16}"
    then obtain n where "c = ''0123456789abcdef'' ! n" "n < 16" by (auto simp: hex_digit_def)
    moreover have "length ''0123456789abcdef'' = 16" by simp
    ultimately show "c \<in> set ''0123456789abcdef''" by (simp only: nth_mem)
  qed
  ultimately have "set (hex_encode_ref b) \<subseteq> set ''0123456789abcdef''" for b by blast
  moreover have "b \<noteq> [] \<longrightarrow> hex_encode_ref b \<noteq> []" for b
    by (cases b) (simp_all add: hex_encode_ref_def)
  ultimately show "hex_alphabet hex_crypto"
    by (simp add: hex_alphabet_def hex_crypto_def)
qed

section \<open>Properties\<close>

text \<open>base64 decoding inverts base64 encoding, on every byte string.\<close>

theorem base64_roundtrip: "base64_decode (base64_encode d) = Some d"
  by (simp add: base64_decode_def trim_id no_space_encode trim_padding b64_loop_encode)

text \<open>
  printing an address in its raw form and parsing it with the entry point that accepts every
  form gives the address back, also with white space around it.
\<close>

theorem raw_address_roundtrip:
  assumes "hex_ok C" "hex_alphabet C" "valid_address w" "list_all is_space l" "list_all is_space r"
  shows "from_any_str C (l @ to_raw_string C w @ r) = Some w"
proof -
  let ?s = "to_raw_string C w"
  have ns: "list_all (\<lambda>c. \<not> is_space c) ?s"
    using hex_chars [OF assms(2), of "account w"] show_int_chars
    by (auto simp: to_raw_string_def list_all_iff is_space_def [of "CHR '':''"])
  have t: "trim (l @ ?s @ r) = ?s" by (rule trim_pad [OF ns assms(4,5)]) (simp add: to_raw_string_def)
  have colon: "CHR '':'' \<notin> set (show_int (workchain w))" using show_int_chars by blast
  have "from_raw_str C ?s = Some w"
    using assms(1,3) parse_show_int [of "workchain w"] split_once_append [OF colon, of "hex_enc C (account w)"]
    by (simp add: from_raw_str_def to_raw_string_def valid_address_def hex_ok_def)
  then show ?thesis by (simp add: from_any_str_def t Let_def) (simp add: to_raw_string_def)
qed

theorem raw_address_roundtrip_witness:
  "from_any_str hex_crypto ('' '' @ to_raw_string hex_crypto \<lparr>workchain = -1, account = replicate 32 0xab\<rparr> @ [])
    = Some \<lparr>workchain = -1, account = replicate 32 0xab\<rparr>"
  by (rule raw_address_roundtrip [OF hex_crypto_ok]) (simp_all add: valid_address_def is_space_def)

end
