(* ===== verification/Faults.thy ===== *)
theory Faults
  imports Receipt Address Complex_Main "HOL-Library.Sublist"
begin

text \<open>
  Fault attribution and the retry primitives: \<open>crates/trust/src/antiabuse.rs\<close> (classification of
  failures, job consensus, requester weight, detection of non-deterministic queries) and
  \<open>crates/node/src/retry.rs\<close> (\<open>Backoff\<close>, \<open>TokenBucket\<close>, \<open>FaultTally\<close>). Strings are bytes, fractions
  and token counts are reals; the random number generator is an argument.
\<close>

section \<open>Failure classes\<close>

definition ascii_lower :: "char \<Rightarrow> char" where
  "ascii_lower c = (let n = of_char c :: nat in if 65 \<le> n \<and> n \<le> 90 then char_of (n + 32) else c)"

definition to_ascii_lowercase :: "string \<Rightarrow> string" where
  "to_ascii_lowercase s = map ascii_lower s"

text \<open>\<open>str::contains\<close>.\<close>

fun str_contains :: "string \<Rightarrow> string \<Rightarrow> bool" where
  "str_contains [] p \<longleftrightarrow> p = []"
| "str_contains (c # s) p \<longleftrightarrow> prefix p (c # s) \<or> str_contains s p"

definition resource_markers :: "string list" where
  "resource_markers = [''out of memory'', ''could not allocate'', ''memory limit'', ''failed to allocate'',
     ''exceeds the memory limit'', ''resource exhaust'', ''too large'', ''disk quota'', ''no space left'',
     ''cap deadline exceeded'']"

definition infeasible_markers :: "string list" where
  "infeasible_markers = [''syntax error'', ''parser error'', ''binder error'', ''catalog error'',
     ''does not exist'', ''no such'', ''not found'', ''referenced table'', ''referenced column'',
     ''type mismatch'', ''conversion error'', ''permission'', ''no files found'']"

definition classify_failure :: "string \<Rightarrow> verdict" where
  "classify_failure err_msg =
     (let m = to_ascii_lowercase err_msg in
      if list_ex (str_contains m) resource_markers then ResourceExceeded
      else if list_ex (str_contains m) infeasible_markers then Infeasible
      else Inconclusive)"

definition clamp01 :: "real \<Rightarrow> real" where
  "clamp01 x = max 0 (min 1 x)"

definition is_job_consensus_failure :: "nat \<Rightarrow> nat \<Rightarrow> real \<Rightarrow> bool" where
  "is_job_consensus_failure same_failure selected fraction =
     (if selected < 2 then False
      else let need = nat \<lceil>clamp01 fraction * real selected\<rceil> in max need 2 \<le> same_failure)"

text \<open>\<open>age_factor\<close> of \<open>reputation.rs\<close>.\<close>

definition age_factor :: "nat \<Rightarrow> nat \<Rightarrow> real" where
  "age_factor observations saturation =
     (if saturation = 0 then 1 else min 1 (real observations / real saturation))"

definition requester_trust_weight :: "real option \<Rightarrow> nat \<Rightarrow> nat \<Rightarrow> real \<Rightarrow> real" where
  "requester_trust_weight reputation observations age_saturation fl =
     (let fl = clamp01 fl;
          age = age_factor observations age_saturation;
          rep = clamp01 (case reputation of None \<Rightarrow> 0 | Some r \<Rightarrow> r);
          standing = clamp01 (age * rep)
      in clamp01 (fl + (1 - fl) * standing))"

section \<open>Non-deterministic queries\<close>

definition fn_markers :: "string list" where
  "fn_markers = [''random('', ''now('', ''uuid('', ''gen_random_uuid('', ''nextval('', ''txid('',
     ''current_setting('', ''version('', ''random()'']"

definition current_markers :: "string list" where
  "current_markers = [''current_date'', ''current_time'', ''current_timestamp'', ''current_localtime'',
     ''current_localtimestamp'', ''localtime'', ''localtimestamp'', ''get_current_time'', ''current_query'']"

definition is_ident_byte :: "char \<Rightarrow> bool" where
  "is_ident_byte c = (let n = of_char c :: nat in
     48 \<le> n \<and> n \<le> 57 \<or> 65 \<le> n \<and> n \<le> 90 \<or> 97 \<le> n \<and> n \<le> 122 \<or> c = CHR ''_'')"

text \<open>\<open>str::find\<close>.\<close>

fun str_find :: "string \<Rightarrow> string \<Rightarrow> nat option" where
  "str_find [] p = (if p = [] then Some 0 else None)"
| "str_find (c # s) p = (if prefix p (c # s) then Some 0 else map_option Suc (str_find s p))"

text \<open>The loop of \<open>contains_word\<close> from position \<open>i\<close>.\<close>

function contains_word_from :: "string \<Rightarrow> string \<Rightarrow> nat \<Rightarrow> bool" where
  "contains_word_from s word i =
     (case str_find (drop i s) word of
        None \<Rightarrow> False
      | Some pos \<Rightarrow>
          let start = i + pos; end = start + length word;
              before_ok = (start = 0 \<or> \<not> is_ident_byte (s ! (start - 1)));
              after_ok = (length s \<le> end \<or> \<not> is_ident_byte (s ! end))
          in if before_ok \<and> after_ok then True
             else if length s \<le> start + 1 then False
             else contains_word_from s word (start + 1))"
  by pat_completeness auto

termination by (relation "measure (\<lambda>(s, word, i). length s - i)") auto

definition contains_word :: "string \<Rightarrow> string \<Rightarrow> bool" where
  "contains_word s word = contains_word_from s word 0"

definition is_nondeterministic :: "string \<Rightarrow> bool" where
  "is_nondeterministic sql =
     (let s = to_ascii_lowercase sql in
      if list_ex (str_contains s) fn_markers then True
      else if list_ex (str_contains s) current_markers then True
      else contains_word s ''limit'' \<and> \<not> str_contains s ''order by'')"

section \<open>Backoff\<close>

record backoff =
  initial_ms :: nat
  max_ms :: nat
  jitter_frac :: real
  bo_attempt :: nat

definition backoff_new :: "nat \<Rightarrow> nat \<Rightarrow> real \<Rightarrow> backoff" where
  "backoff_new i m j = \<lparr>initial_ms = i, max_ms = max m i, jitter_frac = clamp01 j, bo_attempt = 0\<rparr>"

text \<open>\<open>checked_shl\<close> on \<open>u64\<close>: only the shift amount is checked, bits shifted out are lost.\<close>

definition checked_shl64 :: "nat \<Rightarrow> nat \<Rightarrow> nat option" where
  "checked_shl64 x k = (if k < 64 then Some (x * 2 ^ k mod 2 ^ 64) else None)"

definition base_delay_ms :: "backoff \<Rightarrow> nat" where
  "base_delay_ms b =
     (let shift = min (bo_attempt b) 63;
          scaled = (case checked_shl64 (initial_ms b) shift of None \<Rightarrow> max_ms b | Some x \<Rightarrow> x)
      in min scaled (max_ms b))"

text \<open>\<open>next_delay\<close>; \<open>gen lo hi\<close> stands for \<open>gen_range(lo..=hi)\<close>.\<close>

definition next_delay :: "(nat \<Rightarrow> nat \<Rightarrow> nat) \<Rightarrow> backoff \<Rightarrow> nat \<times> backoff" where
  "next_delay gen b =
     (let bs = base_delay_ms b;
          b' = b\<lparr>bo_attempt := sat_add u32_max (bo_attempt b) 1\<rparr>
      in if bs = 0 then (0, b')
         else let lo = nat (round (real bs * (1 - jitter_frac b)));
                  hi = bs
              in (if hi \<le> lo then hi else gen lo hi, b'))"

definition backoff_reset :: "backoff \<Rightarrow> backoff" where
  "backoff_reset b = b\<lparr>bo_attempt := 0\<rparr>"

section \<open>The retry budget\<close>

record token_bucket =
  tokens :: real
  capacity :: real
  refill_per_sec :: real

definition bucket_new :: "real \<Rightarrow> real \<Rightarrow> token_bucket" where
  "bucket_new c r = \<lparr>tokens = max c 0, capacity = max c 0, refill_per_sec = max r 0\<rparr>"

definition is_unlimited :: "token_bucket \<Rightarrow> bool" where
  "is_unlimited b \<longleftrightarrow> capacity b = 0"

definition refill :: "real \<Rightarrow> token_bucket \<Rightarrow> token_bucket" where
  "refill elapsed b =
     (if is_unlimited b then b
      else b\<lparr>tokens := min (tokens b + refill_per_sec b * elapsed) (capacity b)\<rparr>)"

definition try_take :: "token_bucket \<Rightarrow> bool \<times> token_bucket" where
  "try_take b =
     (if is_unlimited b then (True, b)
      else if 1 \<le> tokens b then (True, b\<lparr>tokens := tokens b - 1\<rparr>)
      else (False, b))"

section \<open>Fault tally\<close>

text \<open>The UTF-8 bytes of the dash in the messages.\<close>

definition em_dash :: string where
  "em_dash = map char_of [226 :: nat, 128, 148]"

record fault_tally =
  selected :: nat
  resource_exceeded :: nat
  infeasible :: nat
  silent_count :: nat
  committed :: nat

definition tally_new :: "nat \<Rightarrow> fault_tally" where
  "tally_new n = \<lparr>selected = n, resource_exceeded = 0, infeasible = 0, silent_count = 0, committed = 0\<rparr>"

definition tally_record :: "verdict \<Rightarrow> fault_tally \<Rightarrow> fault_tally" where
  "tally_record v t =
     (case v of
        ResourceExceeded \<Rightarrow> t\<lparr>resource_exceeded := resource_exceeded t + 1\<rparr>
      | Infeasible \<Rightarrow> t\<lparr>infeasible := infeasible t + 1\<rparr>
      | _ \<Rightarrow> t\<lparr>silent_count := silent_count t + 1\<rparr>)"

definition record_committed :: "fault_tally \<Rightarrow> fault_tally" where
  "record_committed t = t\<lparr>committed := committed t + 1\<rparr>"

definition record_silent :: "fault_tally \<Rightarrow> fault_tally" where
  "record_silent t = t\<lparr>silent_count := silent_count t + 1\<rparr>"

definition is_consensus_infeasible :: "real \<Rightarrow> fault_tally \<Rightarrow> bool" where
  "is_consensus_infeasible fraction t = is_job_consensus_failure (infeasible t) (selected t) fraction"

definition is_consensus_resource_exceeded :: "real \<Rightarrow> fault_tally \<Rightarrow> bool" where
  "is_consensus_resource_exceeded fraction t = is_job_consensus_failure (resource_exceeded t) (selected t) fraction"

definition consensus_reason :: "real \<Rightarrow> fault_tally \<Rightarrow> string option" where
  "consensus_reason fraction t =
     (if is_job_consensus_failure (infeasible t) (selected t) fraction
      then Some (show_nat (infeasible t) @ ''/'' @ show_nat (selected t) @
        '' selected providers reported the query infeasible (missing data / unsatisfiable) '' @
        em_dash @ '' job fault, not a provider fault'')
      else None)"

definition resource_exceeded_reason :: "real \<Rightarrow> fault_tally \<Rightarrow> string option" where
  "resource_exceeded_reason fraction t =
     (if is_job_consensus_failure (resource_exceeded t) (selected t) fraction
      then Some (show_nat (resource_exceeded t) @ ''/'' @ show_nat (selected t) @
        '' selected providers exceeded resources running this query '' @ em_dash @
        '' too big for them; re-routing to higher-capacity nodes'')
      else None)"

section \<open>Searching\<close>

lemma str_contains_sublist: "str_contains s p \<longleftrightarrow> sublist p s"
  by (induction s) (auto simp: sublist_Cons_right)

lemma str_find_Some:
  "str_find s p = Some k \<Longrightarrow> k \<le> length s \<and> prefix p (drop k s) \<and> (\<forall>j<k. \<not> prefix p (drop j s))"
proof (induction s arbitrary: k)
  case Nil
  then show ?case by (simp split: if_splits)
next
  case (Cons c s)
  show ?case
  proof (cases "prefix p (c # s)")
    case True
    with Cons.prems show ?thesis by simp
  next
    case False
    with Cons.prems obtain m where m: "str_find s p = Some m" "k = Suc m" by auto
    then have "\<not> prefix p (drop j (c # s))" if "j < k" for j
      using Cons.IH [OF m(1)] False that by (cases j) simp_all
    with Cons.IH [OF m(1)] m(2) show ?thesis by simp
  qed
qed

lemma str_find_None: "str_find s p = None \<Longrightarrow> \<not> prefix p (drop j s)"
proof (induction s arbitrary: j)
  case Nil
  then show ?case by (simp split: if_splits)
next
  case (Cons c s)
  then show ?case by (cases j) (simp_all split: if_splits)
qed

text \<open>A delimited occurrence of the word at position \<open>k\<close>.\<close>

definition word_at :: "string \<Rightarrow> string \<Rightarrow> nat \<Rightarrow> bool" where
  "word_at s word k \<longleftrightarrow> prefix word (drop k s) \<and>
     (k = 0 \<or> \<not> is_ident_byte (s ! (k - 1))) \<and>
     (length s \<le> k + length word \<or> \<not> is_ident_byte (s ! (k + length word)))"

declare contains_word_from.simps [simp del]

lemma contains_word_from_iff:
  assumes "word \<noteq> []"
  shows "contains_word_from s word i \<longleftrightarrow> (\<exists>k\<ge>i. word_at s word k)"
proof (induction "length s - i" arbitrary: i rule: less_induct)
  case less
  note unf = contains_word_from.simps [of s word i]
  show ?case
  proof (cases "str_find (drop i s) word")
    case None
    have "\<not> word_at s word k" if "i \<le> k" for k
      using str_find_None [OF None, of "k - i"] that by (simp add: word_at_def)
    with None show ?thesis unfolding unf by auto
  next
    case (Some pos)
    note f = str_find_Some [OF Some]
    have before: "\<not> word_at s word k" if "i \<le> k" "k < i + pos" for k
    proof -
      from that have "k - i < pos" "drop k s = drop (k - i) (drop i s)" by simp_all
      with f show ?thesis unfolding word_at_def by metis
    qed
    have here: "prefix word (drop (i + pos) s)" using f by (simp add: add.commute)
    have short: "\<not> word_at s word k" if "length s \<le> k" for k
      using that assms by (simp add: word_at_def)
    from here assms have lt: "i + pos < length s" by (cases "i + pos < length s") simp_all
    have step: "contains_word_from s word i \<longleftrightarrow> word_at s word (i + pos) \<or>
        i + pos + 1 < length s \<and> contains_word_from s word (i + pos + 1)"
      unfolding unf Some using here by (auto simp: word_at_def Let_def)
    have ih: "contains_word_from s word (i + pos + 1) \<longleftrightarrow> (\<exists>k\<ge>i + pos + 1. word_at s word k)"
      using lt by (intro less) simp
    have split: "(\<exists>k\<ge>i. word_at s word k) \<longleftrightarrow> word_at s word (i + pos) \<or> (\<exists>k\<ge>i + pos + 1. word_at s word k)"
    proof
      assume "\<exists>k\<ge>i. word_at s word k"
      then obtain k where k: "i \<le> k" "word_at s word k" by blast
      with before [of k] have "k = i + pos \<or> i + pos + 1 \<le> k" by linarith
      with k show "word_at s word (i + pos) \<or> (\<exists>k\<ge>i + pos + 1. word_at s word k)" by blast
    next
      have "i \<le> i + pos" "\<And>k. i + pos + 1 \<le> k \<Longrightarrow> i \<le> k" by simp_all
      then show "word_at s word (i + pos) \<or> (\<exists>k\<ge>i + pos + 1. word_at s word k) \<Longrightarrow> \<exists>k\<ge>i. word_at s word k"
        by blast
    qed
    have "i + pos + 1 < length s" if "i + pos + 1 \<le> k" "word_at s word k" for k
      using short [of k] that by linarith
    then show ?thesis unfolding step ih split by blast
  qed
qed

lemma word_at_iff:
  assumes "word \<noteq> []"
  shows "(\<exists>k. word_at s word k) \<longleftrightarrow> (\<exists>pre post. s = pre @ word @ post \<and>
     (pre = [] \<or> \<not> is_ident_byte (last pre)) \<and> (post = [] \<or> \<not> is_ident_byte (hd post)))"
  (is "?l \<longleftrightarrow> ?r")
proof
  assume ?l
  then obtain k where k: "word_at s word k" by blast
  then obtain post where d: "drop k s = word @ post" by (auto simp: word_at_def prefix_def)
  then have s: "s = take k s @ word @ post" by (metis append_take_drop_id)
  show ?r
  proof (cases "k \<le> length s")
    case True
    then have l: "length (take k s) = k" by simp
    have "take k s = [] \<or> \<not> is_ident_byte (last (take k s))"
      using k True by (auto simp: word_at_def last_conv_nth)
    moreover have "post = [] \<or> \<not> is_ident_byte (hd post)"
    proof -
      have "s ! (k + length word) = hd post" if "post \<noteq> []"
        using s that l by (metis append_assoc hd_conv_nth length_append nth_append_length_plus add.right_neutral)
      moreover have "length s = k + length word + length post" using s l by (metis add.assoc length_append)
      ultimately show ?thesis using k by (auto simp: word_at_def)
    qed
    ultimately show ?thesis using s by blast
  next
    case False
    with d assms show ?thesis by simp
  qed
next
  assume ?r
  then obtain pre post where s: "s = pre @ word @ post" "pre = [] \<or> \<not> is_ident_byte (last pre)"
    "post = [] \<or> \<not> is_ident_byte (hd post)" by blast
  then have "word_at s word (length pre)"
    by (auto simp: word_at_def nth_append last_conv_nth hd_conv_nth)
  then show ?l ..
qed

lemma classify_failure_cases:
  "classify_failure m = ResourceExceeded \<or> classify_failure m = Infeasible \<or> classify_failure m = Inconclusive"
  by (simp add: classify_failure_def Let_def)

lemma consensus_need:
  "is_job_consensus_failure k n f \<Longrightarrow> 2 \<le> k \<and> 2 \<le> n \<and> clamp01 f * real n \<le> real k"
  by (auto simp: is_job_consensus_failure_def Let_def ceiling_le_iff nat_le_iff split: if_splits)

text \<open>Folding the classified failures of an attempt into a tally.\<close>

lemma tally_fold:
  "infeasible (fold tally_record vs t) = infeasible t + count_list vs Infeasible"
  "resource_exceeded (fold tally_record vs t) = resource_exceeded t + count_list vs ResourceExceeded"
  "selected (fold tally_record vs t) = selected t"
  by (induction vs arbitrary: t) (simp_all add: tally_record_def split: verdict.splits)

lemma count_list_two: "a \<noteq> b \<Longrightarrow> count_list xs a + count_list xs b \<le> length xs"
  by (induction xs) auto

section \<open>The retry budget\<close>

text \<open>Refill for the given time, then take: how often that was granted.\<close>

fun budget_grants :: "(real \<Rightarrow> 's \<Rightarrow> 's) \<Rightarrow> ('s \<Rightarrow> bool \<times> 's) \<Rightarrow> real list \<Rightarrow> 's \<Rightarrow> nat \<times> 's" where
  "budget_grants topup take1 [] s = (0, s)"
| "budget_grants topup take1 (t # es) s =
     (let (ok, s') = take1 (topup t s); (n, s'') = budget_grants topup take1 es s'
      in (n + (if ok then 1 else 0), s''))"

text \<open>
  What a budget of credits promises its clients: whatever the sequence of refills and takes, the
  credit stays between zero and its capacity, and a grant costs one unit.
\<close>

locale credit_budget =
  fixes credit :: "'s \<Rightarrow> real"
    and cap :: real
    and rate :: real
    and inv :: "'s \<Rightarrow> bool"
    and topup :: "real \<Rightarrow> 's \<Rightarrow> 's"
    and take1 :: "'s \<Rightarrow> bool \<times> 's"
  assumes inv_bounds: "inv s \<Longrightarrow> 0 \<le> credit s \<and> credit s \<le> cap"
    and inv_topup: "inv s \<Longrightarrow> 0 \<le> t \<Longrightarrow> inv (topup t s)"
    and inv_take: "inv s \<Longrightarrow> inv (snd (take1 s))"
    and topup_le: "inv s \<Longrightarrow> 0 \<le> t \<Longrightarrow> credit (topup t s) \<le> credit s + rate * t"
    and take_cost: "inv s \<Longrightarrow> credit (snd (take1 s)) = credit s - (if fst (take1 s) then 1 else 0)"
begin

lemma grants_bounded:
  "inv s \<Longrightarrow> list_all (\<lambda>t. 0 \<le> t) es \<Longrightarrow>
     real (fst (budget_grants topup take1 es s)) \<le> credit s + rate * sum_list es"
proof (induction es arbitrary: s)
  case Nil
  then show ?case using inv_bounds by simp
next
  case (Cons t es)
  let ?u = "topup t s"
  have u: "inv ?u" using Cons.prems inv_topup by simp
  have v: "inv (snd (take1 ?u))" using u inv_take by simp
  have "credit (snd (take1 ?u)) + (if fst (take1 ?u) then 1 else 0) \<le> credit s + rate * t"
    using take_cost [OF u] topup_le [of s t] Cons.prems by simp
  moreover have "real (fst (budget_grants topup take1 es (snd (take1 ?u)))) \<le> credit (snd (take1 ?u)) + rate * sum_list es"
    using Cons.IH [OF v] Cons.prems by simp
  ultimately show ?case
    by (simp add: Let_def case_prod_beta distrib_left split: if_splits)
qed

end

definition bucket_inv :: "real \<Rightarrow> real \<Rightarrow> token_bucket \<Rightarrow> bool" where
  "bucket_inv c r b \<longleftrightarrow> 0 < c \<and> capacity b = c \<and> refill_per_sec b = max r 0 \<and> 0 \<le> tokens b \<and> tokens b \<le> c"

interpretation retry_budget: credit_budget tokens c "max r 0" "bucket_inv c r" refill try_take for c r
  by unfold_locales (auto simp: bucket_inv_def refill_def try_take_def is_unlimited_def min_def)

lemma bucket_inv_new: "0 < c \<Longrightarrow> bucket_inv c r (bucket_new c r)"
  by (simp add: bucket_inv_def bucket_new_def)

section \<open>Backoff\<close>

lemma backoff_doubles:
  "initial_ms b * 2 ^ bo_attempt b < 2 ^ 64 \<Longrightarrow> bo_attempt b < 64 \<Longrightarrow>
     base_delay_ms b = min (initial_ms b * 2 ^ bo_attempt b) (max_ms b)"
  by (simp add: base_delay_ms_def checked_shl64_def)

lemma next_delay_bounds:
  assumes "\<And>lo hi. lo \<le> hi \<Longrightarrow> lo \<le> gen lo hi \<and> gen lo hi \<le> hi"
  shows "fst (next_delay gen b) \<le> base_delay_ms b \<and> base_delay_ms b \<le> max_ms b"
proof -
  have "base_delay_ms b \<le> max_ms b" by (simp add: base_delay_ms_def Let_def)
  moreover have "gen lo (base_delay_ms b) \<le> base_delay_ms b" if "\<not> base_delay_ms b \<le> lo" for lo
    using assms [of lo "base_delay_ms b"] that by simp
  ultimately show ?thesis by (simp add: next_delay_def Let_def)
qed

text \<open>
  The shift loses the high bits instead of failing: with the default schedule every delay from the
  62nd retry on is zero, not the maximum.
\<close>

lemma backoff_collapses:
  assumes "61 \<le> n"
  shows "base_delay_ms ((backoff_new 200 5000 j)\<lparr>bo_attempt := n\<rparr>) = 0"
proof -
  have "(200 :: nat) * 2 ^ k mod 2 ^ 64 = 0" if "61 \<le> k" for k
  proof -
    from that obtain d where "k = 61 + d" using le_Suc_ex by blast
    then have "(200 :: nat) * 2 ^ k = 25 * 2 ^ d * 2 ^ 64" by (simp add: power_add)
    then show ?thesis by (metis mod_mult_self2_is_0)
  qed
  from this [of "min n 63"] assms show ?thesis
    by (simp add: base_delay_ms_def checked_shl64_def backoff_new_def Let_def)
qed

section \<open>Properties\<close>

text \<open>
  the tokenising loop finds a word exactly when the query contains it as a token: an occurrence
  with no identifier character on either side.
\<close>

theorem contains_word_exact:
  assumes "word \<noteq> []"
  shows "contains_word s word \<longleftrightarrow> (\<exists>pre post. s = pre @ word @ post \<and>
    (pre = [] \<or> \<not> is_ident_byte (last pre)) \<and> (post = [] \<or> \<not> is_ident_byte (hd post)))"
  using contains_word_from_iff [OF assms, of s 0] word_at_iff [OF assms, of s]
  by (simp add: contains_word_def)

theorem contains_word_exact_witness:
  "contains_word ''unlimited limit 5'' ''limit''"
proof -
  have "''unlimited limit 5'' = ''unlimited '' @ ''limit'' @ '' 5''" by simp
  moreover have "\<not> is_ident_byte (last ''unlimited '')" "\<not> is_ident_byte (hd '' 5'')"
    by (simp_all add: is_ident_byte_def)
  ultimately show ?thesis using contains_word_exact [of "''limit''" "''unlimited limit 5''"] by blast
qed

text \<open>
  a failure is never blamed on the provider by its message, and no attempt is both a logically
  infeasible job, which stops the retries, and one that exceeds resources, which re-routes it,
  as long as a consensus is more than half of the selected providers.
\<close>

theorem fault_classes_sound:
  "\<not> is_provider_fault (classify_failure m) \<and>
   (1 / 2 < fraction \<and> length vs \<le> n \<longrightarrow>
     \<not> (is_consensus_infeasible fraction (fold tally_record vs (tally_new n)) \<and>
        is_consensus_resource_exceeded fraction (fold tally_record vs (tally_new n))))"
proof (intro conjI impI notI)
  show "is_provider_fault (classify_failure m) \<Longrightarrow> False"
    using classify_failure_cases [of m] by auto
next
  let ?t = "fold tally_record vs (tally_new n)"
  assume f: "1 / 2 < fraction \<and> length vs \<le> n"
    and c: "is_consensus_infeasible fraction ?t \<and> is_consensus_resource_exceeded fraction ?t"
  let ?i = "count_list vs Infeasible" and ?r = "count_list vs ResourceExceeded"
  from c have "is_job_consensus_failure ?i n fraction" "is_job_consensus_failure ?r n fraction"
    by (simp_all add: is_consensus_infeasible_def is_consensus_resource_exceeded_def tally_fold tally_new_def)
  from this [THEN consensus_need] have n: "2 \<le> n" "clamp01 fraction * real n \<le> real ?i"
    "clamp01 fraction * real n \<le> real ?r" by simp_all
  have "1 / 2 < clamp01 fraction" using f by (simp add: clamp01_def)
  then have "real n / 2 < clamp01 fraction * real n" using n(1) by simp
  then have "real n < real (?i + ?r)" using n by linarith
  then show False using count_list_two [of Infeasible ResourceExceeded vs] f by simp
qed

theorem fault_classes_sound_witness:
  "\<not> is_consensus_resource_exceeded (67 / 100)
     (fold tally_record [Infeasible, ResourceExceeded, Infeasible] (tally_new 3))"
proof -
  have "is_consensus_infeasible (67 / 100) (fold tally_record [Infeasible, ResourceExceeded, Infeasible] (tally_new 3))
    \<or> \<not> is_consensus_resource_exceeded (67 / 100) (fold tally_record [Infeasible, ResourceExceeded, Infeasible] (tally_new 3))"
    by (simp add: is_consensus_infeasible_def is_consensus_resource_exceeded_def tally_new_def tally_record_def
        is_job_consensus_failure_def clamp01_def ceiling_le_iff nat_le_iff)
  then show ?thesis
    using fault_classes_sound [of m "67 / 100" "[Infeasible, ResourceExceeded, Infeasible]" 3 for m] by auto
qed

end
