(* ===== verification/Reputation.thy ===== *)
theory Reputation
  imports Faults
begin

text \<open>
  The reputation store and the trust score, \<open>crates/trust/src/reputation.rs\<close>: observations of
  workers and requesters with replay defence and bounded memory, the measured capability and
  performance aggregates, and the scoring functions. Time stamps and sizes are naturals, ratios and
  weights are reals, hash sets are lists used as sets.
\<close>

section \<open>Observations and aggregates\<close>

text \<open>\<open>u64::from_le_bytes\<close> of the first eight bytes of the digest.\<close>

definition receipt_fingerprint :: "crypto \<Rightarrow> receipt \<Rightarrow> u64" where
  "receipt_fingerprint C r =
     word_rcat (rev (take 8 (blake3_hash C (as_bytes ''duckdb-p2p-receipt-fp-v1'' @
       as_bytes (job_id r) @ [0] @ as_bytes (requester_id r)))))"

record observation =
  obs_ts :: nat
  obs_correct :: bool
  obs_weight :: real
  obs_fp :: u64

record proven_capability =
  max_input_bytes :: nat
  max_result_rows :: nat
  max_result_bytes :: nat
  successes :: nat
  pc_last_ts :: nat

record perf_aggregate =
  ewma_latency_ms :: real
  ewma_bytes :: real
  ewma_throughput_bps :: real
  obs_count :: nat
  pa_last_ts :: nat

definition PERF_MIN_ALPHA :: real where "PERF_MIN_ALPHA = 1 / 10"

definition ewma_fold :: "real \<Rightarrow> real \<Rightarrow> real \<Rightarrow> real \<Rightarrow> real" where
  "ewma_fold prev sample dt half_life =
     (let decay = (if 0 < half_life then (1 / 2) powr (max dt 0 / half_life) else 0);
          alpha = max (1 - decay) PERF_MIN_ALPHA
      in prev * (1 - alpha) + sample * alpha)"

definition perf_fold :: "nat \<Rightarrow> nat \<Rightarrow> nat \<Rightarrow> real \<Rightarrow> perf_aggregate \<Rightarrow> perf_aggregate" where
  "perf_fold latency bytes t half_life agg =
     (let lat = real latency; by = real bytes; tput = by / (real (max latency 1) / 1000);
          agg = (if obs_count agg = 0
                 then agg\<lparr>ewma_latency_ms := lat, ewma_bytes := by, ewma_throughput_bps := tput\<rparr>
                 else let dt = real (t - pa_last_ts agg) in
                   agg\<lparr>ewma_latency_ms := ewma_fold (ewma_latency_ms agg) lat dt half_life,
                       ewma_bytes := ewma_fold (ewma_bytes agg) by dt half_life,
                       ewma_throughput_bps := ewma_fold (ewma_throughput_bps agg) tput dt half_life\<rparr>)
      in agg\<lparr>obs_count := sat_add u64_max (obs_count agg) 1, pa_last_ts := max (pa_last_ts agg) t\<rparr>)"

section \<open>The store\<close>

record worker_state =
  observations :: "observation list"
  seen :: "u64 list"
  ws_voucher :: real
  ws_penalty :: real
  capability :: proven_capability
  cap_seen :: "u64 list"
  cap_seen_order :: "u64 list"
  perf :: perf_aggregate
  perf_seen :: "u64 list"
  perf_seen_order :: "u64 list"

definition capability_default :: proven_capability where
  "capability_default = \<lparr>max_input_bytes = 0, max_result_rows = 0, max_result_bytes = 0, successes = 0,
     pc_last_ts = 0\<rparr>"

definition perf_default :: perf_aggregate where
  "perf_default = \<lparr>ewma_latency_ms = 0, ewma_bytes = 0, ewma_throughput_bps = 0, obs_count = 0, pa_last_ts = 0\<rparr>"

definition worker_new :: worker_state where
  "worker_new = \<lparr>observations = [], seen = [], ws_voucher = 0, ws_penalty = 0,
     capability = capability_default, cap_seen = [], cap_seen_order = [], perf = perf_default,
     perf_seen = [], perf_seen_order = []\<rparr>"

record trust_store =
  workers :: "(string, worker_state) hmap"
  worker_order :: "string list"
  requesters :: "(string, observation list) hmap"
  requester_order :: "string list"
  half_life_secs :: real
  max_obs_per_worker :: nat
  max_workers :: nat

definition trust_new :: "nat \<Rightarrow> nat \<Rightarrow> nat \<Rightarrow> trust_store" where
  "trust_new reputation_half_life_secs receipt_cache_per_worker trust_store_capacity =
     \<lparr>workers = [], worker_order = [], requesters = [], requester_order = [],
      half_life_secs = real reputation_half_life_secs,
      max_obs_per_worker = max receipt_cache_per_worker 1, max_workers = max trust_store_capacity 1\<rparr>"

definition decay_weight :: "trust_store \<Rightarrow> real \<Rightarrow> real" where
  "decay_weight s age = (if half_life_secs s \<le> 0 then 1 else (1 / 2) powr (max age 0 / half_life_secs s))"

text \<open>\<open>with_worker\<close>: make room and insert a fresh state when the worker is unknown, then apply \<open>f\<close>.\<close>

definition admit_worker :: "string \<Rightarrow> trust_store \<Rightarrow> trust_store" where
  "admit_worker w s =
     (if hcontains (workers s) w then s
      else let (ord, ws) = evict (max_workers s) (worker_order s) (workers s)
           in s\<lparr>workers := hput w worker_new ws, worker_order := ord @ [w]\<rparr>)"

definition with_worker :: "string \<Rightarrow> (worker_state \<Rightarrow> worker_state) \<Rightarrow> trust_store \<Rightarrow> trust_store" where
  "with_worker w f s =
     (let s = admit_worker w s in
      case hget (workers s) w of None \<Rightarrow> s | Some st \<Rightarrow> s\<lparr>workers := hput w (f st) (workers s)\<rparr>)"

text \<open>The loop \<open>while queue.len() > cap { pop_front; seen.remove }\<close>.\<close>

fun trim_seen :: "nat \<Rightarrow> ('a \<Rightarrow> u64) \<Rightarrow> 'a list \<Rightarrow> u64 list \<Rightarrow> 'a list \<times> u64 list" where
  "trim_seen cap key [] sn = ([], sn)"
| "trim_seen cap key (x # xs) sn =
     (if cap < length (x # xs) then trim_seen cap key xs (removeAll (key x) sn) else (x # xs, sn))"

definition note_receipt :: "crypto \<Rightarrow> nat \<Rightarrow> receipt \<Rightarrow> worker_state \<Rightarrow> worker_state" where
  "note_receipt C cap r st =
     (let fp = receipt_fingerprint C r in
      if fp \<in> set (seen st) then st
      else let ob = \<lparr>obs_ts = unat (ts r), obs_correct = is_correct (verdict r), obs_weight = 1, obs_fp = fp\<rparr>;
               (obs, sn) = trim_seen cap obs_fp (observations st @ [ob]) (fp # seen st)
           in st\<lparr>observations := obs, seen := sn\<rparr>)"

definition record_receipt :: "crypto \<Rightarrow> receipt \<Rightarrow> trust_store \<Rightarrow> trust_store" where
  "record_receipt C r s =
     (if \<not> affects_reputation (verdict r) then s
      else with_worker (worker_id r) (note_receipt C (max_obs_per_worker s) r) s)"

definition note_capability :: "crypto \<Rightarrow> nat \<Rightarrow> receipt \<Rightarrow> worker_state \<Rightarrow> worker_state" where
  "note_capability C cap r st =
     (let fp = receipt_fingerprint C r in
      if fp \<in> set (cap_seen st) then st
      else let (ord, sn) = trim_seen cap id (cap_seen_order st @ [fp]) (fp # cap_seen st);
               c = capability st
           in st\<lparr>cap_seen_order := ord, cap_seen := sn,
                 capability := \<lparr>max_input_bytes = max (max_input_bytes c) (unat (observed_input_bytes r)),
                   max_result_rows = max (max_result_rows c) (unat (observed_result_rows r)),
                   max_result_bytes = max (max_result_bytes c) (unat (observed_result_bytes r)),
                   successes = sat_add u32_max (successes c) 1,
                   pc_last_ts = max (pc_last_ts c) (unat (ts r))\<rparr>\<rparr>)"

definition observe_capability :: "crypto \<Rightarrow> receipt \<Rightarrow> trust_store \<Rightarrow> trust_store" where
  "observe_capability C r s =
     (if \<not> is_correct (verdict r) then s
      else with_worker (worker_id r) (note_capability C (max_obs_per_worker s) r) s)"

definition proven_capability_of :: "trust_store \<Rightarrow> string \<Rightarrow> proven_capability option" where
  "proven_capability_of s w =
     (case hget (workers s) w of
        None \<Rightarrow> None
      | Some st \<Rightarrow> if successes (capability st) = 0 then None else Some (capability st))"

definition note_perf :: "crypto \<Rightarrow> nat \<Rightarrow> real \<Rightarrow> receipt \<Rightarrow> worker_state \<Rightarrow> worker_state" where
  "note_perf C cap half_life r st =
     (let fp = receipt_fingerprint C r in
      if fp \<in> set (perf_seen st) then st
      else let (ord, sn) = trim_seen cap id (perf_seen_order st @ [fp]) (fp # perf_seen st)
           in st\<lparr>perf_seen_order := ord, perf_seen := sn,
                 perf := perf_fold (unat (latency_ms r)) (unat (observed_input_bytes r)) (unat (ts r)) half_life (perf st)\<rparr>)"

definition observe_perf :: "crypto \<Rightarrow> receipt \<Rightarrow> trust_store \<Rightarrow> trust_store" where
  "observe_perf C r s =
     (if \<not> is_correct (verdict r) then s
      else with_worker (worker_id r) (note_perf C (max_obs_per_worker s) (half_life_secs s) r) s)"

definition perf_aggregate_of :: "trust_store \<Rightarrow> string \<Rightarrow> perf_aggregate option" where
  "perf_aggregate_of s w =
     (case hget (workers s) w of
        None \<Rightarrow> None | Some st \<Rightarrow> if obs_count (perf st) = 0 then None else Some (perf st))"

text \<open>The loop shared by \<open>reputation\<close> and \<open>requester_reputation\<close>.\<close>

definition weighted_rate :: "trust_store \<Rightarrow> nat \<Rightarrow> observation list \<Rightarrow> real option" where
  "weighted_rate s now obs =
     (if obs = [] then None
      else let w = (\<lambda>ob. obs_weight ob * decay_weight s (real (now - obs_ts ob)));
               (num, den) = fold (\<lambda>ob (num, den). (if obs_correct ob then num + w ob else num, den + w ob)) obs (0, 0)
           in if den = 0 then None else Some (num / den))"

definition reputation :: "trust_store \<Rightarrow> string \<Rightarrow> nat \<Rightarrow> real option" where
  "reputation s w now =
     (case hget (workers s) w of None \<Rightarrow> None | Some st \<Rightarrow> weighted_rate s now (observations st))"

definition observation_count :: "trust_store \<Rightarrow> string \<Rightarrow> nat" where
  "observation_count s w = (case hget (workers s) w of None \<Rightarrow> 0 | Some st \<Rightarrow> length (observations st))"

definition add_vouch :: "string \<Rightarrow> real \<Rightarrow> trust_store \<Rightarrow> trust_store" where
  "add_vouch w x s = with_worker w (\<lambda>st. st\<lparr>ws_voucher := ws_voucher st + x\<rparr>) s"

definition voucher_trust_of :: "trust_store \<Rightarrow> string \<Rightarrow> real" where
  "voucher_trust_of s w = (case hget (workers s) w of None \<Rightarrow> 0 | Some st \<Rightarrow> ws_voucher st)"

definition penalize :: "string \<Rightarrow> real \<Rightarrow> trust_store \<Rightarrow> trust_store" where
  "penalize w x s = with_worker w (\<lambda>st. st\<lparr>ws_penalty := ws_penalty st + x\<rparr>) s"

definition penalty_of :: "trust_store \<Rightarrow> string \<Rightarrow> real" where
  "penalty_of s w = (case hget (workers s) w of None \<Rightarrow> 0 | Some st \<Rightarrow> ws_penalty st)"

definition tracked_workers :: "trust_store \<Rightarrow> nat" where
  "tracked_workers s = length (workers s)"

definition record_requester :: "string \<Rightarrow> bool \<Rightarrow> nat \<Rightarrow> trust_store \<Rightarrow> trust_store" where
  "record_requester rq correct t s =
     (let (ord, rs) = (if hcontains (requesters s) rq then (requester_order s, requesters s)
                       else let (ord, rs) = evict (max_workers s) (requester_order s) (requesters s)
                            in (ord @ [rq], hput rq [] rs));
          hist = (case hget rs rq of None \<Rightarrow> [] | Some h \<Rightarrow> h) @
                   [\<lparr>obs_ts = t, obs_correct = correct, obs_weight = 1, obs_fp = 0\<rparr>]
      in s\<lparr>requester_order := ord,
           requesters := hput rq (drop (length hist - max_obs_per_worker s) hist) rs\<rparr>)"

definition requester_observation_count :: "trust_store \<Rightarrow> string \<Rightarrow> nat" where
  "requester_observation_count s rq = (case hget (requesters s) rq of None \<Rightarrow> 0 | Some h \<Rightarrow> length h)"

definition requester_reputation :: "trust_store \<Rightarrow> string \<Rightarrow> nat \<Rightarrow> real option" where
  "requester_reputation s rq now =
     (case hget (requesters s) rq of None \<Rightarrow> None | Some h \<Rightarrow> weighted_rate s now h)"

section \<open>Scores\<close>

record trust_inputs =
  ti_reputation :: real
  ti_age_factor :: real
  ti_voucher_trust :: real
  ti_stake_factor :: real
  ti_penalties :: real

record reputation_weights =
  alpha_reputation :: real
  beta_age :: real
  gamma_voucher :: real
  delta_stake :: real

definition soft_trust_score :: "reputation_weights \<Rightarrow> trust_inputs \<Rightarrow> real" where
  "soft_trust_score w i = clamp01 (alpha_reputation w * ti_reputation i + beta_age w * ti_age_factor i +
     gamma_voucher w * ti_voucher_trust i + delta_stake w * ti_stake_factor i - ti_penalties i)"

definition confidence_reputation :: "real \<Rightarrow> nat \<Rightarrow> real \<Rightarrow> real \<Rightarrow> real \<Rightarrow> real" where
  "confidence_reputation ratio obs prior_alpha prior_beta z =
     (let n = real obs;
          succ = clamp01 ratio * n + max prior_alpha 0;
          trials = n + max prior_alpha 0 + max prior_beta 0
      in if trials \<le> 0 then 0
         else let p = succ / trials in
           if z \<le> 0 then clamp01 p
           else let z2 = z * z;
                    denom = 1 + z2 / trials;
                    centre = p + z2 / (2 * trials);
                    margin = z * sqrt (max (p * (1 - p) / trials + z2 / (4 * trials * trials)) 0)
                in clamp01 ((centre - margin) / denom))"

definition confident_reputation :: "trust_store \<Rightarrow> string \<Rightarrow> nat \<Rightarrow> real \<Rightarrow> real \<Rightarrow> real \<Rightarrow> real option" where
  "confident_reputation s w now prior_alpha prior_beta z =
     (case reputation s w now of
        None \<Rightarrow> None
      | Some ratio \<Rightarrow> Some (confidence_reputation ratio (observation_count s w) prior_alpha prior_beta z))"

definition capability_confidence :: "trust_store \<Rightarrow> string \<Rightarrow> real \<Rightarrow> real \<Rightarrow> real \<Rightarrow> real" where
  "capability_confidence s w prior_alpha prior_beta z =
     (case proven_capability_of s w of
        Some cap \<Rightarrow> if 0 < successes cap then confidence_reputation 1 (successes cap) prior_alpha prior_beta z else 0
      | None \<Rightarrow> 0)"

definition exploration_bonus :: "nat \<Rightarrow> real \<Rightarrow> nat \<Rightarrow> real" where
  "exploration_bonus obs rate saturation =
     (if rate \<le> 0 \<or> saturation = 0 then 0
      else let remaining = 1 - min (real obs / real saturation) 1 in max (rate * remaining) 0)"

section \<open>Bounded histories\<close>

lemma fst_trim_seen: "fst (trim_seen cap key xs sn) = drop (length xs - cap) xs"
proof (induction xs arbitrary: sn)
  case Nil
  then show ?case by simp
next
  case (Cons x xs)
  show ?case
  proof (cases "cap < length (x # xs)")
    case True
    then have "length (x # xs) - cap = Suc (length xs - cap)" by simp
    with True Cons show ?thesis by simp
  qed simp
qed

lemma set_snd_trim_seen:
  "distinct (map key xs) \<Longrightarrow> set sn = set (map key xs) \<Longrightarrow>
     set (snd (trim_seen cap key xs sn)) = set (map key (fst (trim_seen cap key xs sn)))"
proof (induction xs arbitrary: sn)
  case Nil
  then show ?case by simp
next
  case (Cons x xs)
  then have "set (removeAll (key x) sn) = set (map key xs)" by auto
  with Cons show ?case by auto
qed

definition fifo_ok :: "nat \<Rightarrow> ('a \<Rightarrow> u64) \<Rightarrow> 'a list \<Rightarrow> u64 list \<Rightarrow> bool" where
  "fifo_ok m key xs sn \<longleftrightarrow> 0 < m \<and> length xs \<le> m \<and> distinct (map key xs) \<and> set sn = set (map key xs)"

lemma fifo_ok_push:
  assumes "fifo_ok m key xs sn" "key x \<notin> set sn"
  shows "fifo_ok m key (fst (trim_seen m key (xs @ [x]) (key x # sn))) (snd (trim_seen m key (xs @ [x]) (key x # sn)))"
proof -
  have "distinct (map key (xs @ [x]))" "set (key x # sn) = set (map key (xs @ [x]))"
    using assms by (auto simp: fifo_ok_def)
  then show ?thesis
    using set_snd_trim_seen [of key "xs @ [x]" "key x # sn" m] distinct_drop [of "map key (xs @ [x])" "Suc (length xs) - m"] assms(1)
    by (simp add: fifo_ok_def fst_trim_seen drop_map) arith
qed

definition worker_ok :: "nat \<Rightarrow> worker_state \<Rightarrow> bool" where
  "worker_ok m st \<longleftrightarrow> fifo_ok m obs_fp (observations st) (seen st) \<and>
     (\<forall>ob\<in>set (observations st). obs_weight ob = 1) \<and>
     fifo_ok m id (cap_seen_order st) (cap_seen st) \<and> fifo_ok m id (perf_seen_order st) (perf_seen st)"

lemma worker_ok_new: "0 < m \<Longrightarrow> worker_ok m worker_new"
  by (simp add: worker_ok_def worker_new_def fifo_ok_def)

lemma worker_ok_notes:
  assumes "worker_ok m st"
  shows "worker_ok m (note_receipt C m r st)" "worker_ok m (note_capability C m r st)"
    "worker_ok m (note_perf C m h r st)"
proof -
  let ?fp = "receipt_fingerprint C r"
  let ?ob = "\<lparr>obs_ts = unat (ts r), obs_correct = is_correct (verdict r), obs_weight = 1, obs_fp = ?fp\<rparr>"
  have w: "\<forall>ob\<in>set (drop n (observations st @ [?ob])). obs_weight ob = 1" for n
    using assms by (auto simp: worker_ok_def dest: in_set_dropD)
  show "worker_ok m (note_receipt C m r st)"
    using assms w [of "Suc (length (observations st)) - m"] fifo_ok_push [of m obs_fp "observations st" "seen st" ?ob]
    by (simp add: worker_ok_def note_receipt_def Let_def case_prod_beta fst_trim_seen del: drop_append set_append)
  show "worker_ok m (note_capability C m r st)"
    using assms fifo_ok_push [of m id "cap_seen_order st" "cap_seen st" ?fp]
    by (simp add: worker_ok_def note_capability_def Let_def case_prod_beta)
  show "worker_ok m (note_perf C m h r st)"
    using assms fifo_ok_push [of m id "perf_seen_order st" "perf_seen st" ?fp]
    by (simp add: worker_ok_def note_perf_def Let_def case_prod_beta)
qed

lemma fps_note_receipt:
  "map obs_fp (observations (note_receipt C m r st)) =
     (if receipt_fingerprint C r \<in> set (seen st) then map obs_fp (observations st)
      else drop (Suc (length (observations st)) - m) (map obs_fp (observations st) @ [receipt_fingerprint C r]))"
  by (simp add: note_receipt_def Let_def case_prod_beta fst_trim_seen flip: drop_map del: drop_append)


interpretation history: fifo_cache "Suc m" "\<lambda>st. map obs_fp (observations st)" "receipt_fingerprint C"
  "note_receipt C (Suc m)" "worker_ok (Suc m)" for C m
proof
  fix st r
  assume "worker_ok (Suc m) st"
  then have "set (seen st) = set (map obs_fp (observations st))" by (simp add: worker_ok_def fifo_ok_def)
  then show "map obs_fp (observations (note_receipt C (Suc m) r st)) = map obs_fp (observations st) \<or>
      receipt_fingerprint C r \<notin> set (map obs_fp (observations st)) \<and>
      map obs_fp (observations (note_receipt C (Suc m) r st)) =
        drop (Suc (length (map obs_fp (observations st))) - Suc m) (map obs_fp (observations st)) @ [receipt_fingerprint C r]"
    by (simp add: fps_note_receipt)
qed (simp_all add: worker_ok_notes)

section \<open>The store's invariant\<close>

text \<open>Workers and requesters are kept in one insertion-ordered map each.\<close>

definition history_ok :: "nat \<Rightarrow> observation list \<Rightarrow> bool" where
  "history_ok m h \<longleftrightarrow> length h \<le> m \<and> (\<forall>ob\<in>set h. obs_weight ob = 1)"

definition trust_inv :: "trust_store \<Rightarrow> bool" where
  "trust_inv s \<longleftrightarrow> 0 < max_obs_per_worker s \<and> ordered_ok (max_workers s) (worker_order s) (workers s) \<and>
     hall (worker_ok (max_obs_per_worker s)) (workers s) \<and>
     ordered_ok (max_workers s) (requester_order s) (requesters s) \<and>
     hall (history_ok (max_obs_per_worker s)) (requesters s)"

lemma admit_worker_known: "hcontains (workers s) w \<Longrightarrow> admit_worker w s = s"
  by (simp add: admit_worker_def)

lemma admit_worker_new:
  assumes "trust_inv s" "\<not> hcontains (workers s) w"
  shows "trust_inv (admit_worker w s)" "hget (workers (admit_worker w s)) w = Some worker_new"
    "worker_order (admit_worker w s) = drop (Suc (length (worker_order s)) - max_workers s) (worker_order s) @ [w]"
proof -
  let ?e = "evict (max_workers s) (worker_order s) (workers s)"
  have w: "w \<notin> set (hkeys (workers s))" using assms(2) by (simp add: hcontains_def)
  have o: "ordered_ok (max_workers s) (worker_order s) (workers s)" using assms(1) by (simp add: trust_inv_def)
  note a = ordered_ok_admit [OF o w]
  have e: "admit_worker w s = s\<lparr>workers := hput w worker_new (snd ?e), worker_order := fst ?e @ [w]\<rparr>"
    using assms(2) by (simp only: admit_worker_def if_False Let_def case_prod_beta)
  have "hall (worker_ok (max_obs_per_worker s)) (hput w worker_new (snd ?e))"
    using assms(1) by (intro a(3)) (simp_all add: trust_inv_def worker_ok_new)
  with a(2) [of worker_new] assms(1) show "trust_inv (admit_worker w s)" by (simp add: e trust_inv_def)
  show "hget (workers (admit_worker w s)) w = Some worker_new" by (simp add: e update_conv)
  show "worker_order (admit_worker w s) = drop (Suc (length (worker_order s)) - max_workers s) (worker_order s) @ [w]"
    by (simp add: e a(1))
qed

lemma admit_worker_frame:
  "max_obs_per_worker (admit_worker w s) = max_obs_per_worker s \<and> max_workers (admit_worker w s) = max_workers s \<and>
   half_life_secs (admit_worker w s) = half_life_secs s \<and> requesters (admit_worker w s) = requesters s \<and>
   requester_order (admit_worker w s) = requester_order s"
  by (simp add: admit_worker_def Let_def split: prod.split)

text \<open>Every update of a worker that keeps its histories in order keeps the store in order.\<close>

lemma with_worker_inv:
  assumes "trust_inv s" "\<And>st. worker_ok (max_obs_per_worker s) st \<Longrightarrow> worker_ok (max_obs_per_worker s) (f st)"
  shows "trust_inv (with_worker w f s)"
proof -
  let ?s = "admit_worker w s" and ?m = "max_obs_per_worker s"
  have "trust_inv ?s"
  proof (cases "hcontains (workers s) w")
    case True
    show ?thesis unfolding admit_worker_known [OF True] by (rule assms(1))
  next
    case False
    show ?thesis by (rule admit_worker_new(1) [OF assms(1) False])
  qed
  moreover have m: "max_obs_per_worker ?s = ?m" using admit_worker_frame [of w s] by blast
  ultimately have inv: "0 < ?m" "ordered_ok (max_workers ?s) (worker_order ?s) (workers ?s)" "hall (worker_ok ?m) (workers ?s)"
    "ordered_ok (max_workers ?s) (requester_order ?s) (requesters ?s)" "hall (history_ok ?m) (requesters ?s)"
    by (simp_all only: trust_inv_def)
  show ?thesis
  proof (cases "hget (workers ?s) w")
    case None
    have "with_worker w f s = ?s" by (simp only: with_worker_def Let_def None option.case)
    then show ?thesis using inv m by (simp only: trust_inv_def)
  next
    case (Some st)
    have e: "with_worker w f s = ?s\<lparr>workers := hput w (f st) (workers ?s)\<rparr>"
      by (simp only: with_worker_def Let_def Some option.case)
    have "hall (worker_ok ?m) (hput w (f st) (workers ?s))"
      by (rule hall_hput [OF inv(3) assms(2) [OF hall_hget [OF inv(3) Some]]])
    moreover have "ordered_ok (max_workers ?s) (worker_order ?s) (hput w (f st) (workers ?s))"
      using Some by (intro ordered_ok_update [OF inv(2)]) simp
    ultimately show ?thesis unfolding e trust_inv_def using inv m by simp
  qed
qed

lemma with_worker_order:
  assumes "trust_inv s"
  shows "worker_order (with_worker w f s) = (if w \<in> set (worker_order s) then worker_order s
      else drop (Suc (length (worker_order s)) - max_workers s) (worker_order s) @ [w]) \<and>
    max_workers (with_worker w f s) = max_workers s \<and> max_obs_per_worker (with_worker w f s) = max_obs_per_worker s \<and>
    half_life_secs (with_worker w f s) = half_life_secs s \<and> requesters (with_worker w f s) = requesters s \<and>
    requester_order (with_worker w f s) = requester_order s"
proof -
  have "set (worker_order s) = set (hkeys (workers s))" using assms by (simp add: trust_inv_def ordered_ok_def)
  then have "hcontains (workers s) w \<longleftrightarrow> w \<in> set (worker_order s)" by (simp add: hcontains_def)
  then have "worker_order (admit_worker w s) = (if w \<in> set (worker_order s) then worker_order s
      else drop (Suc (length (worker_order s)) - max_workers s) (worker_order s) @ [w])"
    using admit_worker_new(3) [OF assms, of w] admit_worker_known [of s w] by presburger
  then show ?thesis
    using admit_worker_frame [of w s] by (simp add: with_worker_def Let_def split: option.split)
qed

lemma hget_with_worker:
  assumes "trust_inv s"
  shows "hget (workers (with_worker w f s)) w = Some (f (case hget (workers s) w of None \<Rightarrow> worker_new | Some st \<Rightarrow> st))"
  using admit_worker_new(2) [OF assms, of w] admit_worker_known [of s w]
  by (cases "hget (workers s) w")
    (simp_all add: with_worker_def Let_def hcontains_hget update_conv)

lemma hget_with_worker_other:
  assumes "hcontains (workers s) w" "v \<noteq> w"
  shows "hget (workers (with_worker w f s)) v = hget (workers s) v"
  using assms by (auto simp: with_worker_def admit_worker_known update_conv split: option.split)

datatype trust_op =
    OpRecord receipt | OpCapability receipt | OpPerf receipt | OpVouch string real | OpPenalize string real
  | OpRequester string bool nat

fun apply_op :: "crypto \<Rightarrow> trust_op \<Rightarrow> trust_store \<Rightarrow> trust_store" where
  "apply_op C (OpRecord r) s = record_receipt C r s"
| "apply_op C (OpCapability r) s = observe_capability C r s"
| "apply_op C (OpPerf r) s = observe_perf C r s"
| "apply_op C (OpVouch w x) s = add_vouch w x s"
| "apply_op C (OpPenalize w x) s = penalize w x s"
| "apply_op C (OpRequester rq ok t) s = record_requester rq ok t s"

lemma trust_inv_new: "trust_inv (trust_new h c n)"
  by (simp add: trust_inv_def trust_new_def ordered_ok_def less_max_iff_disj)

lemma history_ok_push:
  "0 < m \<Longrightarrow> history_ok m h \<Longrightarrow> obs_weight ob = 1 \<Longrightarrow> history_ok m (drop (length (h @ [ob]) - m) (h @ [ob]))"
  by (auto simp: history_ok_def dest: in_set_dropD)

lemma record_requester_inv:
  assumes "trust_inv s"
  shows "trust_inv (record_requester rq ok t s)"
proof -
  let ?m = "max_obs_per_worker s"
  let ?ob = "\<lparr>obs_ts = t, obs_correct = ok, obs_weight = 1, obs_fp = 0\<rparr>"
  define p where "p = (if hcontains (requesters s) rq then (requester_order s, requesters s)
      else let (ord, rs) = evict (max_workers s) (requester_order s) (requesters s) in (ord @ [rq], hput rq [] rs))"
  have o: "ordered_ok (max_workers s) (requester_order s) (requesters s)" and h: "hall (history_ok ?m) (requesters s)"
    and m: "0 < ?m" using assms by (simp_all add: trust_inv_def)
  have p: "ordered_ok (max_workers s) (fst p) (snd p) \<and> hget (snd p) rq \<noteq> None \<and> hall (history_ok ?m) (snd p)"
  proof (cases "hcontains (requesters s) rq")
    case True
    then show ?thesis using o h by (simp add: p_def hcontains_hget)
  next
    case False
    then have "rq \<notin> set (hkeys (requesters s))" by (simp add: hcontains_def)
    note a = ordered_ok_admit [OF o this]
    have "hall (history_ok ?m) (hput rq [] (snd (evict (max_workers s) (requester_order s) (requesters s))))"
      by (rule a(3) [OF h]) (simp add: history_ok_def)
    with a(2) [of "[]"] show ?thesis
      using False by (simp only: p_def if_False case_prod_beta Let_def fst_conv snd_conv update_conv) simp
  qed
  then obtain g where g: "hget (snd p) rq = Some g" by blast
  from p have op: "ordered_ok (max_workers s) (fst p) (snd p)" and hp: "hall (history_ok ?m) (snd p)" by simp_all
  note hg = hall_hget [OF hp g]
  let ?h = "drop (length (g @ [?ob]) - ?m) (g @ [?ob])"
  have "hall (history_ok ?m) (hput rq ?h (snd p))"
    by (rule hall_hput [OF hp history_ok_push [OF m hg]]) simp
  moreover have "ordered_ok (max_workers s) (fst p) (hput rq ?h (snd p))"
    using g by (intro ordered_ok_update [OF op]) simp
  moreover have "record_requester rq ok t s = s\<lparr>requester_order := fst p, requesters := hput rq ?h (snd p)\<rparr>"
    unfolding record_requester_def p_def [symmetric] using g by (simp only: case_prod_beta Let_def option.case)
  ultimately show ?thesis using assms by (simp add: trust_inv_def)
qed

lemma apply_op_inv:
  assumes "trust_inv s"
  shows "trust_inv (apply_op C op s)"
proof (cases op)
  case (OpVouch w x)
  show ?thesis unfolding OpVouch apply_op.simps add_vouch_def
    by (rule with_worker_inv [OF assms]) (simp add: worker_ok_def)
next
  case (OpPenalize w x)
  show ?thesis unfolding OpPenalize apply_op.simps penalize_def
    by (rule with_worker_inv [OF assms]) (simp add: worker_ok_def)
next
  case (OpRecord r)
  have "trust_inv (with_worker (worker_id r) (note_receipt C (max_obs_per_worker s) r) s)"
    by (rule with_worker_inv [OF assms]) (rule worker_ok_notes(1))
  then show ?thesis using assms OpRecord by (simp add: record_receipt_def)
next
  case (OpCapability r)
  have "trust_inv (with_worker (worker_id r) (note_capability C (max_obs_per_worker s) r) s)"
    by (rule with_worker_inv [OF assms]) (rule worker_ok_notes(2))
  then show ?thesis using assms OpCapability by (simp add: observe_capability_def)
next
  case (OpPerf r)
  have "trust_inv (with_worker (worker_id r) (note_perf C (max_obs_per_worker s) (half_life_secs s) r) s)"
    by (rule with_worker_inv [OF assms]) (rule worker_ok_notes(3))
  then show ?thesis using assms OpPerf by (simp add: observe_perf_def)
next
  case (OpRequester rq ok t)
  then show ?thesis using record_requester_inv [OF assms] by simp
qed

section \<open>Replays\<close>

interpretation worker_cache: fifo_cache "Suc n" worker_order worker_id "record_receipt C"
  "\<lambda>s. trust_inv s \<and> max_workers s = Suc n" for C n
proof
  fix s r
  assume inv: "trust_inv s \<and> max_workers s = Suc n"
  then show "trust_inv (record_receipt C r s) \<and> max_workers (record_receipt C r s) = Suc n"
    using apply_op_inv [of s C "OpRecord r"] with_worker_order [of s] by (simp add: record_receipt_def)
  show "worker_order (record_receipt C r s) = worker_order s \<or> worker_id r \<notin> set (worker_order s) \<and>
      worker_order (record_receipt C r s) = drop (Suc (length (worker_order s)) - Suc n) (worker_order s) @ [worker_id r]"
    using inv with_worker_order [of s "worker_id r"] by (simp add: record_receipt_def)
qed simp

lemma hget_fold_hdel: "k \<notin> set ks \<Longrightarrow> hget (fold hdel ks m) k = hget m k"
  by (induction ks arbitrary: m) (simp_all add: delete_conv)

lemma hput_same: "hget m k = Some v \<Longrightarrow> hput k v m = m"
  by (induction m) (auto split: if_splits)

lemma hget_with_worker_survivor:
  assumes "trust_inv s" "w \<in> set (worker_order (with_worker v f s))" "w \<noteq> v"
  shows "hget (workers (with_worker v f s)) w = hget (workers s) w"
proof (cases "hcontains (workers s) v")
  case True
  then show ?thesis using assms(3) by (intro hget_with_worker_other) simp_all
next
  case False
  let ?n = "Suc (length (worker_order s)) - max_workers s"
  have d: "distinct (worker_order s)" and "0 < max_workers s" and "v \<notin> set (worker_order s)"
    using assms(1) False by (simp_all add: trust_inv_def ordered_ok_def hcontains_def)
  then have "w \<in> set (drop ?n (worker_order s))"
    using assms(2,3) with_worker_order [OF assms(1), of v f] by simp
  then have "w \<notin> set (take ?n (worker_order s))"
    using d by (metis append_take_drop_id disjoint_iff distinct_append)
  then have "hget (snd (evict (max_workers s) (worker_order s) (workers s))) w = hget (workers s) w"
    using \<open>0 < max_workers s\<close> by (simp add: evict_spec hget_fold_hdel)
  then have "hget (workers (admit_worker v s)) w = hget (workers s) w"
    using False assms(3) by (simp add: admit_worker_def case_prod_beta Let_def update_conv)
  then show ?thesis
    using assms(3) by (simp add: with_worker_def Let_def update_conv split: option.split)
qed

text \<open>A receipt's fingerprint is still remembered, with room for \<open>k\<close> more events.\<close>

definition remembered :: "string \<Rightarrow> u64 \<Rightarrow> nat \<Rightarrow> trust_store \<Rightarrow> bool" where
  "remembered w fp k s \<longleftrightarrow> trust_inv s \<and> (\<exists>xs ys us vs st. worker_order s = xs @ w # ys \<and>
     hget (workers s) w = Some st \<and> map obs_fp (observations st) = us @ fp # vs \<and>
     length ys + k < max_workers s \<and> length vs + k < max_obs_per_worker s)"

lemma record_frame:
  "trust_inv s \<Longrightarrow> max_workers (record_receipt C r s) = max_workers s \<and>
     max_obs_per_worker (record_receipt C r s) = max_obs_per_worker s \<and> trust_inv (record_receipt C r s)"
  using with_worker_order [of s] apply_op_inv [of s C "OpRecord r"] by (simp add: record_receipt_def)

lemma worker_ok_hget: "trust_inv s \<Longrightarrow> hget (workers s) w = Some st \<Longrightarrow> worker_ok (max_obs_per_worker s) st"
  unfolding trust_inv_def using hall_hget [of "worker_ok (max_obs_per_worker s)" "workers s" w st] by blast

lemma remembered_step:
  assumes "remembered w fp (Suc k) s"
  shows "remembered w fp k (record_receipt C r s)"
proof -
  from assms obtain xs ys us vs st where inv: "trust_inv s" and o: "worker_order s = xs @ w # ys"
    and g: "hget (workers s) w = Some st" and f: "map obs_fp (observations st) = us @ fp # vs"
    and l: "length ys + Suc k < max_workers s" "length vs + Suc k < max_obs_per_worker s"
    unfolding remembered_def by blast
  obtain n m where n: "max_workers s = Suc n" and m: "max_obs_per_worker s = Suc m"
    using l by (cases "max_workers s"; cases "max_obs_per_worker s") simp_all
  have ok: "worker_ok (Suc m) st" using worker_ok_hget [OF inv g] m by simp
  have len: "length (worker_order s) \<le> Suc n" "length (map obs_fp (observations st)) \<le> Suc m"
    using inv ok n by (simp_all add: trust_inv_def ordered_ok_def worker_ok_def fifo_ok_def)
  obtain xs' ys' where o': "worker_order (record_receipt C r s) = xs' @ w # ys'" "length ys' \<le> Suc (length ys)"
    using worker_cache.admit_suffix [of s n xs w ys C r] inv n o l len by auto
  have le: "length vs \<le> Suc (length vs)" by simp
  have st': "\<exists>us' vs' st'. hget (workers (record_receipt C r s)) w = Some st' \<and>
      map obs_fp (observations st') = us' @ fp # vs' \<and> length vs' \<le> Suc (length vs)"
  proof (cases "affects_reputation (verdict r)")
    case False
    then have "record_receipt C r s = s" by (simp add: record_receipt_def)
    then show ?thesis using g f le by metis
  next
    case True
    then have rec: "record_receipt C r s = with_worker (worker_id r) (note_receipt C (Suc m) r) s"
      by (simp add: record_receipt_def m)
    show ?thesis
    proof (cases "worker_id r = w")
      case True
      have "hget (workers (record_receipt C r s)) w = Some (note_receipt C (Suc m) r st)"
        using hget_with_worker [OF inv, of w] True rec g by simp
      moreover obtain us' vs' where "map obs_fp (observations (note_receipt C (Suc m) r st)) = us' @ fp # vs'"
        "length vs' \<le> Suc (length vs)"
        using history.admit_suffix [of m st us fp vs C r] ok f l m len by auto
      ultimately show ?thesis by blast
    next
      case False
      have "hget (workers (record_receipt C r s)) w = Some st"
        using hget_with_worker_survivor [OF inv, of w] o'(1) False g unfolding rec by auto
      with f le show ?thesis by metis
    qed
  qed
  from st' obtain us' vs' st' where "hget (workers (record_receipt C r s)) w = Some st'"
    "map obs_fp (observations st') = us' @ fp # vs'" "length vs' \<le> Suc (length vs)" by blast
  moreover have "length ys' + k < max_workers (record_receipt C r s)" using record_frame [OF inv, of C r] l o'(2) by simp
  moreover have "length vs' + k < max_obs_per_worker (record_receipt C r s)"
    using record_frame [OF inv, of C r] l calculation(3) by simp
  ultimately show ?thesis using record_frame [OF inv, of C r] o'(1) unfolding remembered_def by blast
qed

lemma remembered_run: "remembered w fp (length rs) s \<Longrightarrow> remembered w fp 0 (fold (record_receipt C) rs s)"
  by (induction rs arbitrary: s) (simp_all add: remembered_step)

lemma remembered_replay:
  assumes "remembered (worker_id r) (receipt_fingerprint C r) 0 s"
  shows "record_receipt C r s = s"
proof -
  from assms obtain us vs st where inv: "trust_inv s" and g: "hget (workers s) (worker_id r) = Some st"
    and f: "map obs_fp (observations st) = us @ receipt_fingerprint C r # vs" unfolding remembered_def by blast
  have "set (seen st) = set (map obs_fp (observations st))"
    using worker_ok_hget [OF inv g] unfolding worker_ok_def fifo_ok_def by blast
  then have "receipt_fingerprint C r \<in> set (seen st)" unfolding f by simp
  then have "note_receipt C m r st = st" for m by (simp add: note_receipt_def Let_def)
  then show ?thesis
    using g by (simp add: record_receipt_def with_worker_def admit_worker_def hcontains_hget hput_same)
qed


lemma remembered_new:
  assumes "trust_inv s" "affects_reputation (verdict r)" "worker_id r \<notin> set (worker_order s)"
    "k < max_workers s" "k < max_obs_per_worker s"
  shows "remembered (worker_id r) (receipt_fingerprint C r) k (record_receipt C r s)"
proof -
  let ?w = "worker_id r" and ?fp = "receipt_fingerprint C r"
  have "hget (workers s) ?w = None"
    using assms(1,3) by (simp add: trust_inv_def ordered_ok_def map_of_eq_None_iff)
  then have "hget (workers (record_receipt C r s)) ?w = Some (note_receipt C (max_obs_per_worker s) r worker_new)"
    using assms(2) hget_with_worker [OF assms(1), of ?w] by (simp add: record_receipt_def)
  moreover have "map obs_fp (observations (note_receipt C (max_obs_per_worker s) r worker_new)) = [] @ ?fp # []"
    using assms(5) by (simp add: fps_note_receipt worker_new_def)
  moreover have "worker_order (record_receipt C r s) =
      drop (Suc (length (worker_order s)) - max_workers s) (worker_order s) @ ?w # []"
    using assms(2,3) with_worker_order [OF assms(1), of ?w] by (simp add: record_receipt_def)
  moreover have "length ([] :: u64 list) + k < max_obs_per_worker (record_receipt C r s)"
    "length ([] :: string list) + k < max_workers (record_receipt C r s)"
    using assms(4,5) record_frame [OF assms(1), of C r] by simp_all
  ultimately show ?thesis using record_frame [OF assms(1), of C r] unfolding remembered_def by blast
qed

section \<open>Scores\<close>

lemma clamp01_bounds [simp]: "0 \<le> clamp01 x" "clamp01 x \<le> 1"
  by (simp_all add: clamp01_def)

lemma clamp01_id [simp]: "0 \<le> x \<Longrightarrow> x \<le> 1 \<Longrightarrow> clamp01 x = x"
  by (simp add: clamp01_def)

lemma clamp01_mono: "x \<le> y \<Longrightarrow> clamp01 x \<le> clamp01 y"
  by (auto simp: clamp01_def)

lemma decay_weight_pos: "0 < decay_weight s x" "decay_weight s x \<le> 1"
  by (auto simp: decay_weight_def powr_le_one_le powr_mono2 intro: powr_le1)

lemma weighted_fold:
  fixes w :: "observation \<Rightarrow> real"
  shows "fold (\<lambda>ob (num, den). (if obs_correct ob then num + w ob else num, den + w ob)) obs (a, b) =
    (a + sum_list (map w (filter obs_correct obs)), b + sum_list (map w obs))"
  by (induction obs arbitrary: a b) simp_all

lemma sum_list_filter_le:
  fixes w :: "'a \<Rightarrow> real"
  shows "(\<And>x. x \<in> set xs \<Longrightarrow> 0 \<le> w x) \<Longrightarrow> 0 \<le> sum_list (map w (filter P xs)) \<and> sum_list (map w (filter P xs)) \<le> sum_list (map w xs)"
  by (induction xs) (auto intro: add_nonneg_nonneg order_trans)

lemma sum_list_pos:
  fixes w :: "'a \<Rightarrow> real"
  shows "(\<And>x. x \<in> set xs \<Longrightarrow> 0 < w x) \<Longrightarrow> xs \<noteq> [] \<Longrightarrow> 0 < sum_list (map w xs)"
proof (induction xs)
  case (Cons a xs)
  then show ?case by (cases "xs = []") (simp_all add: add_pos_pos)
qed simp

lemma weighted_rate_unit:
  fixes s :: trust_store and now :: nat
  assumes "obs \<noteq> []" "\<forall>ob\<in>set obs. obs_weight ob = 1"
  defines "w \<equiv> \<lambda>ob. decay_weight s (real (now - obs_ts ob))"
  shows "weighted_rate s now obs = Some (sum_list (map w (filter obs_correct obs)) / sum_list (map w obs))"
    "0 < sum_list (map w obs)"
    "0 \<le> sum_list (map w (filter obs_correct obs)) / sum_list (map w obs)"
    "sum_list (map w (filter obs_correct obs)) / sum_list (map w obs) \<le> 1"
proof -
  let ?v = "\<lambda>ob. obs_weight ob * decay_weight s (real (now - obs_ts ob))"
  have eq: "map ?v obs = map w obs" "map ?v (filter obs_correct obs) = map w (filter obs_correct obs)"
    using assms(2) by (simp_all add: w_def)
  show pos: "0 < sum_list (map w obs)"
    using assms(1) by (intro sum_list_pos) (simp_all add: w_def decay_weight_pos)
  have le: "0 \<le> sum_list (map w (filter obs_correct obs)) \<and> sum_list (map w (filter obs_correct obs)) \<le> sum_list (map w obs)"
    by (rule sum_list_filter_le) (simp add: w_def decay_weight_pos less_imp_le)
  show "weighted_rate s now obs = Some (sum_list (map w (filter obs_correct obs)) / sum_list (map w obs))"
    using assms(1) pos by (simp add: weighted_rate_def Let_def weighted_fold eq)
  show "0 \<le> sum_list (map w (filter obs_correct obs)) / sum_list (map w obs)"
    "sum_list (map w (filter obs_correct obs)) / sum_list (map w obs) \<le> 1"
    using le pos by simp_all
qed

lemma ewma_between: "min a b \<le> ewma_fold a b dt h \<and> ewma_fold a b dt h \<le> max a b"
proof -
  define decay where "decay = (if 0 < h then (1 / 2) powr (max dt 0 / h) else (0 :: real))"
  define al where "al = max (1 - decay) PERF_MIN_ALPHA"
  have d: "0 \<le> decay" by (simp add: decay_def)
  then have al: "0 \<le> al" "al \<le> 1" by (simp_all add: al_def PERF_MIN_ALPHA_def le_max_iff_disj)
  have "ewma_fold a b dt h = a * (1 - al) + b * al" by (simp add: ewma_fold_def Let_def al_def decay_def)
  moreover have "a * (1 - al) + b * al \<le> max a b * (1 - al) + max a b * al"
    using al by (intro add_mono mult_right_mono) simp_all
  moreover have "min a b * (1 - al) + min a b * al \<le> a * (1 - al) + b * al"
    using al by (intro add_mono mult_right_mono) simp_all
  ultimately show ?thesis by (simp add: algebra_simps)
qed


lemma wilson_bounds:
  fixes p t z :: real
  assumes "0 \<le> p" "p \<le> 1" "0 < t" "0 < z"
  defines "lb \<equiv> (p + z * z / (2 * t) - z * sqrt (max (p * (1 - p) / t + z * z / (4 * t * t)) 0)) / (1 + z * z / t)"
  shows "0 \<le> lb" "lb \<le> p"
proof -
  let ?v = "p * (1 - p) / t + z * z / (4 * t * t)"
  have v: "0 \<le> p * (1 - p) / t" "0 \<le> z * z / (4 * t * t)" using assms(1-4) by simp_all
  then have mx: "max ?v 0 = ?v" by simp
  have den: "0 < 1 + z * z / t" using assms(3,4) by (simp add: add_pos_nonneg)
  have sq: "(p + z * z / (2 * t))\<^sup>2 = z * z * ?v + p * p + p * p * z * z / t"
    using assms(3) by (simp add: power2_eq_square field_simps)
  have "z * sqrt ?v = sqrt (z * z * ?v)" using assms(4) by (simp add: real_sqrt_mult)
  also have "\<dots> \<le> sqrt ((p + z * z / (2 * t))\<^sup>2)"
    unfolding sq using assms(1,3,4) by (intro real_sqrt_le_mono) simp
  also have "\<dots> = p + z * z / (2 * t)" using assms(1,3,4) by simp
  finally have "z * sqrt ?v \<le> p + z * z / (2 * t)" .
  then show "0 \<le> lb" unfolding lb_def mx using den by simp
  have "z / (2 * t) = sqrt (z * z / (4 * t * t))"
    using assms(3,4) by (intro real_sqrt_unique [symmetric]) (simp_all add: power2_eq_square field_simps)
  also have "\<dots> \<le> sqrt ?v" using v by (intro real_sqrt_le_mono) simp
  finally have "z * (z / (2 * t)) \<le> z * sqrt ?v" using assms(4) by (intro mult_left_mono) simp_all
  then have "p + z * z / (2 * t) - z * sqrt ?v \<le> p * (1 + z * z / t)"
  proof -
    assume "z * (z / (2 * t)) \<le> z * sqrt ?v"
    moreover have "0 \<le> p * (z * z / t)" using assms(1,3,4) by simp
    ultimately show ?thesis by (simp add: distrib_left)
  qed
  then show "lb \<le> p" unfolding lb_def mx using den by (simp add: pos_divide_le_eq)
qed

text \<open>The posterior mean the confidence bound is drawn from.\<close>

definition posterior_mean :: "real \<Rightarrow> nat \<Rightarrow> real \<Rightarrow> real \<Rightarrow> real" where
  "posterior_mean ratio n a b = (clamp01 ratio * real n + max a 0) / (real n + max a 0 + max b 0)"

lemma posterior_mean_bounds:
  assumes "0 < real n + max a 0 + max b 0"
  shows "0 \<le> posterior_mean ratio n a b" "posterior_mean ratio n a b \<le> 1"
proof -
  have "clamp01 ratio * real n \<le> 1 * real n" by (intro mult_right_mono) simp_all
  then show "0 \<le> posterior_mean ratio n a b" "posterior_mean ratio n a b \<le> 1"
    using assms by (auto simp: posterior_mean_def divide_le_eq)
qed

lemma confidence_le_mean:
  assumes "0 < real n + max a 0 + max b 0"
  shows "confidence_reputation ratio n a b z \<le> posterior_mean ratio n a b"
proof (cases "z \<le> 0")
  case True
  then show ?thesis using assms posterior_mean_bounds [OF assms, of ratio]
    by (simp add: confidence_reputation_def Let_def posterior_mean_def)
next
  case False
  define t where "t = real n + max a 0 + max b 0"
  define p where "p = posterior_mean ratio n a b"
  define lb where "lb = (p + z * z / (2 * t) - z * sqrt (max (p * (1 - p) / t + z * z / (4 * t * t)) 0)) / (1 + z * z / t)"
  have t: "0 < t" and p: "0 \<le> p" "p \<le> 1" using assms posterior_mean_bounds [OF assms, of ratio] by (simp_all add: t_def p_def)
  have z: "0 < z" using False by simp
  have w: "0 \<le> lb" "lb \<le> p" unfolding lb_def by (rule wilson_bounds [OF p t z])+
  have pt: "(clamp01 ratio * real n + max a 0) / t = p" by (simp add: p_def t_def posterior_mean_def)
  have "confidence_reputation ratio n a b z = clamp01 lb"
    using False t unfolding confidence_reputation_def Let_def t_def [symmetric] pt lb_def by simp
  also have "\<dots> = lb" using w p by (intro clamp01_id) simp_all
  finally show ?thesis using w by (simp add: p_def)
qed

text \<open>The bound is not monotone in the number of observations, contrary to its documentation.\<close>

lemma confidence_not_monotone:
  "confidence_reputation 0 2 1 1 0 < confidence_reputation 0 0 1 1 0"
  by (simp add: confidence_reputation_def clamp01_def)

lemma trust_run_inv: "trust_inv s \<Longrightarrow> trust_inv (fold (apply_op C) ops s)"
  by (induction ops arbitrary: s) (simp_all add: apply_op_inv)

lemma with_worker_caps:
  "max_workers (with_worker w f s) = max_workers s" "max_obs_per_worker (with_worker w f s) = max_obs_per_worker s"
  by (simp_all add: with_worker_def admit_worker_frame Let_def split: option.split)

lemma apply_op_frame:
  "max_workers (apply_op C op s) = max_workers s \<and> max_obs_per_worker (apply_op C op s) = max_obs_per_worker s"
  by (cases op) (simp_all add: record_receipt_def observe_capability_def observe_perf_def add_vouch_def
      penalize_def record_requester_def with_worker_caps Let_def case_prod_beta)

lemma trust_run_frame:
  "max_workers (fold (apply_op C) ops s) = max_workers s \<and>
   max_obs_per_worker (fold (apply_op C) ops s) = max_obs_per_worker s"
  by (induction ops arbitrary: s) (simp_all add: apply_op_frame)

definition toy_receipt :: receipt where
  "toy_receipt = \<lparr>job_id = ''j'', worker_id = ''w'', query_hash = [], result_hash = [], verdict = Correct,
     latency_ms = 5, ts = 7, observed_input_bytes = 0, observed_result_rows = 0, observed_result_bytes = 0,
     input_fingerprint = [], requester_id = ''r'', requester_pubkey = [], sig = []\<rparr>"

section \<open>Properties\<close>

text \<open>
  C34: the store's memory is bounded and its rates are rates. Whatever sequence of receipts,
  observations, vouches, penalties and requester reports arrives, no more workers are tracked than
  configured, no worker's history is longer than configured or holds two observations of the same
  receipt, and a reputation lies between zero and one.
\<close>

theorem trust_store_bounded:
  fixes C h c n ops
  defines "s \<equiv> fold (apply_op C) ops (trust_new h c n)"
  shows "tracked_workers s \<le> max n 1 \<and> observation_count s w \<le> max c 1 \<and>
    (\<forall>st. hget (workers s) w = Some st \<longrightarrow> distinct (map obs_fp (observations st))) \<and>
    (\<forall>x. reputation s w now = Some x \<longrightarrow> 0 \<le> x \<and> x \<le> 1)"
proof -
  have inv: "trust_inv s" unfolding s_def by (rule trust_run_inv [OF trust_inv_new])
  have m: "max_workers s = max n 1" "max_obs_per_worker s = max c 1"
    unfolding s_def using trust_run_frame [of C ops "trust_new h c n"] by (simp_all add: trust_new_def)
  have o: "ordered_ok (max_workers s) (worker_order s) (workers s)" using inv by (simp only: trust_inv_def)
  have "length (workers s) = length (worker_order s)"
    using o unfolding ordered_ok_def by (metis distinct_card length_map)
  then have tr: "tracked_workers s \<le> max n 1" using o m by (simp add: ordered_ok_def tracked_workers_def)
  show ?thesis
  proof (cases "hget (workers s) w")
    case None
    with tr show ?thesis by (simp add: observation_count_def reputation_def)
  next
    case (Some st)
    have ok: "fifo_ok (max c 1) obs_fp (observations st) (seen st)" "\<forall>ob\<in>set (observations st). obs_weight ob = 1"
      using worker_ok_hget [OF inv Some] m by (simp_all add: worker_ok_def)
    have "0 \<le> x \<and> x \<le> 1" if "reputation s w now = Some x" for x
    proof -
      from that Some have wr: "weighted_rate s now (observations st) = Some x" by (simp add: reputation_def)
      then have "observations st \<noteq> []" by (auto simp: weighted_rate_def)
      from weighted_rate_unit [OF this ok(2), of s now] wr show ?thesis by simp
    qed
    with tr Some ok(1) show ?thesis by (simp add: observation_count_def fifo_ok_def)
  qed
qed

theorem trust_store_bounded_witness:
  "\<forall>C. \<exists>st. hget (workers (fold (apply_op C) [OpRecord toy_receipt] (trust_new 3600 4 1))) ''w'' = Some st \<and>
     distinct (map obs_fp (observations st))"
proof (rule allI)
  fix C
  let ?s = "fold (apply_op C) [OpRecord toy_receipt] (trust_new 3600 4 1)"
  have "affects_reputation (verdict toy_receipt)" "worker_id toy_receipt = ''w''"
    by (simp_all add: toy_receipt_def affects_reputation_def)
  then have st: "hget (workers ?s) ''w'' = Some (note_receipt C 4 toy_receipt worker_new)"
    by (simp add: trust_new_def record_receipt_def with_worker_def admit_worker_def hcontains_def)
  with trust_store_bounded [of C "[OpRecord toy_receipt]" 3600 4 1 "''w''" 9]
  show "\<exists>st. hget (workers ?s) ''w'' = Some st \<and> distinct (map obs_fp (observations st))" by blast
qed

text \<open>
  a replayed receipt does not count twice. Once a receipt of a new worker has been recorded,
  presenting it again changes nothing, as long as fewer receipts came in between than the store has
  room for, whatever they are.
\<close>

theorem replay_ignored:
  fixes C
  assumes "trust_inv s" "worker_id r \<notin> set (worker_order s)"
    and "length rs < max_workers s" "length rs < max_obs_per_worker s"
  defines "s' \<equiv> fold (record_receipt C) rs (record_receipt C r s)"
  shows "record_receipt C r s' = s'"
proof (cases "affects_reputation (verdict r)")
  case True
  have "remembered (worker_id r) (receipt_fingerprint C r) (length rs) (record_receipt C r s)"
    by (rule remembered_new [OF assms(1) True assms(2,3,4)])
  then have "remembered (worker_id r) (receipt_fingerprint C r) 0 s'" unfolding s'_def by (rule remembered_run)
  then show ?thesis by (rule remembered_replay)
next
  case False
  then show ?thesis by (simp add: record_receipt_def)
qed

theorem replay_ignored_witness:
  "\<forall>C. record_receipt C toy_receipt (fold (record_receipt C) [toy_receipt\<lparr>job_id := ''k''\<rparr>, toy_receipt\<lparr>worker_id := ''v''\<rparr>]
     (record_receipt C toy_receipt (trust_new 3600 4 3))) =
   fold (record_receipt C) [toy_receipt\<lparr>job_id := ''k''\<rparr>, toy_receipt\<lparr>worker_id := ''v''\<rparr>]
     (record_receipt C toy_receipt (trust_new 3600 4 3))"
  by (rule allI, rule replay_ignored [OF trust_inv_new]) (simp_all add: trust_new_def)

text \<open>
  the confidence-aware reputation is cautious: it never exceeds the posterior mean of the success
  rate under the configured prior, and lies between zero and one.
\<close>

theorem confidence_cautious:
  assumes "0 < real n + max a 0 + max b 0"
  shows "0 \<le> confidence_reputation ratio n a b z \<and>
    confidence_reputation ratio n a b z \<le> (clamp01 ratio * real n + max a 0) / (real n + max a 0 + max b 0) \<and>
    confidence_reputation ratio n a b z \<le> 1"
proof -
  have "0 \<le> confidence_reputation ratio n a b z"
    unfolding confidence_reputation_def Let_def by (simp only: clamp01_bounds order_refl split: if_split) simp
  with confidence_le_mean [OF assms, of ratio z] posterior_mean_bounds(2) [OF assms, of ratio]
  show ?thesis unfolding posterior_mean_def by linarith
qed

theorem confidence_cautious_witness: "confidence_reputation 1 3 1 1 (49 / 25) \<le> 4 / 5"
  using confidence_cautious [of 3 1 1 1 "49 / 25"] by (simp add: clamp01_def)

end
