(* ===== verification/Persistent.thy ===== *)
theory Persistent
  imports Reputation "HOL-Library.While_Combinator"
begin

text \<open>
  The durable trust store (\<open>trust/src/persistent.rs\<close>), an implementation of the same trait as
  the in-memory store of \<open>Reputation\<close>. The embedded database and the JSON codec are an argument;
  \<open>redb_laws\<close> states what the code relies on: tables keep what was inserted, the order table
  iterates by ascending key, and a worker's record decodes to what was encoded (fractions being
  reals, the rounding of printed floats is not represented). A write transaction that fails changes
  nothing. The theorem is a refinement: whatever is reported, the durable store answers every query
  as the in-memory store does.
\<close>

section \<open>Records, tables and transactions\<close>

record persist_worker =
  pw_obs :: "observation list"
  pw_seen :: "u64 list"
  pw_voucher :: real
  pw_penalty :: real
  pw_seq :: nat
  pw_capability :: proven_capability
  pw_cap_seen :: "u64 list"
  pw_perf :: perf_aggregate
  pw_perf_seen :: "u64 list"

definition persist_default :: persist_worker where
  "persist_default = \<lparr>pw_obs = [], pw_seen = [], pw_voucher = 0, pw_penalty = 0, pw_seq = 0,
     pw_capability = capability_default, pw_cap_seen = [], pw_perf = perf_default, pw_perf_seen = []\<rparr>"

text \<open>
  The three tables of the database (\<open>WORKERS\<close>, \<open>ORDER\<close> and the \<open>next_seq\<close> entry of
  \<open>META\<close>) and the codec; \<open>'d\<close> is the type of databases and \<open>'b\<close> of encoded records.
\<close>

record ('d, 'b) redb =
  w_get :: "'d \<Rightarrow> string \<Rightarrow> 'b option"
  w_insert :: "string \<Rightarrow> 'b \<Rightarrow> 'd \<Rightarrow> 'd"
  w_remove :: "string \<Rightarrow> 'd \<Rightarrow> 'd"
  w_len :: "'d \<Rightarrow> nat"
  o_first :: "'d \<Rightarrow> (nat \<times> string) option"
  o_insert :: "nat \<Rightarrow> string \<Rightarrow> 'd \<Rightarrow> 'd"
  o_remove :: "nat \<Rightarrow> 'd \<Rightarrow> 'd"
  m_get :: "'d \<Rightarrow> nat option"
  m_insert :: "nat \<Rightarrow> 'd \<Rightarrow> 'd"
  to_vec :: "persist_worker \<Rightarrow> 'b"
  from_slice :: "'b \<Rightarrow> persist_worker option"

record 'd redb_store =
  db :: 'd
  ps_half_life :: real
  ps_max_obs :: nat
  ps_max_workers :: nat

datatype trust_store_error = Redb

definition redb_open :: "'d \<Rightarrow> nat \<Rightarrow> nat \<Rightarrow> nat \<Rightarrow> 'd redb_store" where
  "redb_open d reputation_half_life_secs receipt_cache_per_worker trust_store_capacity =
     \<lparr>db = d, ps_half_life = real reputation_half_life_secs, ps_max_obs = max receipt_cache_per_worker 1,
      ps_max_workers = max trust_store_capacity 1\<rparr>"

definition decode_worker :: "('d, 'b) redb \<Rightarrow> 'b \<Rightarrow> persist_worker" where
  "decode_worker D bs = (case from_slice D bs of None \<Rightarrow> persist_default | Some st \<Rightarrow> st)"

text \<open>\<open>io\<close> says whether the transaction succeeds.\<close>

definition read_worker ::
  "('d, 'b) redb \<Rightarrow> bool \<Rightarrow> 'd redb_store \<Rightarrow> string \<Rightarrow> trust_store_error + persist_worker option" where
  "read_worker D io p w = (if io then Inr (map_option (decode_worker D) (w_get D (db p) w)) else Inl Redb)"

definition read_ok :: "('d, 'b) redb \<Rightarrow> bool \<Rightarrow> 'd redb_store \<Rightarrow> string \<Rightarrow> persist_worker option" where
  "read_ok D io p w = (case read_worker D io p w of Inl e \<Rightarrow> None | Inr x \<Rightarrow> x)"

definition trim_obs :: "nat \<Rightarrow> persist_worker \<Rightarrow> persist_worker" where
  "trim_obs cap st = (let (obs, sn) = trim_seen cap obs_fp (pw_obs st) (pw_seen st) in st\<lparr>pw_obs := obs, pw_seen := sn\<rparr>)"

text \<open>The loop that removes the oldest workers; \<open>None\<close> is a loop that does not end.\<close>

definition evict_oldest :: "('d, 'b) redb \<Rightarrow> nat \<Rightarrow> 'd \<Rightarrow> 'd option" where
  "evict_oldest D cap =
     while_option (\<lambda>d. cap < w_len D d \<and> o_first D d \<noteq> None)
       (\<lambda>d. case o_first D d of None \<Rightarrow> d | Some (sq, victim) \<Rightarrow> w_remove D victim (o_remove D sq d))"

definition mutate ::
  "('d, 'b) redb \<Rightarrow> bool \<Rightarrow> string \<Rightarrow> (persist_worker \<Rightarrow> persist_worker) \<Rightarrow> 'd redb_store \<Rightarrow>
     ((trust_store_error + unit) \<times> 'd redb_store) option" where
  "mutate D io w f p =
     (if \<not> io then Some (Inl Redb, p)
      else let d = db p;
               (st, d) = (case w_get D d w of
                    Some bs \<Rightarrow> (decode_worker D bs, d)
                  | None \<Rightarrow> let next = (case m_get D d of None \<Rightarrow> 0 | Some n \<Rightarrow> n)
                            in (persist_default\<lparr>pw_seq := next\<rparr>, o_insert D next w (m_insert D (next + 1) d)));
               d = w_insert D w (to_vec D (trim_obs (ps_max_obs p) (f st))) d
           in map_option (\<lambda>d. (Inr (), p\<lparr>db := d\<rparr>)) (evict_oldest D (ps_max_workers p) d))"

section \<open>The operations of the trait\<close>

definition pn_receipt :: "crypto \<Rightarrow> receipt \<Rightarrow> persist_worker \<Rightarrow> persist_worker" where
  "pn_receipt C r st =
     (let fp = receipt_fingerprint C r in
      if fp \<in> set (pw_seen st) then st
      else st\<lparr>pw_seen := pw_seen st @ [fp],
              pw_obs := pw_obs st @ [\<lparr>obs_ts = unat (ts r), obs_correct = is_correct (verdict r), obs_weight = 1, obs_fp = fp\<rparr>]\<rparr>)"

definition redb_record :: "crypto \<Rightarrow> ('d, 'b) redb \<Rightarrow> bool \<Rightarrow> receipt \<Rightarrow> 'd redb_store \<Rightarrow> 'd redb_store option" where
  "redb_record C D io r p =
     (if \<not> affects_reputation (verdict r) then Some p
      else map_option snd (mutate D io (worker_id r) (pn_receipt C r) p))"

text \<open>\<open>while v.len() > cap { v.remove(0) }\<close>\<close>

definition keep_last :: "nat \<Rightarrow> 'a list \<Rightarrow> 'a list" where
  "keep_last cap xs = drop (length xs - cap) xs"

definition pn_capability :: "crypto \<Rightarrow> nat \<Rightarrow> receipt \<Rightarrow> persist_worker \<Rightarrow> persist_worker" where
  "pn_capability C cap r st =
     (let fp = receipt_fingerprint C r; c = pw_capability st in
      if fp \<in> set (pw_cap_seen st) then st
      else st\<lparr>pw_cap_seen := keep_last cap (pw_cap_seen st @ [fp]),
              pw_capability := \<lparr>max_input_bytes = max (max_input_bytes c) (unat (observed_input_bytes r)),
                max_result_rows = max (max_result_rows c) (unat (observed_result_rows r)),
                max_result_bytes = max (max_result_bytes c) (unat (observed_result_bytes r)),
                successes = sat_add u32_max (successes c) 1,
                pc_last_ts = max (pc_last_ts c) (unat (ts r))\<rparr>\<rparr>)"

definition redb_observe_capability ::
  "crypto \<Rightarrow> ('d, 'b) redb \<Rightarrow> bool \<Rightarrow> receipt \<Rightarrow> 'd redb_store \<Rightarrow> 'd redb_store option" where
  "redb_observe_capability C D io r p =
     (if \<not> is_correct (verdict r) then Some p
      else map_option snd (mutate D io (worker_id r) (pn_capability C (ps_max_obs p) r) p))"

definition redb_proven_capability :: "('d, 'b) redb \<Rightarrow> bool \<Rightarrow> 'd redb_store \<Rightarrow> string \<Rightarrow> proven_capability option" where
  "redb_proven_capability D io p w =
     (case read_ok D io p w of
        None \<Rightarrow> None
      | Some st \<Rightarrow> if successes (pw_capability st) = 0 then None else Some (pw_capability st))"

definition pn_perf :: "crypto \<Rightarrow> nat \<Rightarrow> real \<Rightarrow> receipt \<Rightarrow> persist_worker \<Rightarrow> persist_worker" where
  "pn_perf C cap half_life r st =
     (let fp = receipt_fingerprint C r in
      if fp \<in> set (pw_perf_seen st) then st
      else st\<lparr>pw_perf_seen := keep_last cap (pw_perf_seen st @ [fp]),
              pw_perf := perf_fold (unat (latency_ms r)) (unat (observed_input_bytes r)) (unat (ts r)) half_life (pw_perf st)\<rparr>)"

definition redb_observe_perf ::
  "crypto \<Rightarrow> ('d, 'b) redb \<Rightarrow> bool \<Rightarrow> receipt \<Rightarrow> 'd redb_store \<Rightarrow> 'd redb_store option" where
  "redb_observe_perf C D io r p =
     (if \<not> is_correct (verdict r) then Some p
      else map_option snd (mutate D io (worker_id r) (pn_perf C (ps_max_obs p) (ps_half_life p) r) p))"

definition redb_perf_aggregate :: "('d, 'b) redb \<Rightarrow> bool \<Rightarrow> 'd redb_store \<Rightarrow> string \<Rightarrow> perf_aggregate option" where
  "redb_perf_aggregate D io p w =
     (case read_ok D io p w of
        None \<Rightarrow> None | Some st \<Rightarrow> if obs_count (pw_perf st) = 0 then None else Some (pw_perf st))"

definition redb_decay_weight :: "'d redb_store \<Rightarrow> real \<Rightarrow> real" where
  "redb_decay_weight p age = (if ps_half_life p \<le> 0 then 1 else (1 / 2) powr (max age 0 / ps_half_life p))"

definition redb_reputation :: "('d, 'b) redb \<Rightarrow> bool \<Rightarrow> 'd redb_store \<Rightarrow> string \<Rightarrow> nat \<Rightarrow> real option" where
  "redb_reputation D io p w now =
     (case read_ok D io p w of
        None \<Rightarrow> None
      | Some st \<Rightarrow>
          if pw_obs st = [] then None
          else let wt = (\<lambda>ob. obs_weight ob * redb_decay_weight p (real (now - obs_ts ob)));
                   (num, den) = fold (\<lambda>ob (num, den). (if obs_correct ob then num + wt ob else num, den + wt ob))
                                  (pw_obs st) (0, 0)
               in if den = 0 then None else Some (num / den))"

definition redb_observation_count :: "('d, 'b) redb \<Rightarrow> bool \<Rightarrow> 'd redb_store \<Rightarrow> string \<Rightarrow> nat" where
  "redb_observation_count D io p w = (case read_ok D io p w of None \<Rightarrow> 0 | Some st \<Rightarrow> length (pw_obs st))"

definition redb_add_vouch :: "('d, 'b) redb \<Rightarrow> bool \<Rightarrow> string \<Rightarrow> real \<Rightarrow> 'd redb_store \<Rightarrow> 'd redb_store option" where
  "redb_add_vouch D io w x p = map_option snd (mutate D io w (\<lambda>st. st\<lparr>pw_voucher := pw_voucher st + x\<rparr>) p)"

definition redb_voucher_trust :: "('d, 'b) redb \<Rightarrow> bool \<Rightarrow> 'd redb_store \<Rightarrow> string \<Rightarrow> real" where
  "redb_voucher_trust D io p w = (case read_ok D io p w of None \<Rightarrow> 0 | Some st \<Rightarrow> pw_voucher st)"

definition redb_penalize :: "('d, 'b) redb \<Rightarrow> bool \<Rightarrow> string \<Rightarrow> real \<Rightarrow> 'd redb_store \<Rightarrow> 'd redb_store option" where
  "redb_penalize D io w x p = map_option snd (mutate D io w (\<lambda>st. st\<lparr>pw_penalty := pw_penalty st + x\<rparr>) p)"

definition redb_penalty :: "('d, 'b) redb \<Rightarrow> bool \<Rightarrow> 'd redb_store \<Rightarrow> string \<Rightarrow> real" where
  "redb_penalty D io p w = (case read_ok D io p w of None \<Rightarrow> 0 | Some st \<Rightarrow> pw_penalty st)"

definition redb_tracked_workers :: "('d, 'b) redb \<Rightarrow> bool \<Rightarrow> 'd redb_store \<Rightarrow> nat" where
  "redb_tracked_workers D io p = (if io then w_len D (db p) else 0)"

section \<open>What the code relies on\<close>

text \<open>Insertion into a table that iterates by ascending key.\<close>

fun sorted_put :: "nat \<Rightarrow> 'v \<Rightarrow> (nat \<times> 'v) list \<Rightarrow> (nat \<times> 'v) list" where
  "sorted_put k v [] = [(k, v)]"
| "sorted_put k v ((j, u) # es) =
     (if k < j then (k, v) # (j, u) # es else if k = j then (k, v) # es else (j, u) # sorted_put k v es)"

definition redb_laws ::
  "('d, 'b) redb \<Rightarrow> ('d \<Rightarrow> string \<Rightarrow> 'b option) \<Rightarrow> ('d \<Rightarrow> (nat \<times> string) list) \<Rightarrow> ('d \<Rightarrow> nat option) \<Rightarrow> bool" where
  "redb_laws D WT OT MT \<longleftrightarrow>
     (\<forall>d k. w_get D d k = WT d k) \<and>
     (\<forall>d k v. WT (w_insert D k v d) = (WT d)(k \<mapsto> v) \<and> OT (w_insert D k v d) = OT d \<and> MT (w_insert D k v d) = MT d) \<and>
     (\<forall>d k. WT (w_remove D k d) = (WT d)(k := None) \<and> OT (w_remove D k d) = OT d \<and> MT (w_remove D k d) = MT d) \<and>
     (\<forall>d. w_len D d = card (dom (WT d))) \<and>
     (\<forall>d. o_first D d = (case OT d of [] \<Rightarrow> None | e # es \<Rightarrow> Some e)) \<and>
     (\<forall>d k v. WT (o_insert D k v d) = WT d \<and> OT (o_insert D k v d) = sorted_put k v (OT d) \<and> MT (o_insert D k v d) = MT d) \<and>
     (\<forall>d k. WT (o_remove D k d) = WT d \<and> OT (o_remove D k d) = filter (\<lambda>e. fst e \<noteq> k) (OT d) \<and> MT (o_remove D k d) = MT d) \<and>
     (\<forall>d. m_get D d = MT d) \<and>
     (\<forall>d n. WT (m_insert D n d) = WT d \<and> OT (m_insert D n d) = OT d \<and> MT (m_insert D n d) = Some n) \<and>
     (\<forall>st. from_slice D (to_vec D st) = Some st)"

lemma redb_lawsD:
  assumes "redb_laws D WT OT MT"
  shows "w_get D d k = WT d k" "WT (w_insert D k v d) = (WT d)(k \<mapsto> v)" "OT (w_insert D k v d) = OT d"
    "MT (w_insert D k v d) = MT d" "WT (w_remove D k d) = (WT d)(k := None)" "OT (w_remove D k d) = OT d"
    "MT (w_remove D k d) = MT d" "w_len D d = card (dom (WT d))"
    "o_first D d = (case OT d of [] \<Rightarrow> None | e # es \<Rightarrow> Some e)" "WT (o_insert D n k d) = WT d"
    "OT (o_insert D n k d) = sorted_put n k (OT d)" "MT (o_insert D n k d) = MT d" "WT (o_remove D n d) = WT d"
    "OT (o_remove D n d) = filter (\<lambda>e. fst e \<noteq> n) (OT d)" "MT (o_remove D n d) = MT d" "m_get D d = MT d"
    "WT (m_insert D n d) = WT d" "OT (m_insert D n d) = OT d" "MT (m_insert D n d) = Some n"
    "from_slice D (to_vec D st) = Some st"
  using assms unfolding redb_laws_def by blast+

lemma sorted_put_last: "\<forall>e\<in>set es. fst e < k \<Longrightarrow> sorted_put k v es = es @ [(k, v)]"
  by (induction es) auto

section \<open>One worker\<close>

definition same_worker :: "persist_worker \<Rightarrow> worker_state \<Rightarrow> bool" where
  "same_worker pw st \<longleftrightarrow> observations st = pw_obs pw \<and> set (seen st) = set (pw_seen pw) \<and>
     ws_voucher st = pw_voucher pw \<and> ws_penalty st = pw_penalty pw \<and>
     capability st = pw_capability pw \<and> cap_seen_order st = pw_cap_seen pw \<and>
     perf st = pw_perf pw \<and> perf_seen_order st = pw_perf_seen pw"

lemma same_worker_new: "same_worker (persist_default\<lparr>pw_seq := n\<rparr>) worker_new"
  by (simp add: same_worker_def persist_default_def worker_new_def)

lemma trim_seen_cong: "set sn = set sn' \<Longrightarrow> set (snd (trim_seen cap key xs sn)) = set (snd (trim_seen cap key xs sn'))"
proof (induction xs arbitrary: sn sn')
  case Nil
  then show ?case by simp
next
  case (Cons x xs)
  then have "set (removeAll (key x) sn) = set (removeAll (key x) sn')" by simp
  from Cons.IH [OF this] Cons.prems show ?case by simp
qed

lemma trim_seen_id: "length xs \<le> cap \<Longrightarrow> trim_seen cap key xs sn = (xs, sn)"
  by (cases xs) auto

lemma trim_obs_idle:
  "same_worker pw st \<Longrightarrow> worker_ok m st \<Longrightarrow> pw_obs pw' = pw_obs pw \<Longrightarrow> trim_obs m pw' = pw'"
  by (simp add: trim_obs_def same_worker_def worker_ok_def fifo_ok_def trim_seen_id)

lemma pn_receipt_same:
  assumes s: "same_worker pw st" and ok: "worker_ok m st"
  shows "same_worker (trim_obs m (pn_receipt C r pw)) (note_receipt C m r st)"
proof (cases "receipt_fingerprint C r \<in> set (seen st)")
  case True
  then have "pn_receipt C r pw = pw" using s by (simp add: pn_receipt_def same_worker_def)
  with True s trim_obs_idle [OF s ok] show ?thesis by (simp add: note_receipt_def)
next
  case False
  let ?fp = "receipt_fingerprint C r"
  let ?xs = "observations st @ [\<lparr>obs_ts = unat (ts r), obs_correct = is_correct (verdict r), obs_weight = 1, obs_fp = ?fp\<rparr>]"
  have "?fp \<notin> set (pw_seen pw)" using s False by (simp add: same_worker_def)
  moreover have "set (snd (trim_seen m obs_fp ?xs (?fp # seen st))) = set (snd (trim_seen m obs_fp ?xs (pw_seen pw @ [?fp])))"
    using s by (intro trim_seen_cong) (simp add: same_worker_def)
  ultimately show ?thesis
    using s False
    by (simp add: pn_receipt_def note_receipt_def trim_obs_def same_worker_def Let_def case_prod_beta fst_trim_seen)
qed

lemma pn_capability_same:
  assumes s: "same_worker pw st" and ok: "worker_ok m st"
  shows "same_worker (trim_obs m (pn_capability C m r pw)) (note_capability C m r st)"
proof -
  have "set (cap_seen st) = set (pw_cap_seen pw)" using s ok by (simp add: same_worker_def worker_ok_def fifo_ok_def)
  moreover have "trim_obs m (pn_capability C m r pw) = pn_capability C m r pw"
    by (rule trim_obs_idle [OF s ok]) (simp add: pn_capability_def Let_def)
  ultimately show ?thesis
    using s by (simp add: pn_capability_def note_capability_def same_worker_def Let_def case_prod_beta fst_trim_seen keep_last_def)
qed

lemma pn_perf_same:
  assumes s: "same_worker pw st" and ok: "worker_ok m st"
  shows "same_worker (trim_obs m (pn_perf C m h r pw)) (note_perf C m h r st)"
proof -
  have "set (perf_seen st) = set (pw_perf_seen pw)" using s ok by (simp add: same_worker_def worker_ok_def fifo_ok_def)
  moreover have "trim_obs m (pn_perf C m h r pw) = pn_perf C m h r pw"
    by (rule trim_obs_idle [OF s ok]) (simp add: pn_perf_def Let_def)
  ultimately show ?thesis
    using s by (simp add: pn_perf_def note_perf_def same_worker_def Let_def case_prod_beta fst_trim_seen keep_last_def)
qed

section \<open>The whole store\<close>

definition mirrors ::
  "('d, 'b) redb \<Rightarrow> ('d \<Rightarrow> string \<Rightarrow> 'b option) \<Rightarrow> ('d \<Rightarrow> (nat \<times> string) list) \<Rightarrow> ('d \<Rightarrow> nat option) \<Rightarrow>
     'd redb_store \<Rightarrow> trust_store \<Rightarrow> bool" where
  "mirrors D WT OT MT p s \<longleftrightarrow> trust_inv s \<and>
     ps_half_life p = half_life_secs s \<and> ps_max_obs p = max_obs_per_worker s \<and> ps_max_workers p = max_workers s \<and>
     map snd (OT (db p)) = worker_order s \<and> distinct (map fst (OT (db p))) \<and>
     (\<forall>e\<in>set (OT (db p)). fst e < (case MT (db p) of None \<Rightarrow> 0 | Some n \<Rightarrow> n)) \<and>
     (\<forall>w. rel_option same_worker (map_option (decode_worker D) (WT (db p) w)) (hget (workers s) w))"

lemma evict_oldest_idle: "w_len D d \<le> cap \<Longrightarrow> evict_oldest D cap d = Some d"
  by (simp add: evict_oldest_def while_option_unfold)

lemma evict_oldest_one:
  assumes "cap < w_len D d" "o_first D d = Some (sq, v)" "w_len D (w_remove D v (o_remove D sq d)) \<le> cap"
  shows "evict_oldest D cap d = Some (w_remove D v (o_remove D sq d))"
  using assms evict_oldest_idle [OF assms(3)] unfolding evict_oldest_def by (subst while_option_unfold) simp

lemma mirrors_dom:
  assumes "mirrors D WT OT MT p s"
  shows "dom (WT (db p)) = set (worker_order s)"
proof -
  have r: "\<forall>w. rel_option same_worker (map_option (decode_worker D) (WT (db p) w)) (hget (workers s) w)"
    and o: "set (worker_order s) = set (hkeys (workers s))"
    using assms by (simp_all add: mirrors_def trust_inv_def ordered_ok_def)
  have "WT (db p) w = None \<longleftrightarrow> hget (workers s) w = None" for w
    using r [rule_format, of w] by (cases "WT (db p) w"; cases "hget (workers s) w") simp_all
  then show ?thesis unfolding o by (auto simp: dom_def map_of_eq_None_iff)
qed

lemma card_order: "trust_inv s \<Longrightarrow> card (set (worker_order s)) = length (worker_order s)"
  unfolding trust_inv_def ordered_ok_def by (intro distinct_card) blast

lemma hget_with_worker_cases:
  assumes "trust_inv s" "trust_inv (with_worker w f s)"
  shows "hget (workers (with_worker w f s)) v =
    (if v = w then Some (f (case hget (workers s) w of None \<Rightarrow> worker_new | Some st \<Rightarrow> st))
     else if v \<in> set (worker_order (with_worker w f s)) then hget (workers s) v else None)"
proof -
  have "hget (workers (with_worker w f s)) v = None" if "v \<notin> set (worker_order (with_worker w f s))"
    using that assms(2) by (simp add: trust_inv_def ordered_ok_def map_of_eq_None_iff)
  then show ?thesis
    using hget_with_worker [OF assms(1), of w f] hget_with_worker_survivor [OF assms(1), of v w f] by simp
qed

lemma mutate_known:
  assumes L: "redb_laws D WT OT MT" and m: "mirrors D WT OT MT p s" and k: "WT (db p) w = Some bs"
  shows "mutate D True w F p =
    Some (Inr (), p\<lparr>db := w_insert D w (to_vec D (trim_obs (ps_max_obs p) (F (decode_worker D bs)))) (db p)\<rparr>)"
proof -
  have inv: "trust_inv s" and c: "ps_max_workers p = max_workers s" using m by (simp_all add: mirrors_def)
  have "w \<in> dom (WT (db p))" using k by blast
  then have "card (insert w (dom (WT (db p)))) \<le> max_workers s"
    using card_order [OF inv] mirrors_dom [OF m] inv by (simp add: insert_absorb trust_inv_def ordered_ok_def)
  then have "evict_oldest D (ps_max_workers p) (w_insert D w v (db p)) = Some (w_insert D w v (db p))" for v
    by (intro evict_oldest_idle) (simp add: redb_lawsD [OF L] c)
  with k show ?thesis by (simp add: mutate_def redb_lawsD [OF L])
qed

lemma evict_oldest_spec:
  assumes L: "redb_laws D WT OT MT" and df: "distinct (map fst (OT d))" and ds: "distinct (map snd (OT d))"
    and dom: "dom (WT d) = snd ` set (OT d)" and cap: "length (OT d) \<le> Suc cap"
  defines "order \<equiv> drop (length (OT d) - cap) (OT d)"
  shows "\<exists>d'. evict_oldest D cap d = Some d' \<and> OT d' = order \<and> MT d' = MT d \<and>
    WT d' = (\<lambda>u. if u \<in> snd ` set order then WT d u else None)"
proof -
  have l: "w_len D d = length (OT d)"
    using distinct_card [OF ds] by (simp add: redb_lawsD(8) [OF L] dom)
  show ?thesis
  proof (cases "length (OT d) \<le> cap")
    case True
    have "WT d u = None" if "u \<notin> snd ` set (OT d)" for u using that dom by blast
    with True evict_oldest_idle [of D d cap] show ?thesis by (auto simp: l order_def)
  next
    case False
    then obtain sq u es where O: "OT d = (sq, u) # es" by (metis neq_Nil_conv surj_pair le0 list.size(3))
    let ?d = "w_remove D u (o_remove D sq d)"
    have order: "order = es" "length es = cap" using False cap O by (auto simp: order_def le_Suc_eq)
    have u: "u \<notin> snd ` set es" using ds O by simp
    have "filter (\<lambda>e. fst e \<noteq> sq) es = es" using df O by (intro filter_True) auto
    then have "OT ?d = es" "MT ?d = MT d" by (simp_all add: redb_lawsD [OF L] O)
    moreover have W: "WT ?d = (\<lambda>x. if x \<in> snd ` set es then WT d x else None)"
      using dom u by (auto simp: redb_lawsD [OF L] O fun_eq_iff)
    moreover have "dom (WT ?d) = snd ` set es" unfolding W using dom O by (simp add: dom_if) blast
    then have "w_len D ?d = cap" using ds O order(2) distinct_card [of "map snd es"] by (simp add: redb_lawsD(8) [OF L])
    then have "evict_oldest D cap d = Some ?d"
      using False by (intro evict_oldest_one) (simp_all add: l redb_lawsD(9) [OF L] O)
    ultimately show ?thesis by (simp add: order(1))
  qed
qed

lemma mutate_new:
  fixes F :: "persist_worker \<Rightarrow> persist_worker"
  assumes L: "redb_laws D WT OT MT" and m: "mirrors D WT OT MT p s" and k: "WT (db p) w = None"
  defines "n \<equiv> (case MT (db p) of None \<Rightarrow> 0 | Some n \<Rightarrow> n)"
  defines "v \<equiv> to_vec D (trim_obs (ps_max_obs p) (F (persist_default\<lparr>pw_seq := n\<rparr>)))"
  defines "order \<equiv> drop (Suc (length (OT (db p))) - ps_max_workers p) (OT (db p))"
  shows "\<exists>d. mutate D True w F p = Some (Inr (), p\<lparr>db := d\<rparr>) \<and> OT d = order @ [(n, w)] \<and> MT d = Some (Suc n) \<and>
    WT d = (\<lambda>u. if u = w then Some v else if u \<in> snd ` set order then WT (db p) u else None)"
proof -
  define d where "d = w_insert D w v (o_insert D n w (m_insert D (Suc n) (db p)))"
  let ?O = "OT (db p)"
  have inv: "trust_inv s" and c: "ps_max_workers p = max_workers s" and o: "map snd ?O = worker_order s"
    and df: "distinct (map fst ?O)" and less: "\<forall>e\<in>set ?O. fst e < n"
    using m by (simp_all add: mirrors_def n_def)
  have len: "length ?O = length (worker_order s)" using o by (metis length_map)
  have dom: "dom (WT (db p)) = snd ` set ?O" using mirrors_dom [OF m] o by (metis set_map)
  have ds: "distinct (map snd ?O)" "length ?O \<le> ps_max_workers p" "0 < ps_max_workers p"
    using inv len by (simp_all add: o c trust_inv_def ordered_ok_def)
  have w: "w \<notin> snd ` set ?O" using k dom by auto
  have W: "WT d = (WT (db p))(w \<mapsto> v)" and O: "OT d = ?O @ [(n, w)]" and M: "MT d = Some (Suc n)"
    using sorted_put_last [OF less] by (simp_all add: d_def redb_lawsD [OF L])
  have drop: "drop (length (OT d) - ps_max_workers p) (OT d) = order @ [(n, w)]"
    using ds(3) by (simp add: O order_def)
  obtain d' where "evict_oldest D (ps_max_workers p) d = Some d'" "OT d' = order @ [(n, w)]" "MT d' = Some (Suc n)"
    "WT d' = (\<lambda>u. if u \<in> snd ` set (order @ [(n, w)]) then WT d u else None)"
    using evict_oldest_spec [OF L, of d "ps_max_workers p"] less df ds w
    unfolding drop M W by (auto simp: O dom)
  moreover have "mutate D True w F p = map_option (\<lambda>d. (Inr (), p\<lparr>db := d\<rparr>)) (evict_oldest D (ps_max_workers p) d)"
    using k by (simp add: mutate_def redb_lawsD(1,16) [OF L] d_def n_def v_def Let_def)
  ultimately show ?thesis by (intro exI [of _ d']) (auto simp: W fun_eq_iff)
qed

text \<open>Every update of one worker that agrees on records agrees on stores.\<close>

lemma mirrors_upd:
  assumes m: "mirrors D WT OT MT p s" and inv: "trust_inv (with_worker w f s)"
    and p': "p' = p\<lparr>db := d\<rparr>" and o: "map snd (OT d) = worker_order (with_worker w f s)"
    and k: "distinct (map fst (OT d))" "\<forall>e\<in>set (OT d). fst e < (case MT d of None \<Rightarrow> 0 | Some n \<Rightarrow> n)"
    and r: "\<And>v. rel_option same_worker (map_option (decode_worker D) (WT d v)) (hget (workers (with_worker w f s)) v)"
  shows "mirrors D WT OT MT p' (with_worker w f s)"
  using m inv o k r with_worker_order [of s w f] by (simp add: mirrors_def p')

lemma mirrorsD:
  assumes "mirrors D WT OT MT p s"
  shows "trust_inv s" "ps_max_obs p = max_obs_per_worker s" "ps_max_workers p = max_workers s"
    "map snd (OT (db p)) = worker_order s" "distinct (map fst (OT (db p)))"
    "\<forall>e\<in>set (OT (db p)). fst e < (case MT (db p) of None \<Rightarrow> 0 | Some n \<Rightarrow> n)"
    "rel_option same_worker (map_option (decode_worker D) (WT (db p) v)) (hget (workers s) v)"
    "v \<in> set (worker_order s) \<longleftrightarrow> WT (db p) v \<noteq> None"
  using assms mirrors_dom [OF assms] by (auto simp: mirrors_def)

lemma decode_encode: "redb_laws D WT OT MT \<Longrightarrow> decode_worker D (to_vec D st) = st"
  by (simp add: decode_worker_def redb_lawsD(20))

lemma mutate_refines_known:
  assumes L: "redb_laws D WT OT MT" and m: "mirrors D WT OT MT p s" and Some: "WT (db p) w = Some bs"
    and F: "\<And>pw st. same_worker pw st \<Longrightarrow> worker_ok (max_obs_per_worker s) st \<Longrightarrow>
      same_worker (trim_obs (max_obs_per_worker s) (F pw)) (f st)"
    and inv': "trust_inv (with_worker w f s)"
  shows "\<exists>p'. mutate D True w F p = Some (Inr (), p') \<and> mirrors D WT OT MT p' (with_worker w f s)"
proof -
  note M = mirrorsD [OF m]
  let ?d = "w_insert D w (to_vec D (trim_obs (ps_max_obs p) (F (decode_worker D bs)))) (db p)"
  obtain st where st: "hget (workers s) w = Some st" "same_worker (decode_worker D bs) st"
    using M(7) [of w] Some by (cases "hget (workers s) w") simp_all
  have ord: "worker_order (with_worker w f s) = worker_order s"
    using with_worker_order [OF M(1), of w f] M(8) [of w] Some by simp
  have "rel_option same_worker (map_option (decode_worker D) (WT ?d v)) (hget (workers (with_worker w f s)) v)" for v
    using M(7) [of v] st F [OF st(2) worker_ok_hget [OF M(1) st(1)]] M(8) [of v]
    by (cases "v = w") (auto simp: hget_with_worker_cases [OF M(1) inv'] ord redb_lawsD(2) [OF L] decode_encode [OF L] M(2))
  then show ?thesis
    using M(4-6) mutate_known [OF L m Some, of F] ord
    by (intro exI [of _ "p\<lparr>db := ?d\<rparr>"] conjI mirrors_upd [OF m inv' refl]) (simp_all add: redb_lawsD(3,4) [OF L])
qed

lemma mutate_refines_new:
  assumes L: "redb_laws D WT OT MT" and m: "mirrors D WT OT MT p s" and None: "WT (db p) w = None"
    and F: "\<And>pw st. same_worker pw st \<Longrightarrow> worker_ok (max_obs_per_worker s) st \<Longrightarrow>
      same_worker (trim_obs (max_obs_per_worker s) (F pw)) (f st)"
    and inv': "trust_inv (with_worker w f s)"
  shows "\<exists>p'. mutate D True w F p = Some (Inr (), p') \<and> mirrors D WT OT MT p' (with_worker w f s)"
proof -
  note M = mirrorsD [OF m]
  define n where "n = (case MT (db p) of None \<Rightarrow> 0 | Some n \<Rightarrow> n)"
  define order where "order = drop (Suc (length (OT (db p))) - ps_max_workers p) (OT (db p))"
  obtain d where d: "mutate D True w F p = Some (Inr (), p\<lparr>db := d\<rparr>)" "OT d = order @ [(n, w)]" "MT d = Some (Suc n)"
    "WT d = (\<lambda>u. if u = w then Some (to_vec D (trim_obs (ps_max_obs p) (F (persist_default\<lparr>pw_seq := n\<rparr>))))
      else if u \<in> snd ` set order then WT (db p) u else None)"
    using mutate_new [OF L m None, of F] unfolding n_def order_def by blast
  have len: "length (OT (db p)) = length (worker_order s)" using M(4) by (metis length_map)
  have hn: "hget (workers s) w = None" using M(7) [of w] None by (cases "hget (workers s) w") simp_all
  have mo: "map snd order = drop (Suc (length (worker_order s)) - max_workers s) (worker_order s)"
    by (simp add: order_def drop_map [symmetric] M(3,4) len)
  then have ord: "worker_order (with_worker w f s) = map snd (OT d)"
    using with_worker_order [OF M(1), of w f] M(8) [of w] None d(2) by simp
  have mem: "v \<in> set (worker_order (with_worker w f s)) \<longleftrightarrow> v = w \<or> v \<in> snd ` set order" for v
    unfolding ord d(2) by auto
  have new: "same_worker (trim_obs (max_obs_per_worker s) (F (persist_default\<lparr>pw_seq := n\<rparr>))) (f worker_new)"
    using M(1) by (intro F same_worker_new worker_ok_new) (simp add: trust_inv_def)
  have "rel_option same_worker (map_option (decode_worker D) (WT d v)) (hget (workers (with_worker w f s)) v)" for v
    using M(7) [of v] new hn by (auto simp: hget_with_worker_cases [OF M(1) inv'] mem d(4) decode_encode [OF L] M(2))
  moreover have "\<forall>e\<in>set order. fst e < n" "distinct (map fst order)"
    unfolding order_def using M(5,6) by (auto dest: in_set_dropD simp: drop_map [symmetric] n_def)
  ultimately show ?thesis
    using d(1-3) by (intro exI [of _ "p\<lparr>db := d\<rparr>"] conjI mirrors_upd [OF m inv' refl]) (auto simp: ord)
qed

lemma mutate_refines:
  assumes L: "redb_laws D WT OT MT" and m: "mirrors D WT OT MT p s"
    and F: "\<And>pw st. same_worker pw st \<Longrightarrow> worker_ok (max_obs_per_worker s) st \<Longrightarrow>
      same_worker (trim_obs (max_obs_per_worker s) (F pw)) (f st)"
    and f: "\<And>st. worker_ok (max_obs_per_worker s) st \<Longrightarrow> worker_ok (max_obs_per_worker s) (f st)"
  shows "\<exists>p'. map_option snd (mutate D True w F p) = Some p' \<and> mirrors D WT OT MT p' (with_worker w f s)"
proof -
  have inv': "trust_inv (with_worker w f s)" by (rule with_worker_inv [OF mirrorsD(1) [OF m] f])
  have "\<exists>p'. mutate D True w F p = Some (Inr (), p') \<and> mirrors D WT OT MT p' (with_worker w f s)"
  proof (cases "WT (db p) w")
    case None
    from L m None F inv' show ?thesis by (rule mutate_refines_new)
  next
    case (Some bs)
    from L m Some F inv' show ?thesis by (rule mutate_refines_known)
  qed
  then show ?thesis by force
qed

section \<open>Reports and queries\<close>

text \<open>A report to the durable store; the trait's default ignores reports about requesters.\<close>

fun redb_apply :: "crypto \<Rightarrow> ('d, 'b) redb \<Rightarrow> bool \<Rightarrow> trust_op \<Rightarrow> 'd redb_store \<Rightarrow> 'd redb_store option" where
  "redb_apply C D io (OpRecord r) p = redb_record C D io r p"
| "redb_apply C D io (OpCapability r) p = redb_observe_capability C D io r p"
| "redb_apply C D io (OpPerf r) p = redb_observe_perf C D io r p"
| "redb_apply C D io (OpVouch w x) p = redb_add_vouch D io w x p"
| "redb_apply C D io (OpPenalize w x) p = redb_penalize D io w x p"
| "redb_apply C D io (OpRequester rq ok t) p = Some p"

fun redb_run :: "crypto \<Rightarrow> ('d, 'b) redb \<Rightarrow> (bool \<times> trust_op) list \<Rightarrow> 'd redb_store \<Rightarrow> 'd redb_store option" where
  "redb_run C D [] p = Some p"
| "redb_run C D ((io, op) # ops) p = Option.bind (redb_apply C D io op p) (redb_run C D ops)"

lemma mirrors_record:
  assumes "redb_laws D WT OT MT" "mirrors D WT OT MT p s"
  shows "\<exists>p'. redb_apply C D True (OpRecord r) p = Some p' \<and> mirrors D WT OT MT p' (apply_op C (OpRecord r) s)"
  using mutate_refines [OF assms, of "pn_receipt C r" "note_receipt C (max_obs_per_worker s) r" "worker_id r"] assms
  by (auto simp: redb_record_def record_receipt_def pn_receipt_same worker_ok_notes)

lemma redb_apply_refines:
  assumes L: "redb_laws D WT OT MT" and m: "mirrors D WT OT MT p s"
  shows "\<exists>p'. redb_apply C D True op p = Some p' \<and> mirrors D WT OT MT p' (apply_op C op s)"
proof (cases op)
  case (OpRecord r)
  then show ?thesis using mirrors_record [OF L m] by simp
next
  case (OpCapability r)
  then show ?thesis
    using mutate_refines [OF L m, of "pn_capability C (ps_max_obs p) r" "note_capability C (max_obs_per_worker s) r" "worker_id r"] m
    by (auto simp: redb_observe_capability_def observe_capability_def pn_capability_same worker_ok_notes mirrorsD(2) [OF m])
next
  case (OpPerf r)
  have "ps_half_life p = half_life_secs s" using m by (simp add: mirrors_def)
  with OpPerf show ?thesis
    using mutate_refines [OF L m, of "pn_perf C (ps_max_obs p) (ps_half_life p) r"
        "note_perf C (max_obs_per_worker s) (half_life_secs s) r" "worker_id r"] m
    by (auto simp: redb_observe_perf_def observe_perf_def pn_perf_same worker_ok_notes mirrorsD(2) [OF m])
next
  case (OpVouch w x)
  have "same_worker pw st \<Longrightarrow> worker_ok m st \<Longrightarrow>
      same_worker (trim_obs m (pw\<lparr>pw_voucher := pw_voucher pw + x\<rparr>)) (st\<lparr>ws_voucher := ws_voucher st + x\<rparr>)" for pw st m
    by (subst trim_obs_idle [of pw st m]) (simp_all add: same_worker_def)
  then show ?thesis
    using OpVouch mutate_refines [OF L m, of "\<lambda>st. st\<lparr>pw_voucher := pw_voucher st + x\<rparr>"
        "\<lambda>st. st\<lparr>ws_voucher := ws_voucher st + x\<rparr>" w]
    by (simp add: redb_add_vouch_def add_vouch_def worker_ok_def)
next
  case (OpPenalize w x)
  have "same_worker pw st \<Longrightarrow> worker_ok m st \<Longrightarrow>
      same_worker (trim_obs m (pw\<lparr>pw_penalty := pw_penalty pw + x\<rparr>)) (st\<lparr>ws_penalty := ws_penalty st + x\<rparr>)" for pw st m
    by (subst trim_obs_idle [of pw st m]) (simp_all add: same_worker_def)
  then show ?thesis
    using OpPenalize mutate_refines [OF L m, of "\<lambda>st. st\<lparr>pw_penalty := pw_penalty st + x\<rparr>"
        "\<lambda>st. st\<lparr>ws_penalty := ws_penalty st + x\<rparr>" w]
    by (simp add: redb_penalize_def penalize_def worker_ok_def)
next
  case (OpRequester rq ok t)
  have "record_requester rq ok t s = s\<lparr>requester_order := requester_order (record_requester rq ok t s),
      requesters := requesters (record_requester rq ok t s)\<rparr>"
    by (simp add: record_requester_def Let_def case_prod_beta)
  then have "mirrors D WT OT MT p (record_requester rq ok t s)"
    using m record_requester_inv [OF mirrorsD(1) [OF m], of rq ok t] unfolding mirrors_def
    by (metis trust_store.ext_inject trust_store.surjective trust_store.update_convs(3,4))
  with OpRequester show ?thesis by simp
qed

lemma redb_apply_failed: "redb_apply C D False op p = Some p"
  by (cases op) (simp_all add: redb_record_def redb_observe_capability_def redb_observe_perf_def redb_add_vouch_def
      redb_penalize_def mutate_def)

lemma redb_run_refines:
  assumes L: "redb_laws D WT OT MT"
  shows "mirrors D WT OT MT p s \<Longrightarrow> \<exists>p'. redb_run C D ops p = Some p' \<and>
    mirrors D WT OT MT p' (fold (apply_op C) (map snd (filter fst ops)) s)"
proof (induction ops arbitrary: p s)
  case Nil
  then show ?case by simp
next
  case (Cons x ops)
  obtain io op where x: "x = (io, op)" by (cases x)
  show ?case
  proof (cases io)
    case True
    obtain p' where "redb_apply C D True op p = Some p'" "mirrors D WT OT MT p' (apply_op C op s)"
      using redb_apply_refines [OF L Cons.prems] by blast
    with Cons.IH [of p' "apply_op C op s"] True show ?thesis by (simp add: x)
  next
    case False
    with Cons show ?thesis by (simp add: x redb_apply_failed)
  qed
qed

lemma mirrors_queries:
  assumes L: "redb_laws D WT OT MT" and m: "mirrors D WT OT MT p s"
  shows "redb_reputation D True p w now = reputation s w now"
    "redb_observation_count D True p w = observation_count s w"
    "redb_proven_capability D True p w = proven_capability_of s w"
    "redb_perf_aggregate D True p w = perf_aggregate_of s w"
    "redb_voucher_trust D True p w = voucher_trust_of s w"
    "redb_penalty D True p w = penalty_of s w"
    "redb_tracked_workers D True p = tracked_workers s"
proof -
  note M = mirrorsD [OF m]
  have rd: "read_ok D True p w = map_option (decode_worker D) (WT (db p) w)"
    by (simp add: read_ok_def read_worker_def redb_lawsD(1) [OF L])
  have dw: "redb_decay_weight p = decay_weight s"
    using m by (simp add: mirrors_def redb_decay_weight_def decay_weight_def fun_eq_iff)
  show "redb_reputation D True p w now = reputation s w now" "redb_observation_count D True p w = observation_count s w"
    "redb_proven_capability D True p w = proven_capability_of s w" "redb_perf_aggregate D True p w = perf_aggregate_of s w"
    "redb_voucher_trust D True p w = voucher_trust_of s w" "redb_penalty D True p w = penalty_of s w"
    using M(7) [of w]
    by (cases "WT (db p) w"; cases "hget (workers s) w";
        simp add: redb_reputation_def reputation_def weighted_rate_def redb_observation_count_def observation_count_def
          redb_proven_capability_def proven_capability_of_def redb_perf_aggregate_def perf_aggregate_of_def
          redb_voucher_trust_def voucher_trust_of_def redb_penalty_def penalty_of_def rd dw same_worker_def)+
  have "tracked_workers s = card (set (worker_order s))"
    using M(1) by (simp add: trust_inv_def ordered_ok_def tracked_workers_def) (metis distinct_card length_map set_map)
  then show "redb_tracked_workers D True p = tracked_workers s"
    by (simp add: redb_tracked_workers_def redb_lawsD(8) [OF L] mirrors_dom [OF m])
qed

lemma mirrors_open:
  assumes "OT d = []" "WT d = (\<lambda>w. None)"
  shows "mirrors D WT OT MT (redb_open d h c n) (trust_new h c n)"
  using assms trust_inv_new [of h c n] by (simp add: mirrors_def redb_open_def trust_new_def)

text \<open>A database held in association lists, for the examples.\<close>

definition list_db ::
  "((string, persist_worker) hmap \<times> (nat \<times> string) list \<times> nat option, persist_worker) redb" where
  "list_db = \<lparr>w_get = (\<lambda>d. hget (fst d)), w_insert = (\<lambda>k v d. (hput k v (fst d), snd d)),
     w_remove = (\<lambda>k d. (hdel k (fst d), snd d)), w_len = (\<lambda>d. card (set (hkeys (fst d)))),
     o_first = (\<lambda>d. case fst (snd d) of [] \<Rightarrow> None | e # es \<Rightarrow> Some e),
     o_insert = (\<lambda>k v d. (fst d, sorted_put k v (fst (snd d)), snd (snd d))),
     o_remove = (\<lambda>k d. (fst d, filter (\<lambda>e. fst e \<noteq> k) (fst (snd d)), snd (snd d))),
     m_get = (\<lambda>d. snd (snd d)), m_insert = (\<lambda>n d. (fst d, fst (snd d), Some n)),
     to_vec = (\<lambda>st. st), from_slice = Some\<rparr>"

lemma list_db_laws: "redb_laws list_db (\<lambda>d. hget (fst d)) (\<lambda>d. fst (snd d)) (\<lambda>d. snd (snd d))"
  by (simp add: redb_laws_def list_db_def update_conv' delete_conv' dom_map_of_conv_image_fst)

section \<open>Properties\<close>



end
