(* ===== verification/Resilience.thy ===== *)
theory Resilience
  imports Faults
begin

text \<open>
  The resilient re-dispatch loop of the coordinator, \<open>run_resilient\<close> in
  \<open>crates/node/src/coordinator.rs\<close>, with the progress tracker it clears. One dispatch attempt, the
  clocks and the random number generator are arguments: an attempt sees the excluded providers and
  the capacity floor, and may report progress. The loop itself is a step function on its local
  variables and an iteration of it with fuel; counters are naturals.
\<close>

section \<open>Configuration, errors and results\<close>

datatype verify_mode = Fast | Quorum

record scheduler_config =
  replicas :: nat
  sc_quorum :: nat
  sc_verify_mode :: verify_mode
  offer_timeout_ms :: nat
  dispatch_timeout_ms :: nat
  attempt_deadline_ms :: nat
  max_retries :: nat
  max_total_duration_ms :: nat
  backoff_initial_ms :: nat
  backoff_max_ms :: nat
  backoff_jitter_frac :: real
  retry_budget_max_tokens :: real
  retry_budget_refill_per_sec :: real
  progress_interval_ms :: nat
  progress_stall_multiplier :: nat
  max_inflight_jobs :: nat
  require_staked_hosts :: bool

definition scheduler_default :: scheduler_config where
  "scheduler_default = \<lparr>replicas = 3, sc_quorum = 2, sc_verify_mode = Quorum, offer_timeout_ms = 2000,
     dispatch_timeout_ms = 30000, attempt_deadline_ms = 60000, max_retries = 0,
     max_total_duration_ms = 0, backoff_initial_ms = 200, backoff_max_ms = 5000,
     backoff_jitter_frac = 1 / 2, retry_budget_max_tokens = 32, retry_budget_refill_per_sec = 4,
     progress_interval_ms = 2000, progress_stall_multiplier = 5, max_inflight_jobs = 64,
     require_staked_hosts = False\<rparr>"

definition stall_timeout_ms :: "scheduler_config \<Rightarrow> nat" where
  "stall_timeout_ms c = sat_mul u64_max (progress_interval_ms c) (progress_stall_multiplier c)"

text \<open>\<open>CoordinatorError\<close>; the three variants that only wrap an error of another crate carry its text.\<close>

datatype coordinator_error =
    Config string
  | ErrNoCandidates
  | ErrInsufficientWorkers nat nat
  | QuorumFailed nat nat
  | ErrInfeasible string
  | ExceedsCapacity string
  | Exhausted nat string
  | RetryBudgetExhausted nat
  | NoResult
  | SettlementError string
  | InsufficientEscrow string
  | LocalExecution string
  | Transport string

datatype 'o attempt_result =
    Done 'o
  | AInconclusive "string list"
  | AInfeasible string
  | AResourceExceeded "string list" nat string
  | QuorumDisagreement nat nat
  | InputDrift string
  | NoCandidates
  | InsufficientWorkers nat nat

section \<open>Progress\<close>

record progress =
  pg_job_id :: string
  pg_worker_id :: string
  stage :: string
  rows_processed :: nat
  pct :: nat
  pg_seq :: nat
  ts_ms :: nat

type_synonym progress_tracker = "(string, progress) hmap"

definition update_progress :: "progress \<Rightarrow> progress_tracker \<Rightarrow> progress_tracker" where
  "update_progress p t =
     (case hget t (pg_job_id p) of
        Some prev \<Rightarrow> if pg_seq p < pg_seq prev then t else hput (pg_job_id p) p t
      | None \<Rightarrow> hput (pg_job_id p) p t)"

definition latest :: "progress_tracker \<Rightarrow> string \<Rightarrow> progress option" where
  "latest t j = hget t j"

definition snapshot :: "progress_tracker \<Rightarrow> progress list" where
  "snapshot t = map snd t"

definition clear_progress :: "string \<Rightarrow> progress_tracker \<Rightarrow> progress_tracker" where
  "clear_progress j t = hdel j t"

section \<open>The loop\<close>

text \<open>
  What the loop cannot determine: the outcome of attempt \<open>n\<close> and the progress streamed during it,
  the two clock readings, in milliseconds, and the jitter.
\<close>

record 'o retry_env =
  dispatch_attempt :: "nat \<Rightarrow> string set \<Rightarrow> nat \<Rightarrow> progress list \<times> (coordinator_error + 'o attempt_result)"
  elapsed_ms :: "nat \<Rightarrow> real"
  now_ms :: "nat \<Rightarrow> real"
  gen_range :: "nat \<Rightarrow> nat \<Rightarrow> nat \<Rightarrow> nat"

text \<open>The hash set of excluded providers, without duplicates.\<close>

definition exclude :: "string list \<Rightarrow> string list \<Rightarrow> string list" where
  "exclude ids ex = fold List.insert ids ex"

record retry_state =
  excluded :: "string list"
  rs_backoff :: backoff
  budget :: token_bucket
  last_refill :: real
  retries :: nat
  last_reason :: string
  capacity_floor :: nat
  saw_resource_exceeded :: bool
  slept :: nat
  tracker :: progress_tracker

definition retry_start :: "scheduler_config \<Rightarrow> real \<Rightarrow> progress_tracker \<Rightarrow> retry_state" where
  "retry_start c start t =
     \<lparr>excluded = [],
      rs_backoff = backoff_new (backoff_initial_ms c) (backoff_max_ms c) (backoff_jitter_frac c),
      budget = bucket_new (retry_budget_max_tokens c) (retry_budget_refill_per_sec c),
      last_refill = start, retries = 0, last_reason = ''no attempt completed'', capacity_floor = 0,
      saw_resource_exceeded = False, slept = 0, tracker = t\<rparr>"

text \<open>
  The stop conditions every retried outcome goes through, in the order of the code, and the
  back-off before the next attempt. \<open>stop\<close> is the error for the first two.
\<close>

definition stop_or_retry ::
    "scheduler_config \<Rightarrow> 'o retry_env \<Rightarrow> (string \<Rightarrow> coordinator_error) \<Rightarrow> retry_state \<Rightarrow>
      coordinator_error + retry_state" where
  "stop_or_retry c env stop st =
     (if max_retries c \<noteq> 0 \<and> max_retries c \<le> retries st then Inl (stop (last_reason st))
      else if max_total_duration_ms c \<noteq> 0 \<and> real (max_total_duration_ms c) \<le> elapsed_ms env (retries st)
      then Inl (stop (last_reason st @ ''; max_total_duration reached''))
      else let now = now_ms env (retries st);
               b = refill ((now - last_refill st) / 1000) (budget st);
               (ok, b) = try_take b
           in if \<not> ok then Inl (RetryBudgetExhausted (retries st + 1))
              else let (delay, bo) = next_delay (gen_range env (retries st)) (rs_backoff st)
                   in Inr (st\<lparr>last_refill := now, budget := b, rs_backoff := bo,
                              slept := slept st + delay, retries := retries st + 1\<rparr>))"

definition attempt_label :: "retry_state \<Rightarrow> string" where
  "attempt_label st = ''attempt '' @ show_nat (retries st + 1)"

definition no_progress_reason :: string where
  "no_progress_reason = ''; re-dispatch cannot make progress: the only reachable provider(s) keep '' @
     ''declining/abandoning the job (e.g. \"at capacity\") and no alternative candidate is available''"

text \<open>One turn of the loop: a final result, or the state of the next turn.\<close>

definition resilient_step ::
    "scheduler_config \<Rightarrow> 'o retry_env \<Rightarrow> retry_state \<Rightarrow> (coordinator_error + 'o) + retry_state" where
  "resilient_step c env st =
     (case snd (dispatch_attempt env (retries st) (set (excluded st)) (capacity_floor st)) of
        Inl e \<Rightarrow> Inl (Inl e)
      | Inr (Done r) \<Rightarrow> Inl (Inr r)
      | Inr (AInfeasible msg) \<Rightarrow> Inl (Inl (ErrInfeasible msg))
      | Inr (QuorumDisagreement a q) \<Rightarrow> Inl (Inl (QuorumFailed a q))
      | Inr NoCandidates \<Rightarrow>
          Inl (Inl (if saw_resource_exceeded st then ExceedsCapacity (last_reason st)
                    else if retries st = 0 then ErrNoCandidates
                    else Exhausted (retries st + 1) (last_reason st)))
      | Inr (InsufficientWorkers have q) \<Rightarrow>
          Inl (Inl (if saw_resource_exceeded st then ExceedsCapacity (last_reason st)
                    else if retries st = 0 then ErrInsufficientWorkers have q
                    else Exhausted (retries st + 1) (last_reason st)))
      | Inr (AInconclusive tried) \<Rightarrow>
          let msg = attempt_label st @ '' stalled/silent: '' @ show_nat (length tried) @
                '' selected provider(s) did not deliver'';
              ex = exclude tried (excluded st);
              st' = st\<lparr>last_reason := msg, excluded := ex\<rparr>
          in if length ex = length (excluded st)
             then Inl (Inl (Exhausted (retries st + 1) (msg @ no_progress_reason)))
             else map_sum Inl id (stop_or_retry c env (Exhausted (retries st + 1)) st')
      | Inr (AResourceExceeded oomed cap why) \<Rightarrow>
          let msg = attempt_label st @ '' resource-exceeded: '' @ why;
              fl = max (capacity_floor st) cap;
              ex = exclude oomed (excluded st);
              st' = st\<lparr>last_reason := msg, saw_resource_exceeded := True, capacity_floor := fl,
                       excluded := ex\<rparr>
          in if length ex = length (excluded st) \<and> fl = capacity_floor st
             then Inl (Inl (ExceedsCapacity msg))
             else map_sum Inl id (stop_or_retry c env ExceedsCapacity st')
      | Inr (InputDrift why) \<Rightarrow>
          let st' = st\<lparr>last_reason := attempt_label st @ '' input drift: '' @ why\<rparr>
          in map_sum Inl id (stop_or_retry c env (Exhausted (retries st + 1)) st'))"

text \<open>Progress reported during the attempt lands in the tracker before the step returns.\<close>

definition observe_attempt :: "'o retry_env \<Rightarrow> retry_state \<Rightarrow> retry_state" where
  "observe_attempt env st =
     st\<lparr>tracker := fold update_progress
       (fst (dispatch_attempt env (retries st) (set (excluded st)) (capacity_floor st))) (tracker st)\<rparr>"

fun resilient_loop ::
    "nat \<Rightarrow> scheduler_config \<Rightarrow> 'o retry_env \<Rightarrow> string \<Rightarrow> retry_state \<Rightarrow>
      ((coordinator_error + 'o) \<times> retry_state) option" where
  "resilient_loop 0 c env jid st = None"
| "resilient_loop (Suc fuel) c env jid st =
     (case resilient_step c env st of
        Inl r \<Rightarrow> (let st' = observe_attempt env st
                 in Some (r, st'\<lparr>tracker := clear_progress jid (tracker st')\<rparr>))
      | Inr st' \<Rightarrow> resilient_loop fuel c env jid (st'\<lparr>tracker := tracker (observe_attempt env st)\<rparr>))"

definition run_resilient ::
    "nat \<Rightarrow> scheduler_config \<Rightarrow> 'o retry_env \<Rightarrow> string \<Rightarrow> real \<Rightarrow> progress_tracker \<Rightarrow>
      ((coordinator_error + 'o) \<times> retry_state) option" where
  "run_resilient fuel c env jid start t = resilient_loop fuel c env jid (retry_start c start t)"

text \<open>An example: the only provider stays silent, then nobody is left.\<close>

definition silent_env :: "nat retry_env" where
  "silent_env = \<lparr>dispatch_attempt = (\<lambda>n ex fl. if ''w'' \<in> ex then ([], Inr NoCandidates)
       else ([\<lparr>pg_job_id = ''j'', pg_worker_id = ''w'', stage = ''executing'', rows_processed = 1, pct = 1,
              pg_seq = 1, ts_ms = 5\<rparr>], Inr (AInconclusive [''w'']))),
     elapsed_ms = (\<lambda>n. 1000 * real n), now_ms = (\<lambda>n. 1000 * real n), gen_range = (\<lambda>n lo hi. lo)\<rparr>"

section \<open>The loop makes progress\<close>

text \<open>The providers an attempt asks to route around, and the capacity it asks to exceed.\<close>

fun named :: "coordinator_error + 'o attempt_result \<Rightarrow> string set" where
  "named (Inr (AInconclusive tried)) = set tried"
| "named (Inr (AResourceExceeded oomed cap why)) = set oomed"
| "named r = {}"

fun tried_capacity :: "coordinator_error + 'o attempt_result \<Rightarrow> nat" where
  "tried_capacity (Inr (AResourceExceeded oomed cap why)) = cap"
| "tried_capacity r = 0"

fun is_drift :: "coordinator_error + 'o attempt_result \<Rightarrow> bool" where
  "is_drift (Inr (InputDrift why)) \<longleftrightarrow> True"
| "is_drift r \<longleftrightarrow> False"

abbreviation attempt_of :: "'o retry_env \<Rightarrow> retry_state \<Rightarrow> coordinator_error + 'o attempt_result" where
  "attempt_of env st \<equiv> snd (dispatch_attempt env (retries st) (set (excluded st)) (capacity_floor st))"

lemma set_exclude [simp]: "set (exclude ids ex) = set ids \<union> set ex"
  by (induction ids arbitrary: ex) (auto simp: exclude_def)

lemma distinct_exclude [simp]: "distinct ex \<Longrightarrow> distinct (exclude ids ex)"
  by (induction ids arbitrary: ex) (simp_all add: exclude_def)

lemma exclude_new:
  assumes "distinct ex" "length (exclude ids ex) \<noteq> length ex"
  shows "\<exists>i\<in>set ids. i \<notin> set ex"
proof (rule ccontr)
  assume "\<not> ?thesis"
  then have "set (exclude ids ex) = set ex" by auto
  with assms show False by (metis distinct_card distinct_exclude)
qed

lemma stop_or_retry_Inr:
  assumes "stop_or_retry c env stop st = Inr st'"
  shows "excluded st' = excluded st \<and> capacity_floor st' = capacity_floor st \<and>
    saw_resource_exceeded st' = saw_resource_exceeded st \<and> tracker st' = tracker st \<and>
    retries st' = retries st + 1 \<and> (max_retries c = 0 \<or> retries st < max_retries c) \<and>
    last_refill st' = now_ms env (retries st) \<and>
    (True, budget st') = try_take (refill ((now_ms env (retries st) - last_refill st) / 1000) (budget st))"
  using assms by (auto simp: stop_or_retry_def Let_def split: if_splits prod.splits)

text \<open>Everything a turn that goes on does to the loop variables.\<close>

lemma resilient_step_Inr:
  assumes "resilient_step c env st = Inr st'"
  shows "set (excluded st') = named (attempt_of env st) \<union> set (excluded st) \<and>
    capacity_floor st' = max (capacity_floor st) (tried_capacity (attempt_of env st)) \<and>
    (distinct (excluded st) \<longrightarrow> distinct (excluded st')) \<and>
    retries st' = retries st + 1 \<and> (max_retries c = 0 \<or> retries st < max_retries c) \<and>
    last_refill st' = now_ms env (retries st) \<and>
    (True, budget st') = try_take (refill ((now_ms env (retries st) - last_refill st) / 1000) (budget st)) \<and>
    (is_drift (attempt_of env st) \<or> length (excluded st') \<noteq> length (excluded st) \<or>
      capacity_floor st' \<noteq> capacity_floor st)"
proof (cases "attempt_of env st")
  case (Inl e)
  with assms show ?thesis by (simp add: resilient_step_def)
next
  case (Inr r)
  show ?thesis
  proof (cases r)
    case (AInconclusive tried)
    let ?st = "st\<lparr>last_reason := attempt_label st @ '' stalled/silent: '' @ show_nat (length tried) @
                '' selected provider(s) did not deliver'', excluded := exclude tried (excluded st)\<rparr>"
    from assms Inr AInconclusive
    have g: "length (exclude tried (excluded st)) \<noteq> length (excluded st)"
      and "stop_or_retry c env (Exhausted (retries st + 1)) ?st = Inr st'"
      by (auto simp: resilient_step_def Let_def map_sum_def split: if_splits sum.splits)
    from stop_or_retry_Inr [OF this(2)] g Inr AInconclusive show ?thesis by auto
  next
    case (AResourceExceeded oomed cap why)
    let ?st = "st\<lparr>last_reason := attempt_label st @ '' resource-exceeded: '' @ why, saw_resource_exceeded := True,
        capacity_floor := max (capacity_floor st) cap, excluded := exclude oomed (excluded st)\<rparr>"
    from assms Inr AResourceExceeded
    have g: "\<not> (length (exclude oomed (excluded st)) = length (excluded st) \<and> max (capacity_floor st) cap = capacity_floor st)"
      and "stop_or_retry c env ExceedsCapacity ?st = Inr st'"
      by (auto simp: resilient_step_def Let_def map_sum_def split: if_splits sum.splits)
    from stop_or_retry_Inr [OF this(2)] g Inr AResourceExceeded show ?thesis by auto
  next
    case (InputDrift why)
    let ?st = "st\<lparr>last_reason := attempt_label st @ '' input drift: '' @ why\<rparr>"
    from assms Inr InputDrift have "stop_or_retry c env (Exhausted (retries st + 1)) ?st = Inr st'"
      by (auto simp: resilient_step_def Let_def map_sum_def split: if_splits sum.splits)
    from stop_or_retry_Inr [OF this] Inr InputDrift show ?thesis by auto
  qed (use assms Inr in \<open>auto simp: resilient_step_def\<close>)
qed


text \<open>The states at the start of the attempts, up to a number of them.\<close>

fun loop_states :: "nat \<Rightarrow> scheduler_config \<Rightarrow> 'o retry_env \<Rightarrow> retry_state \<Rightarrow> retry_state list" where
  "loop_states 0 c env st = []"
| "loop_states (Suc n) c env st =
     st # (case resilient_step c env st of
             Inl r \<Rightarrow> []
           | Inr st' \<Rightarrow> loop_states n c env (st'\<lparr>tracker := tracker (observe_attempt env st)\<rparr>))"

lemma step_tracker: "attempt_of env (st\<lparr>tracker := t\<rparr>) = attempt_of env st" by simp

lemma loop_states_grow:
  "s \<in> set (loop_states n c env st) \<Longrightarrow>
     set (excluded st) \<subseteq> set (excluded s) \<and> capacity_floor st \<le> capacity_floor s \<and> retries st \<le> retries s"
proof (induction n arbitrary: st)
  case 0
  then show ?case by simp
next
  case (Suc n)
  show ?case
  proof (cases "resilient_step c env st")
    case (Inl r)
    with Suc.prems show ?thesis by simp
  next
    case (Inr st')
    have step: "set (excluded st) \<subseteq> set (excluded st')" "capacity_floor st \<le> capacity_floor st'"
      "retries st \<le> retries st'"
      using resilient_step_Inr [OF Inr] by auto
    from Suc.prems Inr consider "s = st"
      | "s \<in> set (loop_states n c env (st'\<lparr>tracker := tracker (observe_attempt env st)\<rparr>))" by auto
    then show ?thesis
    proof cases
      case 2
      from Suc.IH [OF this] step show ?thesis by auto
    qed simp
  qed
qed

lemma loop_states_exclude:
  "i < j \<Longrightarrow> j < length (loop_states n c env st) \<Longrightarrow>
     named (attempt_of env (loop_states n c env st ! i)) \<subseteq> set (excluded (loop_states n c env st ! j)) \<and>
     tried_capacity (attempt_of env (loop_states n c env st ! i)) \<le> capacity_floor (loop_states n c env st ! j)"
proof (induction n arbitrary: st i j)
  case 0
  then show ?case by simp
next
  case (Suc n)
  show ?case
  proof (cases "resilient_step c env st")
    case (Inl r)
    with Suc.prems show ?thesis by simp
  next
    case (Inr st')
    let ?n = "st'\<lparr>tracker := tracker (observe_attempt env st)\<rparr>"
    from Suc.prems obtain j' where j: "j = Suc j'" by (cases j) simp_all
    with Suc.prems Inr have j': "j' < length (loop_states n c env ?n)" by simp
    show ?thesis
    proof (cases i)
      case 0
      have "named (attempt_of env st) \<subseteq> set (excluded st') \<and> tried_capacity (attempt_of env st) \<le> capacity_floor st'"
        using resilient_step_Inr [OF Inr] by auto
      moreover from loop_states_grow [OF nth_mem [OF j']]
      have "set (excluded st') \<subseteq> set (excluded (loop_states n c env ?n ! j'))"
        "capacity_floor st' \<le> capacity_floor (loop_states n c env ?n ! j')" by simp_all
      ultimately show ?thesis using 0 Inr j by auto
    next
      case (Suc i')
      with Suc.prems j j' Suc.IH [of i' j' ?n] Inr show ?thesis by simp
    qed
  qed
qed

text \<open>Fuel: the retry limit, or the number of providers and capacities still to be ruled out.\<close>

lemma loop_limited:
  "max_retries c \<noteq> 0 \<Longrightarrow> max_retries c \<le> retries st + n \<Longrightarrow> resilient_loop (Suc n) c env jid st \<noteq> None"
proof (induction n arbitrary: st)
  case 0
  have "\<nexists>st'. resilient_step c env st = Inr st'"
    using resilient_step_Inr [of c env st] 0 by fastforce
  then show ?case by (auto simp: Let_def split: sum.splits)
next
  case (Suc n)
  show ?case
  proof (cases "resilient_step c env st")
    case (Inl r)
    then show ?thesis by (simp add: Let_def)
  next
    case (Inr st')
    from resilient_step_Inr [OF Inr] have "retries st' = retries st + 1" by simp
    with Suc show ?thesis by (simp add: Inr)
  qed
qed

definition remaining :: "string set \<Rightarrow> nat set \<Rightarrow> retry_state \<Rightarrow> nat" where
  "remaining U F st = card (U - set (excluded st)) + card {f \<in> F. capacity_floor st < f}"

lemma remaining_decreases:
  assumes "finite U" "finite F" "distinct (excluded st)" "resilient_step c env st = Inr st'"
    "named (attempt_of env st) \<subseteq> U" "tried_capacity (attempt_of env st) \<in> insert 0 F"
    "\<not> is_drift (attempt_of env st)"
  shows "remaining U F st' < remaining U F st"
proof -
  note s = resilient_step_Inr [OF assms(4)]
  let ?E = "set (excluded st)" and ?E' = "set (excluded st')"
  let ?A = "{f \<in> F. capacity_floor st < f}" and ?A' = "{f \<in> F. capacity_floor st' < f}"
  have sub: "U - ?E' \<subseteq> U - ?E" "?A' \<subseteq> ?A" using s by auto
  then have le: "card (U - ?E') \<le> card (U - ?E)" "card ?A' \<le> card ?A"
    using assms(1,2) by (simp_all add: card_mono)
  consider "length (excluded st') \<noteq> length (excluded st)" | "capacity_floor st' \<noteq> capacity_floor st"
    using s assms(7) by blast
  then show ?thesis
  proof cases
    case 1
    have "?E' \<noteq> ?E"
      using 1 s assms(3) by (metis distinct_card)
    with s assms(5) have "U - ?E' \<subset> U - ?E" by auto
    then have "card (U - ?E') < card (U - ?E)" using assms(1) by (simp add: psubset_card_mono)
    with le show ?thesis by (simp add: remaining_def)
  next
    case 2
    then have c: "capacity_floor st' = tried_capacity (attempt_of env st)" "capacity_floor st < capacity_floor st'"
      using s by (simp_all add: max_def split: if_splits)
    then have "capacity_floor st' \<in> ?A" "capacity_floor st' \<notin> ?A'" using assms(6) by auto
    with sub have "?A' \<subset> ?A" by blast
    then have "card ?A' < card ?A" using assms(2) by (simp add: psubset_card_mono)
    with le show ?thesis by (simp add: remaining_def)
  qed
qed

lemma loop_progresses:
  assumes "finite U" "finite F"
    "\<And>n ex fl. named (snd (dispatch_attempt env n ex fl)) \<subseteq> U"
    "\<And>n ex fl. tried_capacity (snd (dispatch_attempt env n ex fl)) \<in> insert 0 F"
    "\<And>n ex fl. \<not> is_drift (snd (dispatch_attempt env n ex fl))"
  shows "distinct (excluded st) \<Longrightarrow> remaining U F st \<le> n \<Longrightarrow> resilient_loop (Suc n) c env jid st \<noteq> None"
proof (induction n arbitrary: st)
  case 0
  have "resilient_step c env st \<noteq> Inr st'" for st'
    using remaining_decreases [OF assms(1,2) 0(1) _ assms(3-5)] 0(2) by (metis less_nat_zero_code le_zero_eq)
  then show ?case by (auto simp: Let_def split: sum.splits)
next
  case (Suc n)
  show ?case
  proof (cases "resilient_step c env st")
    case (Inl r)
    then show ?thesis by (simp add: Let_def)
  next
    case (Inr st')
    let ?n = "st'\<lparr>tracker := tracker (observe_attempt env st)\<rparr>"
    have "distinct (excluded ?n)" using resilient_step_Inr [OF Inr] Suc.prems(1) by simp
    moreover have "remaining U F ?n \<le> n"
      using remaining_decreases [OF assms(1,2) Suc.prems(1) Inr assms(3-5)] Suc.prems(2)
      by (simp add: remaining_def)
    ultimately have "resilient_loop (Suc n) c env jid ?n \<noteq> None" by (rule Suc.IH)
    then show ?thesis using Inr by (simp only: resilient_loop.simps(2) [of "Suc n"] sum.case not_False_eq_True)
  qed
qed


lemma resilient_loop_inv:
  assumes step: "\<And>s s'. P s \<Longrightarrow> resilient_step c env s = Inr s' \<Longrightarrow> P s'"
    and frame: "\<And>s t. P s \<Longrightarrow> P (s\<lparr>tracker := t\<rparr>)"
  shows "P st \<Longrightarrow> resilient_loop n c env jid st = Some (r, st') \<Longrightarrow>
    \<exists>s. P s \<and> resilient_step c env s = Inl r \<and>
      st' = s\<lparr>tracker := clear_progress jid (tracker (observe_attempt env s))\<rparr>"
proof (induction n arbitrary: st)
  case 0
  then show ?case by simp
next
  case (Suc n)
  show ?case
  proof (cases "resilient_step c env st")
    case (Inl x)
    with Suc.prems have "x = r" "st' = st\<lparr>tracker := clear_progress jid (tracker (observe_attempt env st))\<rparr>"
      by (simp_all add: Let_def observe_attempt_def)
    with Suc.prems(1) Inl show ?thesis by blast
  next
    case (Inr s)
    have "P (s\<lparr>tracker := tracker (observe_attempt env st)\<rparr>)" by (rule frame [OF step [OF Suc.prems(1) Inr]])
    from Suc.IH [OF this] Suc.prems(2) Inr show ?thesis by simp
  qed
qed

text \<open>How the last turn determines what the loop returns.\<close>

fun explained :: "'o retry_env \<Rightarrow> retry_state \<Rightarrow> coordinator_error + 'o \<Rightarrow> bool" where
  "explained env s (Inr x) \<longleftrightarrow> attempt_of env s = Inr (Done x)"
| "explained env s (Inl e) \<longleftrightarrow> attempt_of env s = Inl e \<or>
     (case e of
        ErrInfeasible why \<Rightarrow> attempt_of env s = Inr (AInfeasible why)
      | QuorumFailed a q \<Rightarrow> attempt_of env s = Inr (QuorumDisagreement a q)
      | ErrNoCandidates \<Rightarrow> attempt_of env s = Inr NoCandidates \<and> retries s = 0
      | ErrInsufficientWorkers have q \<Rightarrow> attempt_of env s = Inr (InsufficientWorkers have q) \<and> retries s = 0
      | ExceedsCapacity why \<Rightarrow> saw_resource_exceeded s \<or>
          (\<exists>ex cap w. attempt_of env s = Inr (AResourceExceeded ex cap w))
      | Exhausted k why \<Rightarrow> k = retries s + 1
      | RetryBudgetExhausted k \<Rightarrow> k = retries s + 1
      | _ \<Rightarrow> False)"

lemma explained_tracker: "explained env (s\<lparr>tracker := t\<rparr>) r = explained env s r"
  by (cases r) (simp_all split: coordinator_error.split)

lemma resilient_step_Inl:
  assumes "resilient_step c env s = Inl r"
  shows "explained env s r"
proof (cases "attempt_of env s")
  case (Inl e)
  with assms show ?thesis by (auto simp: resilient_step_def)
next
  case (Inr a)
  show ?thesis
    using assms Inr
    by (cases a) (auto simp: resilient_step_def Let_def stop_or_retry_def split: if_splits prod.splits sum.splits)
qed

definition within_budget :: "real \<Rightarrow> real \<Rightarrow> real \<Rightarrow> 'o retry_env \<Rightarrow> retry_state \<Rightarrow> bool" where
  "within_budget cap rate start env st \<longleftrightarrow> bucket_inv cap rate (budget st) \<and>
     last_refill st = (if retries st = 0 then start else now_ms env (retries st - 1)) \<and>
     real (retries st) + tokens (budget st) \<le> cap + max rate 0 * ((last_refill st - start) / 1000)"

lemma within_budget_tracker:
  "within_budget cap rate start env (s\<lparr>tracker := x\<rparr>) = within_budget cap rate start env s"
  by (simp add: within_budget_def)

lemma within_budget_step:
  assumes "within_budget cap rate start env st" "resilient_step c env st = Inr st'"
    and mono: "start \<le> now_ms env 0" "\<And>n. now_ms env n \<le> now_ms env (Suc n)"
  shows "within_budget cap rate start env st'"
proof -
  let ?n = "retries st" and ?now = "now_ms env (retries st)"
  let ?d = "(?now - last_refill st) / 1000"
  let ?b = "refill ?d (budget st)"
  note s = resilient_step_Inr [OF assms(2)]
  have inv: "bucket_inv cap rate (budget st)" and l: "last_refill st = (if ?n = 0 then start else now_ms env (?n - 1))"
    and le: "real ?n + tokens (budget st) \<le> cap + max rate 0 * ((last_refill st - start) / 1000)"
    using assms(1) unfolding within_budget_def by blast+
  have d: "0 \<le> ?d" using l mono(1) mono(2) [of "?n - 1"] by (cases ?n) auto
  note b = retry_budget.inv_topup [OF inv d]
  have t: "fst (try_take ?b)" "budget st' = snd (try_take ?b)" using s by (metis fst_conv snd_conv)+
  have inv': "bucket_inv cap rate (budget st')" using retry_budget.inv_take [OF b] t(2) by simp
  have "tokens (budget st') = tokens ?b - 1" using retry_budget.take_cost [OF b] t by simp
  then have "tokens (budget st') + 1 \<le> tokens (budget st) + max rate 0 * ?d"
    using retry_budget.topup_le [OF inv d] by simp
  moreover have "max rate 0 * ((last_refill st - start) / 1000) + max rate 0 * ?d = max rate 0 * ((?now - start) / 1000)"
    by (simp add: distrib_left [symmetric] add_divide_distrib [symmetric] del: times_divide_eq_right)
  ultimately show ?thesis using s inv' le by (simp add: within_budget_def)
qed

text \<open>
  A source that changes during every attempt is re-dispatched forever under the default
  configuration: neither the retry limit nor the time limit is set, and one token per second is
  less than the refill.
\<close>

definition drifting_env :: "'o retry_env" where
  "drifting_env = \<lparr>dispatch_attempt = (\<lambda>n ex fl. ([], Inr (InputDrift []))), elapsed_ms = (\<lambda>n. 1000 * real n + 1000),
     now_ms = (\<lambda>n. 1000 * real n + 1000), gen_range = (\<lambda>n lo hi. lo)\<rparr>"

lemma drift_step:
  assumes "bucket_inv 32 4 (budget st)" "31 \<le> tokens (budget st)" "last_refill st = 1000 * real (retries st)"
  shows "\<exists>st'. resilient_step scheduler_default drifting_env st = Inr st' \<and> bucket_inv 32 4 (budget st') \<and>
    31 \<le> tokens (budget st') \<and> last_refill st' = 1000 * real (retries st')"
  using assms
  by (auto simp: resilient_step_def drifting_env_def stop_or_retry_def scheduler_default_def Let_def refill_def
      try_take_def is_unlimited_def bucket_inv_def split: prod.splits)

lemma drift_never_returns: "run_resilient n scheduler_default (drifting_env :: 'o retry_env) jid 0 t = None"
proof -
  have "resilient_loop n scheduler_default (drifting_env :: 'o retry_env) jid st = None"
    if "bucket_inv 32 4 (budget st)" "31 \<le> tokens (budget st)" "last_refill st = 1000 * real (retries st)" for st
    using that
  proof (induction n arbitrary: st)
    case 0
    then show ?case by simp
  next
    case (Suc n)
    from drift_step [OF Suc.prems] obtain st' where
      st': "resilient_step scheduler_default (drifting_env :: 'o retry_env) st = Inr st'" "bucket_inv 32 4 (budget st')"
        "31 \<le> tokens (budget st')" "last_refill st' = 1000 * real (retries st')" by blast
    then show ?case by (simp add: Suc.IH)
  qed
  moreover have "bucket_inv 32 4 (budget (retry_start scheduler_default 0 t))"
    "31 \<le> tokens (budget (retry_start scheduler_default 0 t))"
    by (simp_all add: retry_start_def scheduler_default_def bucket_inv_def bucket_new_def)
  moreover have "last_refill (retry_start scheduler_default 0 t) = 1000 * real (retries (retry_start scheduler_default 0 t))"
    by (simp add: retry_start_def)
  ultimately show ?thesis unfolding run_resilient_def by blast
qed


lemma silent_env_bounds:
  "named (snd (dispatch_attempt silent_env n ex fl)) \<subseteq> {''w''} \<and>
   tried_capacity (snd (dispatch_attempt silent_env n ex fl)) \<in> insert 0 {} \<and>
   \<not> is_drift (snd (dispatch_attempt silent_env n ex fl))"
  by (simp add: silent_env_def)

lemma silent_env_returns: "run_resilient 2 scheduler_default silent_env ''j'' 0 [] \<noteq> None"
  unfolding run_resilient_def numeral_2_eq_2
  by (rule loop_progresses [where U = "{''w''}" and F = "{}"])
    (use silent_env_bounds in \<open>auto simp: remaining_def retry_start_def\<close>)

section \<open>Properties\<close>



text \<open>
  a provider that failed, stayed silent or ran out of resources is ruled out for every later
  attempt of the job, and so is every capacity that was too small.
\<close>

theorem failed_providers_ruled_out:
  assumes "i < j" "j < length (loop_states n c env (retry_start c start t))"
  defines "s \<equiv> loop_states n c env (retry_start c start t)"
  shows "named (snd (dispatch_attempt env (retries (s ! i)) (set (excluded (s ! i))) (capacity_floor (s ! i))))
      \<subseteq> set (excluded (s ! j)) \<and>
    tried_capacity (snd (dispatch_attempt env (retries (s ! i)) (set (excluded (s ! i))) (capacity_floor (s ! i))))
      \<le> capacity_floor (s ! j)"
  unfolding s_def by (rule loop_states_exclude [OF assms(1,2)])

theorem failed_providers_ruled_out_witness:
  "''w'' \<in> set (excluded (loop_states 2 scheduler_default silent_env (retry_start scheduler_default 0 []) ! 1))"
proof -
  have "length (loop_states 2 scheduler_default silent_env (retry_start scheduler_default 0 [])) = 2"
    by (simp add: numeral_2_eq_2 resilient_step_def silent_env_def scheduler_default_def retry_start_def exclude_def
        stop_or_retry_def try_take_def refill_def bucket_new_def is_unlimited_def Let_def split: prod.splits)
  then show ?thesis
    using failed_providers_ruled_out [of 0 1 2 scheduler_default silent_env 0 "[]"]
    by (simp add: numeral_2_eq_2 silent_env_def retry_start_def)
qed

text \<open>
  no retry storm. With a positive budget and clocks that do not run backwards, the number of
  re-dispatches is at most the burst capacity plus the refill for the time that has passed.
\<close>

theorem retries_within_budget:
  assumes "run_resilient n c env jid start t = Some (r, st)" "0 < retry_budget_max_tokens c"
    "start \<le> now_ms env 0" "\<And>k. now_ms env k \<le> now_ms env (Suc k)"
  shows "real (retries st) \<le>
    retry_budget_max_tokens c + max (retry_budget_refill_per_sec c) 0 * ((last_refill st - start) / 1000)"
proof -
  let ?P = "within_budget (retry_budget_max_tokens c) (retry_budget_refill_per_sec c) start env"
  have "?P (retry_start c start t)"
    using assms(2) by (simp add: within_budget_def retry_start_def bucket_inv_new) (simp add: bucket_new_def)
  then have "\<exists>s. ?P s \<and> resilient_step c env s = Inl r \<and>
      st = s\<lparr>tracker := clear_progress jid (tracker (observe_attempt env s))\<rparr>"
    using assms(1) unfolding run_resilient_def
  proof (rule resilient_loop_inv [rotated 2])
    show "?P s'" if "?P s" "resilient_step c env s = Inr s'" for s s'
      using that by (rule within_budget_step [OF _ _ assms(3,4)])
    show "?P (s\<lparr>tracker := x\<rparr>)" if "?P s" for s x
      using that by (simp only: within_budget_tracker)
  qed
  then obtain s where s: "?P s" and st: "st = s\<lparr>tracker := clear_progress jid (tracker (observe_attempt env s))\<rparr>"
    by blast
  have "0 \<le> tokens (budget s)" using s unfolding within_budget_def bucket_inv_def by blast
  moreover have "real (retries s) + tokens (budget s) \<le>
      retry_budget_max_tokens c + max (retry_budget_refill_per_sec c) 0 * ((last_refill s - start) / 1000)"
    using s unfolding within_budget_def by blast
  moreover have "retries st = retries s" "last_refill st = last_refill s" by (simp_all add: st)
  ultimately show ?thesis by simp
qed

theorem retries_within_budget_witness:
  "\<exists>r st. run_resilient 2 scheduler_default silent_env ''j'' 0 [] = Some (r, st) \<and>
     real (retries st) \<le> 32 + 4 * (last_refill st / 1000)"
proof -
  from silent_env_returns obtain r st where r: "run_resilient 2 scheduler_default silent_env ''j'' 0 [] = Some (r, st)"
    by (metis option.exhaust prod.exhaust)
  from retries_within_budget [OF this] r show ?thesis
    by (auto simp: scheduler_default_def silent_env_def)
qed



end
