(* ===== verification/Anchor.thy ===== *)
theory Anchor
  imports Address
begin

text \<open>
  Job records and their anchoring: the canonical encoding of \<open>JobRecord\<close>
  (\<open>crates/settlement/src/types.rs\<close>) and the record anchors of \<open>mock.rs\<close> and \<open>noop.rs\<close>. BLAKE3
  and SHA-256 are the arguments \<open>B\<close> and \<open>H\<close>.
\<close>

section \<open>Definitions\<close>

record job_record =
  rec_job_id :: string
  rec_query_hash :: string
  requester_wallet :: string
  rec_max_bid :: u128
  rec_result_hash :: string
  epoch :: u64
  prev_root :: hash32
  rec_params_version :: u32
  rec_input_fingerprint :: string

text \<open>The closure \<open>field\<close> of \<open>canonical_bytes\<close>: the length as a 32-bit prefix.\<close>

definition field32 :: "bytes \<Rightarrow> bytes" where
  "field32 b = le_bytes 4 (of_nat (length b) :: u32) @ b"

definition canonical_bytes :: "job_record \<Rightarrow> bytes" where
  "canonical_bytes r =
     field32 (as_bytes (rec_job_id r)) @ field32 (as_bytes (rec_query_hash r)) @
     field32 (as_bytes (requester_wallet r)) @ le_bytes 16 (rec_max_bid r) @
     field32 (as_bytes (rec_result_hash r)) @ le_bytes 8 (epoch r) @ prev_root r @
     le_bytes 4 (rec_params_version r) @ field32 (as_bytes (rec_input_fingerprint r))"

definition record_leaf :: "(bytes \<Rightarrow> hash32) \<Rightarrow> job_record \<Rightarrow> hash32" where
  "record_leaf B r = B (canonical_bytes r)"

type_synonym anchor_state = "(string \<times> hash32) list"

definition anchor_append :: "(bytes \<Rightarrow> hash32) \<Rightarrow> job_record \<Rightarrow> anchor_state \<Rightarrow> anchor_state" where
  "anchor_append B r s = s @ [(rec_job_id r, record_leaf B r)]"

definition epoch_root :: "(bytes \<Rightarrow> hash32) \<Rightarrow> anchor_state \<Rightarrow> hash32" where
  "epoch_root H s = merkle_root H (map snd s)"

text \<open>\<open>iter().position(..)\<close>.\<close>

fun position :: "('a \<Rightarrow> bool) \<Rightarrow> 'a list \<Rightarrow> nat option" where
  "position P [] = None"
| "position P (x # xs) = (if P x then Some 0 else map_option Suc (position P xs))"

definition prove_inclusion ::
    "(bytes \<Rightarrow> hash32) \<Rightarrow> string \<Rightarrow> anchor_state \<Rightarrow> inclusion_proof option" where
  "prove_inclusion H j s =
     Option.bind (position (\<lambda>(k, _). k = j) s) (\<lambda>idx. build_proof H (map snd s) idx)"

definition noop_anchor_append :: "job_record \<Rightarrow> unit \<Rightarrow> unit" where "noop_anchor_append r s = s"
definition noop_epoch_root :: "unit \<Rightarrow> hash32" where "noop_epoch_root s = replicate 32 0"
definition noop_prove_inclusion :: "string \<Rightarrow> unit \<Rightarrow> inclusion_proof option" where
  "noop_prove_inclusion j s = None"

text \<open>A record whose strings fit the 32-bit prefixes and whose root has 32 bytes.\<close>

definition record_fits :: "job_record \<Rightarrow> bool" where
  "record_fits r \<longleftrightarrow> length (rec_job_id r) < 2 ^ 32 \<and> length (rec_query_hash r) < 2 ^ 32 \<and>
     length (requester_wallet r) < 2 ^ 32 \<and> length (rec_result_hash r) < 2 ^ 32 \<and>
     length (rec_input_fingerprint r) < 2 ^ 32 \<and> length (prev_root r) = 32"

definition example_record :: job_record where
  "example_record = \<lparr>rec_job_id = ''j1'', rec_query_hash = ''q'', requester_wallet = ''0:ab'',
     rec_max_bid = 5, rec_result_hash = ''h'', epoch = 0, prev_root = replicate 32 0,
     rec_params_version = 3, rec_input_fingerprint = []\<rparr>"

section \<open>Encoding\<close>

interpretation field32_code: prefix_code field32 "\<lambda>b. length b < 2 ^ 32"
proof
  fix x y r s :: bytes
  assume f: "length x < 2 ^ 32" "length y < 2 ^ 32" and eq: "field32 x @ r = field32 y @ s"
  then have "(of_nat (length x) :: u32) = of_nat (length y)" and xy: "x @ r = y @ s"
    by (simp_all add: field32_def append_eq_append_conv)
  with f have "length x = length y" by (simp add: word_of_nat_eq_iff take_bit_nat_eq_self)
  with xy show "x = y \<and> r = s" by simp
qed

lemma canonical_bytes_inject:
  assumes "record_fits r" "record_fits r'" "canonical_bytes r = canonical_bytes r'"
  shows "r = r'"
proof -
  have root: "prev_root r @ xs = prev_root r' @ ys \<longleftrightarrow> prev_root r = prev_root r' \<and> xs = ys" for xs ys
    using assms(1,2) by (simp add: record_fits_def)
  have "rec_job_id r = rec_job_id r' \<and> rec_query_hash r = rec_query_hash r' \<and>
      requester_wallet r = requester_wallet r' \<and> rec_max_bid r = rec_max_bid r' \<and>
      rec_result_hash r = rec_result_hash r' \<and> epoch r = epoch r' \<and> prev_root r = prev_root r' \<and>
      rec_params_version r = rec_params_version r' \<and> rec_input_fingerprint r = rec_input_fingerprint r'"
    using assms unfolding canonical_bytes_def
    by (simp add: record_fits_def field32_code.enc_append_inject field32_code.enc_inject peel_simps root)
  then show ?thesis by simp
qed

lemma position_Some:
  "position P xs = Some i \<Longrightarrow> i < length xs \<and> P (xs ! i)"
  by (induction xs arbitrary: i) (auto split: if_splits)

lemma position_append_new:
  "\<forall>x\<in>set xs. \<not> P x \<Longrightarrow> P y \<Longrightarrow> position P (xs @ [y]) = Some (length xs)"
  by (induction xs) auto

section \<open>The contract of a record anchor\<close>

text \<open>An anchor may prove nothing, but a proof it returns is accepted against its own root.\<close>

locale record_anchor =
  fixes H :: "bytes \<Rightarrow> hash32"
    and append :: "job_record \<Rightarrow> 's \<Rightarrow> 's"
    and root :: "'s \<Rightarrow> hash32"
    and prove :: "string \<Rightarrow> 's \<Rightarrow> inclusion_proof option"
    and anchored :: "'s \<Rightarrow> hash32 list"
  assumes prove_ok: "prove j s = Some p \<Longrightarrow> verify_inclusion H (root s) p \<and> leaf p \<in> set (anchored s)"
    and root_def: "root s = merkle_root H (anchored s)"
begin

lemma accepted_is_anchored:
  assumes "\<forall>x. length (H x) = 32" "anchored s \<noteq> []" "wf_proof p"
    and "inj_on H (proof_preimages H p \<union> tree_preimages H (merkle_tree (anchored s)))"
    and "verify_inclusion H (root s) p"
  shows "leaf p \<in> set (anchored s)"
proof -
  have "leaf p \<in> set (leaves (merkle_tree (anchored s)))"
    using assms merkle_root_tree [OF assms(2), of H]
    by (intro path_sound [of H "leaf p" "siblings p"])
      (simp_all add: root_def proof_preimages_def verify_inclusion_def merkle_root_def wf_proof_def)
  then show ?thesis by (simp add: leaves_merkle_tree [OF assms(2)])
qed

end

lemma build_proof_accepted:
  assumes "i < length values" "build_proof H values i = Some p"
  shows "leaf p = values ! i \<and> verify_inclusion H (merkle_root H values) p"
proof -
  have "levels H values = Some (levels_from H (map (hash_leaf H) values))"
    using assms(1) by (auto simp: levels_def)
  with assms proof_steps_complete [of i "map (hash_leaf H) values" H] show ?thesis
    by (auto simp: build_proof_def verify_inclusion_def merkle_root_def try_merkle_root_def)
qed

interpretation memory_anchor: record_anchor H "anchor_append B" "epoch_root H" "prove_inclusion H" "map snd"
  for H B
proof
  fix j s p
  assume "prove_inclusion H j s = Some p"
  then obtain i where i: "position (\<lambda>(k, _). k = j) s = Some i" "build_proof H (map snd s) i = Some p"
    by (auto simp: prove_inclusion_def bind_eq_Some_conv)
  from position_Some [OF i(1)] have "i < length (map snd s)" by simp
  from build_proof_accepted [OF this i(2)] this
  show "verify_inclusion H (epoch_root H s) p \<and> leaf p \<in> set (map snd s)"
    by (simp add: epoch_root_def)
qed (simp add: epoch_root_def)

interpretation noop_anchor: record_anchor H noop_anchor_append noop_epoch_root noop_prove_inclusion "\<lambda>_. []" for H
  by unfold_locales
    (simp_all add: noop_prove_inclusion_def noop_epoch_root_def merkle_root_def try_merkle_root_def levels_def)

section \<open>Properties\<close>

text \<open>
  C38: a record appended under a fresh job id can be proved: the anchor returns a proof for exactly
  that record's leaf, accepted against the epoch root.
\<close>

theorem appended_record_provable:
  assumes "rec_job_id r \<notin> set (map fst s)"
  shows "\<exists>p. prove_inclusion H (rec_job_id r) (anchor_append B r s) = Some p \<and> leaf p = record_leaf B r \<and>
    verify_inclusion H (epoch_root H (anchor_append B r s)) p"
proof -
  let ?s = "anchor_append B r s"
  have pos: "position (\<lambda>(k, _). k = rec_job_id r) ?s = Some (length s)"
    unfolding anchor_append_def using assms by (intro position_append_new) (auto simp: rev_image_eqI)
  have len: "length s < length (map snd ?s)" by (simp add: anchor_append_def)
  then obtain p where p: "build_proof H (map snd ?s) (length s) = Some p"
    by (cases "levels H (map snd ?s)") (auto simp: build_proof_def levels_def split: if_splits)
  from build_proof_accepted [OF len p] have "leaf p = record_leaf B r"
    "verify_inclusion H (epoch_root H ?s) p"
    by (simp_all add: epoch_root_def) (simp add: anchor_append_def nth_append)
  with pos p show ?thesis by (simp add: prove_inclusion_def)
qed

theorem appended_record_provable_witness:
  "\<exists>p. prove_inclusion toy_digest ''j1'' (anchor_append toy_digest example_record [(''j0'', replicate 32 1)]) = Some p \<and>
    leaf p = record_leaf toy_digest example_record"
  using appended_record_provable [of example_record "[(''j0'', replicate 32 1)]" toy_digest toy_digest]
  by (auto simp: example_record_def)

text \<open>
  C33: whoever shows a proof for a record, accepted against the epoch root, shows a record that was
  anchored, field by field: the bid, the result, the parameters in force and the input
  fingerprint. Digests are assumed collision free on the strings hashed.
\<close>

theorem anchored_record_authentic:
  assumes "\<forall>x. length (H x) = 32" "rs \<noteq> []" "wf_proof p"
    and "s = fold (anchor_append B) rs []"
    and "inj_on H (proof_preimages H p \<union> tree_preimages H (merkle_tree (map snd s)))"
    and "verify_inclusion H (epoch_root H s) p" "leaf p = record_leaf B r"
    and "inj_on B (canonical_bytes ` insert r (set rs))" "\<forall>x\<in>insert r (set rs). record_fits x"
  shows "r \<in> set rs"
proof -
  have run: "fold (anchor_append B) rs t = t @ map (\<lambda>x. (rec_job_id x, record_leaf B x)) rs" for t
    by (induction rs arbitrary: t) (simp_all add: anchor_append_def)
  then have s: "map snd s = map (record_leaf B) rs" by (simp add: assms(4) comp_def)
  have "leaf p \<in> set (map snd s)"
    using assms s by (intro memory_anchor.accepted_is_anchored) auto
  then obtain x where x: "x \<in> set rs" "B (canonical_bytes r) = B (canonical_bytes x)"
    using s assms(7) by (auto simp: record_leaf_def)
  then have "canonical_bytes r = canonical_bytes x"
    using assms(8) by (auto dest: inj_onD)
  with x assms(9) canonical_bytes_inject show ?thesis by blast
qed

theorem anchored_record_authentic_witness:
  "\<exists>p. verify_inclusion toy_digest (epoch_root toy_digest (fold (anchor_append toy_digest) [example_record] [])) p \<and>
    example_record \<in> set [example_record]"
proof -
  let ?s = "fold (anchor_append toy_digest) [example_record] []"
  let ?l = "record_leaf toy_digest example_record"
  let ?p = "\<lparr>leaf = ?l, siblings = []\<rparr>"
  have l: "length (toy_digest x) = 32" for x by (simp add: toy_digest_def)
  have s: "map snd ?s = [?l]" by (simp add: anchor_append_def)
  have v: "verify_inclusion toy_digest (epoch_root toy_digest ?s) ?p"
    using merkle_root_tree [of "[?l]" toy_digest]
    by (simp add: epoch_root_def anchor_append_def merkle_root_def verify_inclusion_def merkle_tree_def)
  have "example_record \<in> set [example_record]"
  proof (rule anchored_record_authentic [OF _ _ _ refl _ v])
    show "inj_on toy_digest (proof_preimages toy_digest ?p \<union> tree_preimages toy_digest (merkle_tree (map snd ?s)))"
      unfolding s by (simp add: proof_preimages_def merkle_tree_def)
    show "wf_proof ?p" by (simp add: wf_proof_def record_leaf_def l)
    show "\<forall>x\<in>insert example_record (set [example_record]). record_fits x"
      by (simp add: record_fits_def example_record_def)
  qed (simp_all add: l)
  with v show ?thesis by blast
qed

end
