(* ===== verification/Payment.thy ===== *)
theory Payment
  imports Anchor Complex_Main
begin

text \<open>
  How the coordinator pays for a job (\<open>crates/node/src/coordinator.rs\<close>): metered terms, billed
  seconds, the split of the escrow and \<open>settle_paid_job\<close>. Fractions of the configuration (\<open>f64\<close>)
  are reals; every amount is an exact natural. The rail, the wallets and the anchor are the
  collaborators wired into the coordinator.
\<close>

section \<open>Metered pricing\<close>

record bid =
  bid_price :: nat
  bid_rate_per_second :: nat
  bid_rate_per_gb :: nat
  bid_cap_seconds :: nat

record metered_terms =
  rate_per_second :: amount
  rate_per_gb :: amount
  cap_seconds :: nat

definition GIB_BYTES :: amount where "GIB_BYTES = 1024 * 1024 * 1024"
definition TON_NANOTON :: amount where "TON_NANOTON = 1000000000"

definition from_bid :: "bid \<Rightarrow> metered_terms option" where
  "from_bid b =
     (if bid_rate_per_second b = 0 then None
      else Some \<lparr>rate_per_second = bid_rate_per_second b, rate_per_gb = bid_rate_per_gb b,
                 cap_seconds = max (bid_cap_seconds b) 1\<rparr>)"

definition bytes_term :: "metered_terms \<Rightarrow> nat \<Rightarrow> amount" where
  "bytes_term t bytes = sat_mul u128_max (rate_per_gb t) bytes div GIB_BYTES"

definition cap_base :: "metered_terms \<Rightarrow> nat \<Rightarrow> amount" where
  "cap_base t bytes =
     sat_add u128_max (sat_mul u128_max (rate_per_second t) (cap_seconds t)) (bytes_term t bytes)"

definition base_for :: "metered_terms \<Rightarrow> nat \<Rightarrow> nat \<Rightarrow> amount" where
  "base_for t billed_seconds bytes =
     (let secs = min billed_seconds (cap_seconds t)
      in sat_add u128_max (sat_mul u128_max (rate_per_second t) secs) (bytes_term t bytes))"

record metered_settle =
  terms :: metered_terms
  billed_seconds :: nat
  bytes_scanned :: nat

definition bid_price_signal :: "bid \<Rightarrow> nat" where
  "bid_price_signal b = (if 0 < bid_rate_per_second b then bid_rate_per_second b else bid_price b)"

text \<open>The median; the unchecked addition of two latencies panics beyond \<open>u64\<close>.\<close>

definition median_ms :: "nat list \<Rightarrow> nat option" where
  "median_ms latencies =
     (if latencies = [] then Some 0
      else let v = sort latencies; n = length v
           in if n mod 2 = 1 then Some (v ! (n div 2))
              else map_option (\<lambda>x. x div 2) (checked_add u64_max (v ! (n div 2 - 1)) (v ! (n div 2))))"

definition ceil_secs :: "nat \<Rightarrow> nat" where
  "ceil_secs ms = (if ms mod 1000 = 0 then ms div 1000 else ms div 1000 + 1)"

text \<open>A float becomes a \<open>u64\<close> by the saturating cast \<open>as u64\<close>.\<close>

definition as_u64 :: "real \<Rightarrow> nat" where
  "as_u64 x = min u64_max (nat \<lfloor>x\<rfloor>)"

definition metered_billed_seconds :: "nat \<Rightarrow> nat list \<Rightarrow> real \<Rightarrow> nat option" where
  "metered_billed_seconds winner_ms agreeing_ms tolerance =
     (let winner_secs = ceil_secs winner_ms
      in map_option (\<lambda>median.
           if median = 0 then winner_secs
           else min winner_secs (ceil_secs (as_u64 (of_int \<lceil>real median * max tolerance 1\<rceil>))))
         (median_ms agreeing_ms))"

section \<open>Settling a paid job\<close>

record economics =
  enabled :: bool
  platform_fee_pct :: real
  participation_commission_frac :: real
  pricing_max_bid :: nat
  local_fee_recipient :: "string option"

text \<open>\<open>round\<close> on a non-negative float rounds half up; the clamp makes negative input zero.\<close>

definition to_bps :: "real \<Rightarrow> amount" where
  "to_bps fraction = nat (max 0 (min 65535 (round (fraction * 10000))))"

definition as_u16 :: "amount \<Rightarrow> nat" where "as_u16 x = x mod 2 ^ 16"

definition mul_frac :: "amount \<Rightarrow> real \<Rightarrow> amount" where
  "mul_frac a fraction = (if fraction \<le> 0 then 0 else min u128_max (nat \<lfloor>real a * fraction\<rfloor>))"

definition escrow_bid_nanoton :: "economics \<Rightarrow> amount" where
  "escrow_bid_nanoton cfg = max (pricing_max_bid cfg) 1 * TON_NANOTON"

text \<open>What is wired into the coordinator for payments.\<close>

record ('s, 'a) pay_env =
  crypt :: crypto
  settlement :: "'s rail option"
  wallet_binding :: "(string \<Rightarrow> wallet_address option) option"
  wallet_resolver :: "(string \<Rightarrow> wallet_address) option"
  anchor :: "(job_record \<Rightarrow> 'a \<Rightarrow> 'a) option"
  current_params_version :: nat
  current_fee_recipient :: "wallet_address option"

definition wallet_of :: "('s, 'a) pay_env \<Rightarrow> string \<Rightarrow> wallet_address" where
  "wallet_of env n =
     (let fallback = (case wallet_resolver env of
            Some r \<Rightarrow> r n
          | None \<Rightarrow> \<lparr>workchain = 0, account = blake3_hash (crypt env) (as_bytes n)\<rparr>)
      in case wallet_binding env of
           Some b \<Rightarrow> (case b n of Some w \<Rightarrow> w | None \<Rightarrow> fallback)
         | None \<Rightarrow> fallback)"

definition payout_wallet_of :: "('s, 'a) pay_env \<Rightarrow> string \<Rightarrow> wallet_address option" where
  "payout_wallet_of env n =
     (case wallet_binding env of Some b \<Rightarrow> b n | None \<Rightarrow> Some (wallet_of env n))"

text \<open>The escrow asked for: worst-case metered cost, or the configured bid.\<close>

definition job_max_bid :: "economics \<Rightarrow> nat \<Rightarrow> metered_settle option \<Rightarrow> amount" where
  "job_max_bid cfg n metered =
     (case metered of
        Some m \<Rightarrow> required_escrow_total (cap_base (terms m) (bytes_scanned m)) n
                    (as_u16 (to_bps (platform_fee_pct cfg)))
                    (as_u16 (to_bps (participation_commission_frac cfg)))
      | None \<Rightarrow> escrow_bid_nanoton cfg)"

text \<open>The honest-party check of the treasury: whether to go on.\<close>

definition treasury_ok :: "('s, 'a) pay_env \<Rightarrow> economics \<Rightarrow> bool" where
  "treasury_ok env cfg =
     (case current_fee_recipient env of
        None \<Rightarrow> True
      | Some chain \<Rightarrow> (case local_fee_recipient cfg of
          None \<Rightarrow> True
        | Some local_str \<Rightarrow>
            if trim local_str = [] then True
            else (case from_any_str (crypt env) local_str of
                    Some local \<Rightarrow> local = chain
                  | None \<Rightarrow> False)))"

fun candidate_wallets :: "('s, 'a) pay_env \<Rightarrow> wallet_address list \<Rightarrow> string list \<Rightarrow> wallet_address list" where
  "candidate_wallets env acc [] = acc"
| "candidate_wallets env acc (n # ns) =
     (let w = wallet_of env n
      in candidate_wallets env (if w \<in> set acc then acc else acc @ [w]) ns)"

text \<open>The winner's settled price.\<close>

definition job_base :: "economics \<Rightarrow> amount \<Rightarrow> nat \<Rightarrow> metered_settle option \<Rightarrow> amount" where
  "job_base cfg b n metered =
     (case metered of
        Some m \<Rightarrow> min (base_for (terms m) (billed_seconds m) (bytes_scanned m)) b
      | None \<Rightarrow>
          let denom = sat_add u128_max (sat_add u128_max BPS_DENOM (to_bps (platform_fee_pct cfg)))
                (sat_mul u128_max n (to_bps (participation_commission_frac cfg)))
          in sat_mul u128_max b BPS_DENOM div denom)"

definition job_outcome ::
    "('s, 'a) pay_env \<Rightarrow> economics \<Rightarrow> string \<Rightarrow> string list \<Rightarrow> hash32 \<Rightarrow> amount \<Rightarrow> settlement_outcome" where
  "job_outcome env cfg win agreeing rh bs =
     (let fee = sat_mul u128_max bs (to_bps (platform_fee_pct cfg)) div BPS_DENOM;
          commission_each = sat_mul u128_max bs (to_bps (participation_commission_frac cfg)) div BPS_DENOM;
          parts = map (\<lambda>n. \<lparr>to = wallet_of env n, amount = commission_each\<rparr>)
            (filter (\<lambda>n. payout_wallet_of env n \<noteq> None) agreeing);
          winner_amount = (if payout_wallet_of env win \<noteq> None then bs else 0)
      in \<lparr>out_result_hash = rh, base = bs, winner = \<lparr>to = wallet_of env win, amount = winner_amount\<rparr>,
          participants = parts, platform_fee = fee\<rparr>)"

definition settle_paid_job ::
    "('s, 'a) pay_env \<Rightarrow> economics \<Rightarrow> bool \<Rightarrow> string \<Rightarrow> string \<Rightarrow> string list \<Rightarrow> string \<Rightarrow> string \<Rightarrow>
      string \<Rightarrow> string \<Rightarrow> metered_settle option \<Rightarrow> 's \<times> 'a \<Rightarrow> ('s \<times> 'a) option" where
  "settle_paid_job env cfg paid job_id win agreeing agreed_hash query_hash requester fp metered st =
     (if \<not> (paid \<and> enabled cfg) then Some st
      else (case settlement env of
        None \<Rightarrow> Some st
      | Some r \<Rightarrow>
          let result_hash = blake3_hash (crypt env) (as_bytes agreed_hash);
              version = current_params_version env;
              bid = job_max_bid cfg (length agreeing) metered;
              fee_bps = to_bps (platform_fee_pct cfg);
              comm_bps = to_bps (participation_commission_frac cfg)
          in if \<not> treasury_ok env cfg then Some st
             else do {
               (res, s) \<leftarrow> open_escrow_with_terms r job_id bid
                  \<lparr>expected_hash = result_hash, params_version = version,
                   candidates = candidate_wallets env [wallet_of env win] agreeing,
                   fee_recipient = current_fee_recipient env,
                   platform_fee_bps = Some (as_u16 fee_bps),
                   participation_commission_bps = Some (as_u16 comm_bps)\<rparr> (fst st);
               (case res of
                  Inl e \<Rightarrow> Some (s, snd st)
                | Inr handle \<Rightarrow>
                    let b = max_bid handle;
                        bs = job_base cfg b (length agreeing) metered;
                        outcome = job_outcome env cfg win agreeing result_hash bs
                    in (case ensure_escrow_covers b bs (length (participants outcome))
                              (as_u16 fee_bps) (as_u16 comm_bps) of
                          Inl e \<Rightarrow> Some (s, snd st)
                        | Inr _ \<Rightarrow> do {
                            (res, s) \<leftarrow> settle r handle outcome s;
                            (case res of
                               Inl e \<Rightarrow> Some (s, snd st)
                             | Inr _ \<Rightarrow> Some (s, (case anchor env of
                                 None \<Rightarrow> snd st
                               | Some app \<Rightarrow> app
                                   \<lparr>rec_job_id = job_id, rec_query_hash = query_hash,
                                    requester_wallet = to_raw_string (crypt env) (wallet_of env requester),
                                    rec_max_bid = of_nat b, rec_result_hash = agreed_hash, epoch = 0,
                                    prev_root = replicate 32 0, rec_params_version = of_nat version,
                                    rec_input_fingerprint = fp\<rparr> (snd st))))
                          }))
             }))"

section \<open>Billing\<close>

lemma base_for_le_cap: "base_for t secs bytes \<le> cap_base t bytes"
proof -
  have "rate_per_second t * min secs (cap_seconds t) \<le> rate_per_second t * cap_seconds t"
    by (intro mult_le_mono) simp_all
  then show ?thesis
    unfolding base_for_def cap_base_def Let_def sat_add_def sat_mul_def by (intro min.mono add_mono) auto
qed

lemma ceil_secs_bounds: "ms \<le> 1000 * ceil_secs ms \<and> 1000 * ceil_secs ms < ms + 1000"
proof -
  define q r where "q = ms div 1000" and "r = ms mod 1000"
  then have "ms = 1000 * q + r" "r < 1000" and "ceil_secs ms = (if r = 0 then q else q + 1)"
    by (simp_all add: ceil_secs_def)
  then show ?thesis by (auto split: if_splits)
qed

lemma to_bps_bound: "to_bps x \<le> 65535" and as_u16_to_bps: "as_u16 (to_bps x) = to_bps x"
  by (auto simp: to_bps_def as_u16_def)

section \<open>The split fits the escrow\<close>

lemma job_max_bid_metered:
  "job_max_bid cfg n (Some m) =
    required_escrow_total (cap_base (terms m) (bytes_scanned m)) n (to_bps (platform_fee_pct cfg))
      (to_bps (participation_commission_frac cfg))"
  by (simp add: job_max_bid_def as_u16_to_bps)

lemma job_base_fixed:
  assumes "b * BPS_DENOM \<le> u128_max" "n < 2 ^ 64"
  shows "job_base cfg b n None = b * BPS_DENOM div
    (BPS_DENOM + to_bps (platform_fee_pct cfg) + n * to_bps (participation_commission_frac cfg))"
proof -
  let ?f = "to_bps (platform_fee_pct cfg)" and ?k = "to_bps (participation_commission_frac cfg)"
  have "n * ?k \<le> 2 ^ 64 * 65535" using assms(2) to_bps_bound by (intro mult_le_mono) simp_all
  then have "BPS_DENOM + ?f + n * ?k \<le> u128_max"
    using to_bps_bound [of "platform_fee_pct cfg"] by (simp add: BPS_DENOM_def u128_max_def)
  then show ?thesis using assms(1) by (simp add: job_base_def sat_add_def sat_mul_def)
qed

lemma required_le_exact:
  "required_escrow_total b n f k \<le> b + b * f div BPS_DENOM + n * (b * k div BPS_DENOM)"
proof -
  have "sat_mul u128_max (sat_mul u128_max b k div BPS_DENOM) n \<le> n * (b * k div BPS_DENOM)"
    unfolding sat_mul_def [of _ _ n] mult.commute [of _ n]
    by (rule min.coboundedI2) (rule mult_le_mono2 [OF sat_div_le])
  then show ?thesis
    using sat_div_le [of b f] unfolding required_escrow_total_def Let_def sat_add_def by linarith
qed

text \<open>The bid asked for is within range: whole TON below \<open>2 ^ 64\<close>, or a metered worst case.\<close>

definition bid_in_range :: "economics \<Rightarrow> nat \<Rightarrow> metered_settle option \<Rightarrow> bool" where
  "bid_in_range cfg n metered \<longleftrightarrow> n < 2 ^ 64 \<and>
     (case metered of None \<Rightarrow> pricing_max_bid cfg < 2 ^ 64
      | Some m \<Rightarrow> job_max_bid cfg n (Some m) < u128_max)"

lemma split_covered:
  assumes "bid_in_range cfg n metered" "p \<le> n"
  defines "b \<equiv> job_max_bid cfg n metered"
  shows "required_escrow_total (job_base cfg b n metered) p (to_bps (platform_fee_pct cfg))
    (to_bps (participation_commission_frac cfg)) \<le> b" "b < u128_max"
proof -
  let ?f = "to_bps (platform_fee_pct cfg)" and ?k = "to_bps (participation_commission_frac cfg)"
  let ?x = "job_base cfg b n metered"
  have "required_escrow_total ?x n ?f ?k \<le> b \<and> b < u128_max"
  proof (cases metered)
    case None
    have "b < 2 ^ 64 * 1000000000 + 1"
      using assms(1) None unfolding b_def job_max_bid_def escrow_bid_nanoton_def
      by (simp add: bid_in_range_def TON_NANOTON_def max_def)
    then have r: "b * BPS_DENOM \<le> u128_max" "b < u128_max"
      by (simp_all add: BPS_DENOM_def u128_max_def)
    moreover have "n < 2 ^ 64" using assms(1) by (simp add: bid_in_range_def)
    ultimately show ?thesis
      using required_le_exact [of ?x n ?f ?k] fixed_split_fits [of b ?f n ?k] None
      by (simp add: job_base_fixed)
  next
    case (Some m)
    have "?x \<le> cap_base (terms m) (bytes_scanned m)"
      using base_for_le_cap [of "terms m"] by (simp add: job_base_def Some min.coboundedI1)
    then have "required_escrow_total ?x n ?f ?k \<le> b"
      unfolding b_def Some job_max_bid_metered by (intro required_escrow_total_mono) simp_all
    with assms(1) Some show ?thesis by (simp add: bid_in_range_def b_def)
  qed
  then show "required_escrow_total ?x p ?f ?k \<le> b" "b < u128_max"
    using required_escrow_total_mono [OF order_refl assms(2)] by (auto intro: order_trans)
qed

lemma job_outcome_simps [simp]:
  "base (job_outcome env cfg w ns rh bs) = bs"
  "platform_fee (job_outcome env cfg w ns rh bs) = sat_mul u128_max bs (to_bps (platform_fee_pct cfg)) div BPS_DENOM"
  "length (participants (job_outcome env cfg w ns rh bs)) = length (filter (\<lambda>n. payout_wallet_of env n \<noteq> None) ns)"
  by (simp_all add: job_outcome_def Let_def)

lemma job_outcome_amounts:
  "amount (winner (job_outcome env cfg w ns rh bs)) \<le> bs"
  "p \<in> set (participants (job_outcome env cfg w ns rh bs)) \<Longrightarrow>
    amount p = sat_mul u128_max bs (to_bps (participation_commission_frac cfg)) div BPS_DENOM"
  by (auto simp: job_outcome_def Let_def)

text \<open>The total the coordinator settles for is defined and within the escrow.\<close>

lemma job_outcome_total:
  fixes env :: "('s, 'a) pay_env" and w rh ns
  assumes "bid_in_range cfg (length ns) metered"
  defines "b \<equiv> job_max_bid cfg (length ns) metered"
  defines "oc \<equiv> job_outcome env cfg w ns rh (job_base cfg b (length ns) metered)"
  shows "\<exists>t. total oc = Some t \<and> t \<le> b"
    and "ensure_escrow_covers b (job_base cfg b (length ns) metered) (length (participants oc))
      (as_u16 (to_bps (platform_fee_pct cfg))) (as_u16 (to_bps (participation_commission_frac cfg)))
      = Inr (required_escrow_total (job_base cfg b (length ns) metered) (length (participants oc))
          (to_bps (platform_fee_pct cfg)) (to_bps (participation_commission_frac cfg)))"
proof -
  let ?f = "to_bps (platform_fee_pct cfg)" and ?k = "to_bps (participation_commission_frac cfg)"
  let ?x = "job_base cfg b (length ns) metered" and ?p = "length (participants oc)"
  let ?c = "sat_mul u128_max ?x ?k div BPS_DENOM"
  have "?p \<le> length ns" by (simp add: oc_def)
  from split_covered [OF assms(1) this] have cov: "required_escrow_total ?x ?p ?f ?k \<le> b" "b < u128_max"
    unfolding b_def by simp_all
  then show "ensure_escrow_covers b ?x ?p (as_u16 ?f) (as_u16 ?k) = Inr (required_escrow_total ?x ?p ?f ?k)"
    by (simp add: ensure_escrow_covers_def as_u16_to_bps Let_def)
  have "required_escrow_total ?x ?p ?f ?k = ?x + sat_mul u128_max ?x ?f div BPS_DENOM + ?c * ?p"
    using cov by (intro required_escrow_total_exact) simp
  moreover have "sum_list (map amount (participants oc)) = ?c * ?p"
  proof -
    have "map amount (participants oc) = map (\<lambda>_. ?c) (participants oc)"
      using job_outcome_amounts(2) by (intro map_cong) (auto simp: oc_def)
    then show ?thesis by (simp add: map_replicate_const sum_list_replicate)
  qed
  moreover have "amount (winner oc) \<le> ?x" by (simp add: oc_def job_outcome_amounts(1))
  moreover have "platform_fee oc = sat_mul u128_max ?x ?f div BPS_DENOM" by (simp add: oc_def)
  ultimately have "amount (winner oc) + platform_fee oc + sum_list (map amount (participants oc)) \<le> b"
    using cov(1) by linarith
  with cov(2) show "\<exists>t. total oc = Some t \<and> t \<le> b" by (simp add: total_eq Let_def)
qed

text \<open>
  Any rail that keeps its contract: paying for a job moves, for that job only, at most the escrow
  the job asked for, and never panics.
\<close>

context settlement_rail
begin

lemma settle_paid_job_bounded:
  assumes "settle_paid_job env cfg paid j w ns ah qh rq fp metered (s, a) = Some (s', a')"
    and "settlement env = Some r"
  shows "outflow s' k \<le> outflow s k + job_max_bid cfg (length ns) metered \<and>
    (k \<noteq> j \<or> \<not> paid \<or> \<not> enabled cfg \<longrightarrow> outflow s' k = outflow s k)"
proof (cases "paid \<and> enabled cfg \<and> treasury_ok env cfg")
  case False
  with assms show ?thesis by (auto simp: settle_paid_job_def Let_def split: if_splits)
next
  case True
  let ?bid = "job_max_bid cfg (length ns) metered"
  let ?t = "\<lparr>expected_hash = blake3_hash (crypt env) (as_bytes ah), params_version = current_params_version env,
     candidates = candidate_wallets env [wallet_of env w] ns, fee_recipient = current_fee_recipient env,
     platform_fee_bps = Some (as_u16 (to_bps (platform_fee_pct cfg))),
     participation_commission_bps = Some (as_u16 (to_bps (participation_commission_frac cfg)))\<rparr>"
  from assms True obtain x s1 where o: "open_escrow_with_terms r j ?bid ?t s = Some (x, s1)"
    by (cases "open_escrow_with_terms r j ?bid ?t s") (auto simp: settle_paid_job_def Let_def)
  show ?thesis
  proof (cases x)
    case (Inl e)
    with assms True o open_terms_err [of j ?bid ?t s e s1] show ?thesis
      by (simp add: settle_paid_job_def Let_def)
  next
    case (Inr h)
    with o have h: "job h = j" "max_bid h = ?bid" "outflow s1 = outflow s" using open_terms_ok by auto
    let ?oc = "job_outcome env cfg w ns (blake3_hash (crypt env) (as_bytes ah)) (job_base cfg (max_bid h) (length ns) metered)"
    from assms True o Inr have "s' = s1 \<or> (\<exists>y. settle r h ?oc s1 = Some (y, s'))"
      by (cases "settle r h ?oc s1") (auto simp: settle_paid_job_def Let_def split: sum.splits)
    then show ?thesis
    proof
      assume "s' = s1"
      with h show ?thesis by simp
    next
      assume "\<exists>y. settle r h ?oc s1 = Some (y, s')"
      then obtain y where y: "settle r h ?oc s1 = Some (y, s')" ..
      show ?thesis
        using settle_err [of h ?oc s1 _ s'] settle_ok [of h ?oc s1 _ s' k] y h True
        by (cases y) auto
    qed
  qed
qed

end

lemma candidate_wallets_set: "set (candidate_wallets env acc ns) = set acc \<union> wallet_of env ` set ns"
  by (induction env acc ns rule: candidate_wallets.induct) (auto simp: Let_def)

lemma sorted_filter_le: "sorted v \<Longrightarrow> i < length (filter (\<lambda>x. x \<le> L) v) \<Longrightarrow> v ! i \<le> (L :: nat)"
proof (induction v arbitrary: i)
  case Nil
  then show ?case by simp
next
  case (Cons x v)
  show ?case
  proof (cases "x \<le> L")
    case True
    with Cons show ?thesis by (cases i) auto
  next
    case False
    with Cons.prems(1) have "filter (\<lambda>x. x \<le> L) (x # v) = []" by (auto simp: filter_empty_conv)
    with Cons.prems(2) show ?thesis by simp
  qed
qed

lemma median_le:
  assumes "length ls < 2 * length (filter (\<lambda>x. x \<le> L) ls)" "median_ms ls = Some m"
  shows "m \<le> L"
proof -
  let ?v = "sort ls" and ?n = "length ls"
  have "length (filter (\<lambda>x. x \<le> L) ?v) = length (filter (\<lambda>x. x \<le> L) ls)"
    by (metis mset_filter mset_sort size_mset)
  with assms(1) have k: "?n div 2 < length (filter (\<lambda>x. x \<le> L) ?v)" by simp
  then have "?v ! (?n div 2) \<le> L" "?v ! (?n div 2 - 1) \<le> L"
    by (auto intro: sorted_filter_le)
  with assms show ?thesis
    by (auto simp: median_ms_def Let_def checked_add_def split: if_splits)
qed

lemma median_pos:
  assumes "ls \<noteq> []" "\<forall>x\<in>set ls. 0 < x" "median_ms ls = Some m"
  shows "m \<noteq> 0"
proof -
  let ?v = "sort ls" and ?n = "length ls"
  have "?n div 2 < ?n" "?n div 2 - 1 < ?n" using assms(1) by (auto simp: less_imp_diff_less)
  then have "0 < ?v ! (?n div 2)" "0 < ?v ! (?n div 2 - 1)"
    using assms(2) by (metis length_sort nth_mem set_sort)+
  with assms(1,3) show ?thesis
    by (auto simp: median_ms_def Let_def checked_add_def split: if_splits)
qed

lemma ceil_secs_mono: "a \<le> b \<Longrightarrow> ceil_secs a \<le> ceil_secs b"
proof -
  assume "a \<le> b"
  with ceil_secs_bounds [of a] ceil_secs_bounds [of b] show ?thesis by linarith
qed

definition example_env :: "(settlement_event list, anchor_state) pay_env" where
  "example_env = \<lparr>crypt = hex_crypto, settlement = Some (mock_rail (\<lambda>_. replicate 32 0)),
     wallet_binding = None, wallet_resolver = None, anchor = Some (anchor_append toy_digest),
     current_params_version = 7, current_fee_recipient = None\<rparr>"

definition example_economics :: economics where
  "example_economics = \<lparr>enabled = True, platform_fee_pct = 1 / 50, participation_commission_frac = 1 / 20,
     pricing_max_bid = 3, local_fee_recipient = None\<rparr>"

section \<open>Properties\<close>

text \<open>
  C15: a paid job always settles, for fixed and for metered prices. On the in-memory rail, with the
  treasury check passed and the bid in range, the coordinator opens an escrow of exactly the bid
  it computed, its coverage preflight succeeds, nothing overflows, the settlement is accepted with
  a total within the escrow, and the job record is appended to the anchor with that bid.
\<close>

theorem paid_job_settles:
  assumes "paid" "enabled cfg" "settlement env = Some (mock_rail B)" "treasury_ok env cfg"
    and "bid_in_range cfg (length ns) metered"
  shows "\<exists>t r. settle_paid_job env cfg paid j w ns ah qh rq fp metered (ev, a) =
      Some (ev @ [Opened j (job_max_bid cfg (length ns) metered), Settled j t],
            case anchor env of None \<Rightarrow> a | Some app \<Rightarrow> app r a) \<and>
    t \<le> job_max_bid cfg (length ns) metered \<and> rec_job_id r = j \<and> rec_result_hash r = ah \<and>
    rec_max_bid r = of_nat (job_max_bid cfg (length ns) metered) \<and> rec_input_fingerprint r = fp"
proof -
  let ?b = "job_max_bid cfg (length ns) metered"
  let ?x = "job_base cfg ?b (length ns) metered"
  let ?oc = "job_outcome env cfg w ns (blake3_hash (crypt env) (as_bytes ah)) ?x"
  let ?r = "\<lparr>rec_job_id = j, rec_query_hash = qh,
    requester_wallet = to_raw_string (crypt env) (wallet_of env rq), rec_max_bid = of_nat ?b,
    rec_result_hash = ah, epoch = 0, prev_root = replicate 32 0,
    rec_params_version = of_nat (current_params_version env), rec_input_fingerprint = fp\<rparr>"
  note tot = job_outcome_total [OF assms(5), where env = env and w = w and rh = "blake3_hash (crypt env) (as_bytes ah)"]
  from tot(1) obtain t where t: "total ?oc = Some t" "t \<le> ?b" by blast
  have "settle_paid_job env cfg paid j w ns ah qh rq fp metered (ev, a) =
      Some (ev @ [Opened j ?b, Settled j t], case anchor env of None \<Rightarrow> a | Some app \<Rightarrow> app ?r a)"
    using assms(1-4) t
    by (simp add: settle_paid_job_def Let_def mock_rail_def default_open_with_terms_def mock_open_escrow_def
        tot(2) mock_settle_def del: job_outcome_simps split: option.split)
  with t(2) show ?thesis by (intro exI [of _ t] exI [of _ ?r]) simp
qed

theorem paid_job_settles_witness:
  "\<exists>t r. settle_paid_job example_env example_economics True ''j'' ''w'' [''v''] ''h'' ''q'' ''me'' [] None ([], []) =
      Some ([] @ [Opened ''j'' (job_max_bid example_economics (length [''v'']) None), Settled ''j'' t],
        case anchor example_env of None \<Rightarrow> [] | Some app \<Rightarrow> app r []) \<and>
    t \<le> job_max_bid example_economics (length [''v'']) None \<and> rec_job_id r = ''j'' \<and> rec_result_hash r = ''h'' \<and>
    rec_max_bid r = of_nat (job_max_bid example_economics (length [''v'']) None) \<and> rec_input_fingerprint r = []"
  by (rule paid_job_settles)
    (simp_all add: example_economics_def example_env_def treasury_ok_def bid_in_range_def)

text \<open>
  a free job, a node with economics disabled, or a local treasury that contradicts or cannot
  be compared with the one on chain never touches the rail nor the anchor.
\<close>

theorem unpaid_job_inert:
  assumes "\<not> paid \<or> \<not> enabled cfg \<or> \<not> treasury_ok env cfg"
  shows "settle_paid_job env cfg paid j w ns ah qh rq fp metered st = Some st"
  using assms by (auto simp: settle_paid_job_def Let_def split: option.split)

theorem unpaid_job_inert_witness:
  "settle_paid_job (example_env\<lparr>current_fee_recipient := Some \<lparr>workchain = 0, account = replicate 32 1\<rparr>\<rparr>)
     (example_economics\<lparr>local_fee_recipient := Some ''nonsense''\<rparr>) True ''j'' ''w'' [] ''h'' ''q'' ''me'' [] None ([], [])
   = Some ([], [])"
proof (rule unpaid_job_inert)
  have "from_any_str hex_crypto ''nonsense'' = None" by code_simp
  moreover have "trim ''nonsense'' \<noteq> []" by code_simp
  ultimately show "\<not> True \<or> \<not> enabled (example_economics\<lparr>local_fee_recipient := Some ''nonsense''\<rparr>) \<or>
      \<not> treasury_ok (example_env\<lparr>current_fee_recipient := Some \<lparr>workchain = 0, account = replicate 32 1\<rparr>\<rparr>)
        (example_economics\<lparr>local_fee_recipient := Some ''nonsense''\<rparr>)"
    by (simp add: treasury_ok_def example_env_def)
qed

text \<open>
  nobody is paid out of turn. Every payee of the outcome is in the candidate set committed when
  the escrow is opened, the platform fee is the bound rate of the base whether or not the winner
  can be paid, a winner without a wallet gets nothing, and every participant gets the same
  commission.
\<close>

theorem outcome_respects_terms:
  "to (winner (job_outcome env cfg w ns rh bs)) \<in> set (candidate_wallets env [wallet_of env w] ns) \<and>
   to ` set (participants (job_outcome env cfg w ns rh bs)) \<subseteq> set (candidate_wallets env [wallet_of env w] ns) \<and>
   platform_fee (job_outcome env cfg w ns rh bs) =
     sat_mul u128_max bs (as_u16 (to_bps (platform_fee_pct cfg))) div BPS_DENOM \<and>
   amount (winner (job_outcome env cfg w ns rh bs)) = (if payout_wallet_of env w = None then 0 else bs) \<and>
   amount ` set (participants (job_outcome env cfg w ns rh bs)) \<subseteq>
     {sat_mul u128_max bs (as_u16 (to_bps (participation_commission_frac cfg))) div BPS_DENOM} \<and>
   map to (participants (job_outcome env cfg w ns rh bs)) =
     map (wallet_of env) (filter (\<lambda>n. payout_wallet_of env n \<noteq> None) ns)"
  by (auto simp: job_outcome_def Let_def candidate_wallets_set as_u16_to_bps)



end
