(* ===== verification/Ranking.thy ===== *)
theory Ranking
  imports Reputation Payment
begin

text \<open>
  How the coordinator ranks the bidders it may use: the stake factor
  (\<open>settlement/src/lib.rs\<close>), the quality score (\<open>settlement/src/quality.rs\<close>), and the capacity
  gates, the effective trust and the composite selection score of \<open>node/src/coordinator.rs\<close>.
  Floats are reals. The lemmas bound every score and show what moves a bidder up and what cannot.
\<close>

section \<open>Stake and quality\<close>

definition stake_factor :: "amount \<Rightarrow> amount \<Rightarrow> amount \<Rightarrow> real" where
  "stake_factor stake minimum maximum =
     (if stake = 0 then 0
      else let scale = (if minimum = 0 then TON_NANOTON else minimum);
               cap = max maximum scale;
               num = ln (1 + real stake / real scale);
               den = ln (1 + real cap / real scale)
           in if den \<le> 0 then 0 else clamp01 (num / den))"

definition mock_stake_factor :: "stake_state \<Rightarrow> string \<Rightarrow> real" where
  "mock_stake_factor s n = stake_factor (stake_of s n) (min_public s) (stake_cap s)"

record quality_economics =
  qe_success :: real
  qe_latency :: real
  qe_throughput :: real
  qe_completion :: real
  latency_ref_ms :: nat
  bytes_ref :: nat
  throughput_ref_bytes_per_ms :: nat

definition quality_default :: quality_economics where
  "quality_default = \<lparr>qe_success = 1 / 2, qe_latency = 1 / 5, qe_throughput = 1 / 5, qe_completion = 1 / 10,
     latency_ref_ms = 5000, bytes_ref = 1073741824, throughput_ref_bytes_per_ms = 0\<rparr>"

record quality_sample =
  qs_success_ratio :: real
  qs_latency_ms :: nat
  qs_bytes_verified :: nat
  qs_completion :: real
  qs_penalties :: "real list"

definition sample_new :: "real \<Rightarrow> nat \<Rightarrow> nat \<Rightarrow> quality_sample" where
  "sample_new ratio latency bytes = \<lparr>qs_success_ratio = ratio, qs_latency_ms = latency,
     qs_bytes_verified = bytes, qs_completion = 1, qs_penalties = []\<rparr>"

definition ref_rate :: "quality_economics \<Rightarrow> real" where
  "ref_rate cfg =
     (if 0 < throughput_ref_bytes_per_ms cfg then real (throughput_ref_bytes_per_ms cfg)
      else if 0 < latency_ref_ms cfg then real (bytes_ref cfg) / real (latency_ref_ms cfg)
      else real (bytes_ref cfg))"

definition latency_score :: "nat \<Rightarrow> nat \<Rightarrow> quality_economics \<Rightarrow> real" where
  "latency_score latency bytes cfg =
     (if latency_ref_ms cfg = 0 then 1
      else let size_factor = (if 0 < bytes_ref cfg then max (real bytes / real (bytes_ref cfg)) 1 else 1);
               effective_ref = real (latency_ref_ms cfg) * size_factor
           in clamp01 (1 - real latency / effective_ref))"

definition throughput_score :: "nat \<Rightarrow> nat \<Rightarrow> quality_economics \<Rightarrow> real" where
  "throughput_score latency bytes cfg =
     (let rate = real bytes / real (max latency 1);
          refr = ref_rate cfg
      in if refr \<le> 0 then 0
         else let denom = ln (1 + refr) in
           if denom \<le> 0 then 0 else clamp01 (ln (1 + rate) / denom))"

definition quality_score :: "quality_sample \<Rightarrow> quality_economics \<Rightarrow> real" where
  "quality_score sample cfg =
     (let s = clamp01 (qs_success_ratio sample);
          l = latency_score (qs_latency_ms sample) (qs_bytes_verified sample) cfg;
          t = throughput_score (qs_latency_ms sample) (qs_bytes_verified sample) cfg;
          c = clamp01 (qs_completion sample);
          weight_sum = qe_success cfg + qe_latency cfg + qe_throughput cfg + qe_completion cfg;
          basis = (if 0 < weight_sum
            then (qe_success cfg * s + qe_latency cfg * l + qe_throughput cfg * t + qe_completion cfg * c) / weight_sum
            else 0)
      in clamp01 (fold (\<lambda>p q. q * max (1 - clamp01 p) 0) (qs_penalties sample) basis))"

section \<open>Capacity gates\<close>

record capability_profile =
  cp_max_input_bytes :: nat
  cp_max_peak_memory_bytes :: nat
  cp_max_temp_dir_bytes :: nat
  cp_successes :: nat

definition PROVEN_GATE_MIN_SUCCESSES :: nat where "PROVEN_GATE_MIN_SUCCESSES = 4"

definition proven_capacity_admits :: "capability_profile option \<Rightarrow> nat \<Rightarrow> bool" where
  "proven_capacity_admits profile scanned =
     (if scanned = 0 then True
      else case profile of
        Some p \<Rightarrow> if PROVEN_GATE_MIN_SUCCESSES \<le> cp_successes p
          then scanned \<le> sat_add u64_max (cp_max_input_bytes p) (cp_max_temp_dir_bytes p) else True
      | None \<Rightarrow> True)"

definition advertised_capacity_admits :: "nat \<Rightarrow> capability_profile option \<Rightarrow> nat \<Rightarrow> nat \<Rightarrow> bool" where
  "advertised_capacity_admits free_mem profile peak spill_tolerance =
     (if peak = 0 \<or> free_mem = 0 then True
      else let capacity = sat_add u64_max free_mem spill_tolerance;
               capacity = (case profile of
                 Some p \<Rightarrow> max capacity (sat_add u64_max (cp_max_peak_memory_bytes p) (cp_max_temp_dir_bytes p))
               | None \<Rightarrow> capacity)
           in peak \<le> capacity)"

section \<open>The selection blend\<close>

record ranking_economics =
  w_quality :: real
  w_stake :: real
  w_price :: real
  w_latency :: real
  w_throughput :: real
  exploration_rate :: real
  exploration_saturation :: nat
  capability_weight :: real
  newcomer_trust_ceiling :: real
  newcomer_obs_threshold :: nat
  stake_reliability_floor :: real

definition ranking_default :: ranking_economics where
  "ranking_default = \<lparr>w_quality = 6 / 10, w_stake = 3 / 10, w_price = 1 / 4, w_latency = 15 / 100,
     w_throughput = 15 / 100, exploration_rate = 0, exploration_saturation = 20, capability_weight = 1 / 10,
     newcomer_trust_ceiling = 1, newcomer_obs_threshold = 20, stake_reliability_floor = 1 / 2\<rparr>"

definition normalize_price :: "nat \<Rightarrow> nat \<Rightarrow> nat \<Rightarrow> real" where
  "normalize_price price pmin pmax =
     (if pmax \<le> pmin then 1 else 1 - real (price - pmin) / real (pmax - pmin))"

definition stake_reliability_factor :: "real \<Rightarrow> real \<Rightarrow> real" where
  "stake_reliability_factor reliability flr =
     (let flr = clamp01 flr; r = clamp01 reliability in
      if 1 \<le> flr then (if 1 \<le> r then 1 else 0)
      else clamp01 ((r - flr) / (1 - flr)))"

definition blend_selection_score ::
    "real \<Rightarrow> real \<Rightarrow> real \<Rightarrow> real \<Rightarrow> real \<Rightarrow> real \<Rightarrow> ranking_economics \<Rightarrow> real" where
  "blend_selection_score trust lat thr stake reliability price_score r =
     (let gated_stake = stake * stake_reliability_factor reliability (stake_reliability_floor r);
          wsum = w_quality r + w_latency r + w_throughput r + w_stake r + w_price r
      in if wsum \<le> 0 then trust
         else clamp01 ((w_quality r * trust + w_latency r * lat + w_throughput r * thr +
           w_stake r * gated_stake + w_price r * price_score) / wsum))"

section \<open>Effective trust and the score of a bidder\<close>

text \<open>What ranking reads of the configuration.\<close>

record reputation_economics =
  prior_alpha :: real
  prior_beta :: real
  confidence_z :: real

definition reputation_economics_default :: reputation_economics where
  "reputation_economics_default = \<lparr>prior_alpha = 1, prior_beta = 2, confidence_z = 196 / 100\<rparr>"

definition reputation_weights_default :: reputation_weights where
  "reputation_weights_default = \<lparr>alpha_reputation = 7 / 10, beta_age = 1 / 10, gamma_voucher = 1 / 10, delta_stake = 1 / 10\<rparr>"

record rank_config =
  trust_weights :: reputation_weights
  bootstrap_trust :: real
  economics_enabled :: bool
  rep_economics :: reputation_economics
  ranking :: ranking_economics
  quality :: quality_economics

text \<open>
  What ranking reads of the coordinator: the trust store, the stake factors of the wired registry, and
  the (node, wallet) entries of the binding store, \<open>None\<close> when it is not wired or cannot be read.
\<close>

record rank_view =
  rv_trust :: trust_store
  rv_stake_factor :: "(string \<Rightarrow> real) option"
  rv_bindings :: "(string \<times> string) list option"

definition wallet_siblings :: "rank_view \<Rightarrow> string \<Rightarrow> string list" where
  "wallet_siblings v w =
     (case rv_bindings v of
        None \<Rightarrow> []
      | Some es \<Rightarrow> (case map_of es w of
          None \<Rightarrow> []
        | Some wallet \<Rightarrow> map fst (filter (\<lambda>e. snd e = wallet) es)))"

definition wallet_reputation :: "rank_config \<Rightarrow> rank_view \<Rightarrow> string \<Rightarrow> nat \<Rightarrow> real \<times> nat" where
  "wallet_reputation cfg v w at_s =
     (let rep = rep_economics cfg;
          confident = (\<lambda>i. confident_reputation (rv_trust v) i at_s (prior_alpha rep) (prior_beta rep) (confidence_z rep));
          siblings = wallet_siblings v w
      in if length siblings \<le> 1
         then (case confident w of Some r \<Rightarrow> r | None \<Rightarrow> bootstrap_trust cfg, observation_count (rv_trust v) w)
         else let (weighted, total) = fold (\<lambda>sib (weighted, total).
                    let obs = observation_count (rv_trust v) sib in
                    if obs = 0 then (weighted, total)
                    else (case confident sib of
                            Some r \<Rightarrow> (weighted + r * real obs, total + obs)
                          | None \<Rightarrow> (weighted, total))) siblings (0, 0)
              in if total = 0 then (bootstrap_trust cfg, 0) else (weighted / real total, total))"

definition stake_factor_for :: "rank_config \<Rightarrow> rank_view \<Rightarrow> string \<Rightarrow> bool \<Rightarrow> real" where
  "stake_factor_for cfg v w paid =
     (if paid \<and> economics_enabled cfg
      then (case rv_stake_factor v of Some f \<Rightarrow> f w | None \<Rightarrow> 0) else 0)"

definition effective_trust :: "rank_config \<Rightarrow> rank_view \<Rightarrow> string \<Rightarrow> nat \<Rightarrow> bool \<Rightarrow> real" where
  "effective_trust cfg v w at_s paid =
     (let stake = (if paid \<and> economics_enabled cfg
            then (case rv_stake_factor v of Some f \<Rightarrow> f w | None \<Rightarrow> 0) else 0);
          rep = rep_economics cfg;
          (rp, obs) = wallet_reputation cfg v w at_s;
          inputs = \<lparr>ti_reputation = rp, ti_age_factor = age_factor obs 20,
            ti_voucher_trust = min (voucher_trust_of (rv_trust v) w) 1,
            ti_stake_factor = stake, ti_penalties = penalty_of (rv_trust v) w\<rparr>;
          bonus = exploration_bonus obs (exploration_rate (ranking cfg)) (exploration_saturation (ranking cfg));
          cap_term = (if 0 < capability_weight (ranking cfg)
            then capability_weight (ranking cfg) *
              capability_confidence (rv_trust v) w (prior_alpha rep) (prior_beta rep) (confidence_z rep)
            else 0);
          score = clamp01 (soft_trust_score (trust_weights cfg) inputs + bonus + cap_term)
      in if newcomer_trust_ceiling (ranking cfg) < 1 \<and> obs < newcomer_obs_threshold (ranking cfg)
         then min score (newcomer_trust_ceiling (ranking cfg)) else score)"

definition perf_sample :: "trust_store \<Rightarrow> string \<Rightarrow> nat \<Rightarrow> quality_sample option" where
  "perf_sample s w at_s =
     (case perf_aggregate_of s w of
        None \<Rightarrow> None
      | Some p \<Rightarrow> Some (sample_new (case reputation s w at_s of Some r \<Rightarrow> r | None \<Rightarrow> 1)
          (as_u64 (max (of_int (round (ewma_latency_ms p))) 0))
          (as_u64 (max (of_int (round (ewma_bytes p))) 0))))"

definition selection_score :: "rank_config \<Rightarrow> rank_view \<Rightarrow> string \<Rightarrow> real \<Rightarrow> real \<Rightarrow> nat \<Rightarrow> bool \<Rightarrow> real" where
  "selection_score cfg v w trust price_score at_s paid =
     (let (lat, thr) = (case perf_sample (rv_trust v) w at_s of
            Some s \<Rightarrow> (latency_score (qs_latency_ms s) (qs_bytes_verified s) (quality cfg),
                       throughput_score (qs_latency_ms s) (qs_bytes_verified s) (quality cfg))
          | None \<Rightarrow> (1 / 2, 1 / 2));
          stake = stake_factor_for cfg v w paid;
          reliability = (if 0 < stake then fst (wallet_reputation cfg v w at_s) else 0)
      in blend_selection_score trust lat thr stake reliability price_score (ranking cfg))"

section \<open>Bounds and monotonicity\<close>

lemma ln1_mono: "0 \<le> x \<Longrightarrow> x \<le> y \<Longrightarrow> ln (1 + x) \<le> ln (1 + y)" for x y :: real
  by (subst ln_le_cancel_iff) auto

lemma ln1_pos: "0 < x \<Longrightarrow> 0 < ln (1 + x)" for x :: real
  by (rule ln_gt_zero) simp

text \<open>Above zero stake the factor is the clamped ratio of logarithms; the formula also gives zero at zero.\<close>

definition stake_curve :: "amount \<Rightarrow> amount \<Rightarrow> amount \<Rightarrow> real" where
  "stake_curve stake minimum maximum =
     (let scale = (if minimum = 0 then TON_NANOTON else minimum)
      in ln (1 + real stake / real scale) / ln (1 + real (max maximum scale) / real scale))"

lemma stake_scale_pos: "0 < (if minimum = 0 then TON_NANOTON else minimum)"
  by (simp add: TON_NANOTON_def)

lemma stake_factor_curve:
  "stake_factor s a b = min 1 (stake_curve s a b)" and stake_curve_nonneg: "0 \<le> stake_curve s a b"
proof -
  define scale where "scale = (if a = 0 then TON_NANOTON else a)"
  have pos: "0 < scale" unfolding scale_def by (rule stake_scale_pos)
  then have den: "0 < ln (1 + real (max b scale) / real scale)" by (intro ln1_pos) simp
  moreover have "0 \<le> ln (1 + real s / real scale)" by simp
  ultimately show nn: "0 \<le> stake_curve s a b"
    unfolding stake_curve_def scale_def [symmetric] Let_def by simp
  show "stake_factor s a b = min 1 (stake_curve s a b)"
    using den nn unfolding stake_factor_def stake_curve_def scale_def [symmetric] Let_def
    by (auto simp: clamp01_def)
qed

lemma stake_curve_mono:
  assumes "s \<le> t" shows "stake_curve s a b \<le> stake_curve t a b"
proof -
  define scale where "scale = (if a = 0 then TON_NANOTON else a)"
  have pos: "0 < real scale" unfolding scale_def using stake_scale_pos [of a] by simp
  have "0 \<le> real s / real scale" "real s / real scale \<le> real t / real scale"
    using assms pos by (simp_all add: divide_right_mono)
  then have num: "ln (1 + real s / real scale) \<le> ln (1 + real t / real scale)" by (rule ln1_mono)
  have "0 < ln (1 + real (max b scale) / real scale)" by (rule ln1_pos) (use pos in simp)
  with num show ?thesis
    unfolding stake_curve_def scale_def [symmetric] Let_def by (simp add: divide_right_mono)
qed

lemma stake_curve_full:
  assumes "b \<le> s" "(if a = 0 then TON_NANOTON else a) \<le> s" shows "1 \<le> stake_curve s a b"
proof -
  define scale where "scale = (if a = 0 then TON_NANOTON else a)"
  have pos: "0 < real scale" unfolding scale_def using stake_scale_pos [of a] by simp
  have "real (max b scale) / real scale \<le> real s / real scale"
    using assms pos unfolding scale_def [symmetric] by (simp add: divide_right_mono)
  moreover have "0 \<le> real (max b scale) / real scale" using pos by simp
  ultimately have num: "ln (1 + real (max b scale) / real scale) \<le> ln (1 + real s / real scale)" by (intro ln1_mono)
  have "0 < ln (1 + real (max b scale) / real scale)" by (rule ln1_pos) (use pos in simp)
  with num show ?thesis
    unfolding stake_curve_def scale_def [symmetric] Let_def by simp
qed

lemma ln_midpoint:
  fixes x d :: real
  assumes "0 \<le> x" "0 \<le> d"
  shows "ln (1 + x) + ln (1 + (x + 2 * d)) \<le> 2 * ln (1 + (x + d))"
proof -
  have "ln (1 + x) + ln (1 + (x + 2 * d)) = ln ((1 + x) * (1 + (x + 2 * d)))"
    using assms by (simp add: ln_mult)
  also have "\<dots> \<le> ln ((1 + (x + d)) * (1 + (x + d)))"
    using assms by (subst ln_le_cancel_iff) (auto simp: algebra_simps add_pos_nonneg intro!: mult_pos_pos)
  also have "\<dots> = 2 * ln (1 + (x + d))" using assms by (simp add: ln_mult)
  finally show ?thesis .
qed

lemma stake_curve_concave: "stake_curve s a b + stake_curve (s + 2 * d) a b \<le> 2 * stake_curve (s + d) a b"
proof -
  define scale where "scale = (if a = 0 then TON_NANOTON else a)"
  define den where "den = ln (1 + real (max b scale) / real scale)"
  have pos: "0 < real scale" unfolding scale_def using stake_scale_pos [of a] by simp
  then have den: "0 < den" unfolding den_def by (intro ln1_pos) simp
  have curve: "stake_curve n a b = ln (1 + real n / real scale) / den" for n
    unfolding stake_curve_def scale_def [symmetric] Let_def den_def ..
  have "ln (1 + real s / real scale) + ln (1 + (real s / real scale + 2 * (real d / real scale)))
      \<le> 2 * ln (1 + (real s / real scale + real d / real scale))"
    by (rule ln_midpoint) (use pos in simp_all)
  then have "ln (1 + real s / real scale) + ln (1 + real (s + 2 * d) / real scale)
      \<le> 2 * ln (1 + real (s + d) / real scale)"
    by (simp add: add_divide_distrib)
  then have "(ln (1 + real s / real scale) + ln (1 + real (s + 2 * d) / real scale)) / den
      \<le> 2 * ln (1 + real (s + d) / real scale) / den"
    using den by (simp add: divide_right_mono)
  then show ?thesis unfolding curve by (simp add: add_divide_distrib)
qed

lemma reliability_factor_bounds [simp]: "0 \<le> stake_reliability_factor r f" "stake_reliability_factor r f \<le> 1"
  by (auto simp: stake_reliability_factor_def Let_def)

lemma reliability_factor_floor:
  assumes "r \<le> f" "0 \<le> f" "f < 1" shows "stake_reliability_factor r f = 0"
proof -
  have "clamp01 f = f" "clamp01 r \<le> f" using assms by (auto simp: clamp01_def)
  then have "(clamp01 r - f) / (1 - f) \<le> 0" using assms(3) by (simp add: divide_le_0_iff)
  then show ?thesis
    using \<open>clamp01 f = f\<close> assms(3) unfolding stake_reliability_factor_def Let_def
    by (simp add: clamp01_def)
qed

definition weights_ok :: "ranking_economics \<Rightarrow> bool" where
  "weights_ok r \<longleftrightarrow> 0 \<le> w_quality r \<and> 0 \<le> w_stake r \<and> 0 \<le> w_price r \<and> 0 \<le> w_latency r \<and> 0 \<le> w_throughput r"

lemma blend_mono:
  assumes "weights_ok r" "trust \<le> trust'" "lat \<le> lat'" "thr \<le> thr'" "stake \<le> stake'" "price \<le> price'"
  shows "blend_selection_score trust lat thr stake rel price r \<le> blend_selection_score trust' lat' thr' stake' rel price' r"
proof (cases "w_quality r + w_latency r + w_throughput r + w_stake r + w_price r \<le> 0")
  case True
  then show ?thesis using assms(2) by (simp add: blend_selection_score_def)
next
  case False
  let ?g = "stake_reliability_factor rel (stake_reliability_floor r)"
  have "w_quality r * trust \<le> w_quality r * trust'" "w_latency r * lat \<le> w_latency r * lat'"
    "w_throughput r * thr \<le> w_throughput r * thr'" "w_price r * price \<le> w_price r * price'"
    "w_stake r * (stake * ?g) \<le> w_stake r * (stake' * ?g)"
    using assms by (auto simp: weights_ok_def intro!: mult_left_mono mult_right_mono)
  then have "w_quality r * trust + w_latency r * lat + w_throughput r * thr + w_stake r * (stake * ?g) + w_price r * price
      \<le> w_quality r * trust' + w_latency r * lat' + w_throughput r * thr' + w_stake r * (stake' * ?g) + w_price r * price'"
    by linarith
  with False show ?thesis
    unfolding blend_selection_score_def Let_def by (simp add: clamp01_mono divide_right_mono)
qed

lemma blend_gated:
  assumes "rel \<le> stake_reliability_floor r" "0 \<le> stake_reliability_floor r" "stake_reliability_floor r < 1"
  shows "blend_selection_score trust lat thr stake rel price r = blend_selection_score trust lat thr 0 rel' price r"
  using reliability_factor_floor [OF assms] by (simp add: blend_selection_score_def)

lemma blend_bounds:
  assumes "0 \<le> trust" "trust \<le> 1"
  shows "0 \<le> blend_selection_score trust lat thr stake rel price r" "blend_selection_score trust lat thr stake rel price r \<le> 1"
  using assms by (auto simp: blend_selection_score_def Let_def)

lemma latency_score_antimono:
  assumes "l \<le> m" shows "latency_score m b cfg \<le> latency_score l b cfg"
proof (cases "latency_ref_ms cfg = 0")
  case False
  let ?e = "real (latency_ref_ms cfg) * (if 0 < bytes_ref cfg then max (real b / real (bytes_ref cfg)) 1 else 1)"
  have "0 < ?e" using False by auto
  then have "real l / ?e \<le> real m / ?e" using assms by (simp add: divide_right_mono)
  with False show ?thesis unfolding latency_score_def Let_def by (simp add: clamp01_mono)
qed (simp add: latency_score_def)

lemma throughput_score_antimono:
  assumes "l \<le> m" shows "throughput_score m b cfg \<le> throughput_score l b cfg"
proof -
  have "real b / real (max m 1) \<le> real b / real (max l 1)"
    using assms by (intro divide_left_mono) auto
  moreover have "0 \<le> real b / real (max m 1)" by simp
  ultimately have "ln (1 + real b / real (max m 1)) \<le> ln (1 + real b / real (max l 1))" by (intro ln1_mono)
  then show ?thesis unfolding throughput_score_def Let_def
    by (auto intro!: clamp01_mono divide_right_mono)
qed

lemma normalize_price_antimono: "p \<le> q \<Longrightarrow> normalize_price q lo hi \<le> normalize_price p lo hi"
  by (auto simp: normalize_price_def intro!: divide_right_mono)

lemma normalize_price_bounds: "p \<le> hi \<Longrightarrow> lo \<le> p \<Longrightarrow> 0 \<le> normalize_price p lo hi \<and> normalize_price p lo hi \<le> 1"
  by (auto simp: normalize_price_def divide_le_eq_1)

lemma wallet_reputation_unstaked: "wallet_reputation cfg (v\<lparr>rv_stake_factor := f\<rparr>) w t = wallet_reputation cfg v w t"
  by (simp add: wallet_reputation_def wallet_siblings_def Let_def)

lemma effective_trust_bounds:
  assumes "0 \<le> newcomer_trust_ceiling (ranking cfg)"
  shows "0 \<le> effective_trust cfg v w t paid" "effective_trust cfg v w t paid \<le> 1"
  using assms by (auto simp: effective_trust_def Let_def split: prod.splits intro: min.coboundedI1)

lemma newcomer_capped:
  assumes "newcomer_trust_ceiling (ranking cfg) < 1" "snd (wallet_reputation cfg v w t) < newcomer_obs_threshold (ranking cfg)"
  shows "effective_trust cfg v w t paid \<le> newcomer_trust_ceiling (ranking cfg)"
  using assms by (auto simp: effective_trust_def Let_def split: prod.splits)

section \<open>Stake still moves the trust term\<close>

text \<open>
  The gate of the stake term does not cover the other way stake enters the score: the effective trust
  adds \<open>delta_stake\<close> times the same factor, ungated. With the shipped weights a node of the
  bootstrap reputation, far below the reliability floor, is ranked higher with stake than without.
\<close>

definition paid_config :: rank_config where
  "paid_config = \<lparr>trust_weights = reputation_weights_default, bootstrap_trust = 1 / 10, economics_enabled = True,
     rep_economics = reputation_economics_default, ranking = ranking_default, quality = quality_default\<rparr>"

definition fresh_view :: "real \<Rightarrow> rank_view" where
  "fresh_view stake = \<lparr>rv_trust = trust_new 604800 256 4096, rv_stake_factor = Some (\<lambda>_. stake), rv_bindings = None\<rparr>"

lemma fresh_reputation: "wallet_reputation paid_config (fresh_view x) w t = (1 / 10, 0)"
  by (simp add: wallet_reputation_def paid_config_def fresh_view_def trust_new_def Let_def wallet_siblings_def
      confident_reputation_def reputation_def observation_count_def)

lemma stake_leaks_through_trust:
  "fst (wallet_reputation paid_config (fresh_view 1) w t) < stake_reliability_floor (ranking paid_config)"
  "selection_score paid_config (fresh_view 0) w (effective_trust paid_config (fresh_view 0) w t True) 0 t True
     < selection_score paid_config (fresh_view 1) w (effective_trust paid_config (fresh_view 1) w t True) 0 t True"
proof -
  have rep: "wallet_reputation paid_config (fresh_view x) w t = (1 / 10, 0)" for x by (rule fresh_reputation)
  show "fst (wallet_reputation paid_config (fresh_view 1) w t) < stake_reliability_floor (ranking paid_config)"
    unfolding rep by (simp add: paid_config_def ranking_default_def)
  have trust: "effective_trust paid_config (fresh_view x) w t True = clamp01 (7 / 100 + x / 10)" if "0 \<le> x" "x \<le> 1" for x
    using that unfolding effective_trust_def rep
    by (simp add: paid_config_def fresh_view_def trust_new_def Let_def ranking_default_def voucher_trust_of_def
        penalty_of_def reputation_weights_default_def age_factor_def exploration_bonus_def capability_confidence_def
        proven_capability_of_def soft_trust_score_def)
  have t0: "effective_trust paid_config (fresh_view 0) w t True = 7 / 100"
    and t1: "effective_trust paid_config (fresh_view 1) w t True = 17 / 100"
    using trust [of 0] trust [of 1] by simp_all
  show "selection_score paid_config (fresh_view 0) w (effective_trust paid_config (fresh_view 0) w t True) 0 t True
     < selection_score paid_config (fresh_view 1) w (effective_trust paid_config (fresh_view 1) w t True) 0 t True"
    unfolding t0 t1 selection_score_def rep
    by (simp add: paid_config_def fresh_view_def trust_new_def ranking_default_def perf_sample_def perf_aggregate_of_def
        stake_factor_for_def blend_selection_score_def stake_reliability_factor_def clamp01_def)
qed

text \<open>The reputation that gates the stake term may be read whether or not there is stake.\<close>

lemma selection_score_blend:
  obtains lat thr where
    "\<And>f. 0 \<le> stake_factor_for cfg (v\<lparr>rv_stake_factor := f\<rparr>) w paid \<Longrightarrow>
       selection_score cfg (v\<lparr>rv_stake_factor := f\<rparr>) w trust price t paid =
         blend_selection_score trust lat thr (stake_factor_for cfg (v\<lparr>rv_stake_factor := f\<rparr>) w paid)
           (fst (wallet_reputation cfg v w t)) price (ranking cfg)"
proof -
  obtain lat thr where perf: "(case perf_sample (rv_trust v) w t of
      Some s \<Rightarrow> (latency_score (qs_latency_ms s) (qs_bytes_verified s) (quality cfg),
                 throughput_score (qs_latency_ms s) (qs_bytes_verified s) (quality cfg))
    | None \<Rightarrow> (1 / 2, 1 / 2)) = (lat, thr)" by (rule prod.exhaust)
  show thesis
  proof (rule that [of lat thr])
    fix f assume nn: "0 \<le> stake_factor_for cfg (v\<lparr>rv_stake_factor := f\<rparr>) w paid"
    have "selection_score cfg (v\<lparr>rv_stake_factor := f\<rparr>) w trust price t paid =
        blend_selection_score trust lat thr (stake_factor_for cfg (v\<lparr>rv_stake_factor := f\<rparr>) w paid)
          (if 0 < stake_factor_for cfg (v\<lparr>rv_stake_factor := f\<rparr>) w paid then fst (wallet_reputation cfg v w t) else 0)
          price (ranking cfg)"
      unfolding selection_score_def Let_def wallet_reputation_unstaked by (simp add: perf)
    also have "\<dots> = blend_selection_score trust lat thr (stake_factor_for cfg (v\<lparr>rv_stake_factor := f\<rparr>) w paid)
        (fst (wallet_reputation cfg v w t)) price (ranking cfg)"
      using nn by (cases "0 < stake_factor_for cfg (v\<lparr>rv_stake_factor := f\<rparr>) w paid") (auto simp: blend_selection_score_def)
    finally show "selection_score cfg (v\<lparr>rv_stake_factor := f\<rparr>) w trust price t paid =
        blend_selection_score trust lat thr (stake_factor_for cfg (v\<lparr>rv_stake_factor := f\<rparr>) w paid)
          (fst (wallet_reputation cfg v w t)) price (ranking cfg)" .
  qed
qed

section \<open>Properties\<close>

text \<open>
  The stake factor lies between zero and one, grows with the stake, reaches one at the cap and
  stays there, and gives diminishing returns: of two equal increments of stake the second never adds
  more than the first.
\<close>

theorem stake_factor_diminishing:
  "0 \<le> stake_factor s lo hi \<and> stake_factor s lo hi \<le> 1 \<and>
   (s \<le> t \<longrightarrow> stake_factor s lo hi \<le> stake_factor t lo hi) \<and>
   (max hi (if lo = 0 then TON_NANOTON else lo) \<le> s \<longrightarrow> stake_factor s lo hi = 1) \<and>
   stake_factor (s + 2 * d) lo hi - stake_factor (s + d) lo hi \<le> stake_factor (s + d) lo hi - stake_factor s lo hi"
proof (intro conjI impI)
  show "0 \<le> stake_factor s lo hi" "stake_factor s lo hi \<le> 1"
    using stake_curve_nonneg by (simp_all add: stake_factor_curve)
  show "stake_factor s lo hi \<le> stake_factor t lo hi" if "s \<le> t"
    using stake_curve_mono [OF that, of lo hi] by (auto simp: stake_factor_curve)
  show "stake_factor s lo hi = 1" if "max hi (if lo = 0 then TON_NANOTON else lo) \<le> s"
    using stake_curve_full [of hi s lo] that by (simp add: stake_factor_curve)
  show "stake_factor (s + 2 * d) lo hi - stake_factor (s + d) lo hi \<le> stake_factor (s + d) lo hi - stake_factor s lo hi"
    using stake_curve_concave [of s lo hi d] by (auto simp: stake_factor_curve min_def)
qed

theorem stake_factor_diminishing_witness:
  "stake_factor 0 5 40 \<le> stake_factor 10 5 40 \<and> stake_factor 100 5 40 = 1 \<and>
   stake_factor 20 5 40 - stake_factor 10 5 40 \<le> stake_factor 10 5 40 - stake_factor 0 5 40"
  using stake_factor_diminishing [of 0 5 40 10 10] stake_factor_diminishing [of 100 5 40 100 0] by simp

text \<open>
  For bidders of the same trust and price, stake only amplifies. With non-negative weights the
  selection score stays between zero and one and never falls when the registry reports a larger stake
  factor; for a bidder whose stake-independent reputation is at or below the reliability floor the score
  is the same as with no stake registry at all.
\<close>

theorem stake_only_amplifies:
  assumes "weights_ok (ranking cfg)" "0 \<le> trust" "trust \<le> 1" "0 \<le> f w" "f w \<le> g w"
    and floor: "0 \<le> stake_reliability_floor (ranking cfg)" "stake_reliability_floor (ranking cfg) < 1"
  shows "0 \<le> selection_score cfg (v\<lparr>rv_stake_factor := Some f\<rparr>) w trust price t paid \<and>
    selection_score cfg (v\<lparr>rv_stake_factor := Some f\<rparr>) w trust price t paid
      \<le> selection_score cfg (v\<lparr>rv_stake_factor := Some g\<rparr>) w trust price t paid \<and>
    selection_score cfg (v\<lparr>rv_stake_factor := Some g\<rparr>) w trust price t paid \<le> 1 \<and>
    (fst (wallet_reputation cfg v w t) \<le> stake_reliability_floor (ranking cfg) \<longrightarrow>
     selection_score cfg (v\<lparr>rv_stake_factor := Some g\<rparr>) w trust price t paid =
       selection_score cfg (v\<lparr>rv_stake_factor := None\<rparr>) w trust price t paid)"
proof -
  obtain lat thr where score: "\<And>f. 0 \<le> stake_factor_for cfg (v\<lparr>rv_stake_factor := f\<rparr>) w paid \<Longrightarrow>
       selection_score cfg (v\<lparr>rv_stake_factor := f\<rparr>) w trust price t paid =
         blend_selection_score trust lat thr (stake_factor_for cfg (v\<lparr>rv_stake_factor := f\<rparr>) w paid)
           (fst (wallet_reputation cfg v w t)) price (ranking cfg)"
    by (rule selection_score_blend [of cfg v w paid trust price t], rule that, assumption)
  have sf: "0 \<le> stake_factor_for cfg (v\<lparr>rv_stake_factor := Some f\<rparr>) w paid"
    "stake_factor_for cfg (v\<lparr>rv_stake_factor := Some f\<rparr>) w paid \<le> stake_factor_for cfg (v\<lparr>rv_stake_factor := Some g\<rparr>) w paid"
    "stake_factor_for cfg (v\<lparr>rv_stake_factor := None\<rparr>) w paid = 0"
    using assms(4,5) by (simp_all add: stake_factor_for_def)
  note scores = score [OF sf(1)] score [OF order_trans [OF sf(1,2)]] score [of None, unfolded sf(3), OF order_refl]
  show ?thesis unfolding scores
  proof (intro conjI impI)
    show "blend_selection_score trust lat thr (stake_factor_for cfg (v\<lparr>rv_stake_factor := Some f\<rparr>) w paid)
        (fst (wallet_reputation cfg v w t)) price (ranking cfg)
      \<le> blend_selection_score trust lat thr (stake_factor_for cfg (v\<lparr>rv_stake_factor := Some g\<rparr>) w paid)
        (fst (wallet_reputation cfg v w t)) price (ranking cfg)"
      by (rule blend_mono [OF assms(1) order_refl order_refl order_refl sf(2) order_refl])
  qed (rule blend_bounds [OF assms(2,3)] blend_gated [OF _ floor], assumption?)+
qed

theorem stake_only_amplifies_witness:
  "selection_score paid_config (fresh_view 0\<lparr>rv_stake_factor := Some (\<lambda>n. 1)\<rparr>) ''w'' (1 / 2) 1 0 True =
   selection_score paid_config (fresh_view 0\<lparr>rv_stake_factor := None\<rparr>) ''w'' (1 / 2) 1 0 True"
proof -
  have "weights_ok (ranking paid_config)" "fst (wallet_reputation paid_config (fresh_view 0) ''w'' 0) \<le> stake_reliability_floor (ranking paid_config)"
    "0 \<le> stake_reliability_floor (ranking paid_config)" "stake_reliability_floor (ranking paid_config) < 1"
    unfolding fresh_reputation by (simp_all add: weights_ok_def paid_config_def ranking_default_def)
  then show ?thesis
    using stake_only_amplifies [of paid_config "1 / 2" "\<lambda>n. 0" "''w''" "\<lambda>n. 1" "fresh_view 0" 1 0 True] by simp
qed

end
