(* ===== verification/Guards.thy ===== *)
theory Guards
  imports Complex_Main Receipt Address
begin

text \<open>
  Anti-abuse helpers on the path of every offer (\<open>node/src/antiabuse.rs\<close>) and the persisted
  deny-list (\<open>config/src/blocklist.rs\<close>): the pre-flight cost gate, the deny-list with its
  write-through file and signed abuse signals, and the sliding-window limiter of free jobs. TOML text
  is not represented: a deny-list file is missing, unreadable as TOML, or a list of entries, and a
  flag says whether writing it succeeds. The window limiter is proved equal to counting the admitted
  requests of the trailing window.
\<close>

section \<open>Cost gate\<close>

record cost_gate_config =
  cg_enabled :: bool
  max_cost_hint_rows :: nat
  max_working_set_factor :: real

text \<open>\<open>x as u64\<close> for a float: truncation towards zero, saturating.\<close>

definition real_as_u64 :: "real \<Rightarrow> nat" where
  "real_as_u64 x = min u64_max (nat (floor x))"

definition cost_gate_reason :: "cost_gate_config \<Rightarrow> nat option \<Rightarrow> nat option \<Rightarrow> nat \<Rightarrow> string option" where
  "cost_gate_reason cfg cost_hint_rows estimated_peak_bytes per_job_memory_bytes =
     (case (case cost_hint_rows of
              Some rows \<Rightarrow>
                if 0 < max_cost_hint_rows cfg \<and> max_cost_hint_rows cfg < rows
                then Some (''over budget: estimated '' @ show_nat rows @
                  '' rows exceeds the worker's max_cost_hint_rows ('' @ show_nat (max_cost_hint_rows cfg) @ '')'')
                else None
            | None \<Rightarrow> None) of
        Some m \<Rightarrow> Some m
      | None \<Rightarrow>
          (case estimated_peak_bytes of
             None \<Rightarrow> None
           | Some peak \<Rightarrow>
               let factor = (if 0 < max_working_set_factor cfg then max_working_set_factor cfg else 1);
                   cap = real_as_u64 (real per_job_memory_bytes * factor)
               in if 0 < cap \<and> cap < peak
                  then Some (''over budget: estimated peak working set '' @ show_nat peak @
                    '' bytes exceeds budget '' @ show_nat cap @ '' bytes'')
                  else None))"

section \<open>The persisted deny-list\<close>

datatype block_kind = NodeIdKind | WalletKind

record block_entry =
  be_id :: string
  be_kind :: block_kind
  be_reason :: string
  be_source :: string
  be_ts :: nat

datatype store_error = BadParam string | IoError string

datatype block_file = FileMissing | FileCorrupt | FileEntries "block_entry list"

fun bs_read :: "block_file \<Rightarrow> store_error + block_entry list" where
  "bs_read FileMissing = Inr []"
| "bs_read FileCorrupt = Inl (BadParam ''blocklist file is corrupt'')"
| "bs_read (FileEntries es) = Inr (filter (\<lambda>e. be_id e \<noteq> '''') es)"

definition bs_write :: "bool \<Rightarrow> block_entry list \<Rightarrow> block_file \<Rightarrow> (store_error + unit) \<times> block_file" where
  "bs_write io es f = (if io then (Inr (), FileEntries es) else (Inl (IoError ''write''), f))"

definition bs_list :: "block_file \<Rightarrow> store_error + block_entry list" where
  "bs_list f = bs_read f"

definition bs_is_blocked :: "string \<Rightarrow> block_file \<Rightarrow> store_error + bool" where
  "bs_is_blocked i f = map_sum id (list_ex (\<lambda>e. be_id e = i)) (bs_read f)"

definition bs_block ::
  "bool \<Rightarrow> string \<Rightarrow> block_kind \<Rightarrow> string \<Rightarrow> string \<Rightarrow> nat \<Rightarrow> block_file \<Rightarrow> (store_error + unit) \<times> block_file" where
  "bs_block io i kind why source now f =
     (let i = trim i in
      if i = '''' then (Inl (BadParam ''block: id must be non-empty''), f)
      else case bs_read f of
        Inl e \<Rightarrow> (Inl e, f)
      | Inr es \<Rightarrow> bs_write io (filter (\<lambda>e. be_id e \<noteq> i) es @
          [\<lparr>be_id = i, be_kind = kind, be_reason = why, be_source = source, be_ts = now\<rparr>]) f)"

definition bs_unblock :: "bool \<Rightarrow> string \<Rightarrow> block_file \<Rightarrow> (store_error + bool) \<times> block_file" where
  "bs_unblock io i f =
     (let i = trim i in
      case bs_read f of
        Inl e \<Rightarrow> (Inl e, f)
      | Inr es \<Rightarrow>
          let es' = filter (\<lambda>e. be_id e \<noteq> i) es; removed = (length es' \<noteq> length es) in
          if removed then (case bs_write io es' f of (Inl e, f) \<Rightarrow> (Inl e, f) | (Inr _, f) \<Rightarrow> (Inr True, f))
          else (Inr False, f))"

section \<open>The deny-list in memory\<close>

text \<open>A set without duplicates, with the file it writes through to, if any.\<close>

record blocklist =
  bl_ids :: "string list"
  bl_store :: "block_file option"

definition blocklist_new :: blocklist where
  "blocklist_new = \<lparr>bl_ids = [], bl_store = None\<rparr>"

definition with_store :: "block_file \<Rightarrow> blocklist" where
  "with_store f =
     \<lparr>bl_ids = (case bs_list f of Inl e \<Rightarrow> [] | Inr es \<Rightarrow> fold (\<lambda>e ids. List.insert (be_id e) ids) es []), bl_store = Some f\<rparr>"

definition is_blocked :: "string \<Rightarrow> blocklist \<Rightarrow> bool" where
  "is_blocked i bl \<longleftrightarrow> i \<in> set (bl_ids bl)"

definition block :: "bool \<Rightarrow> nat \<Rightarrow> string \<Rightarrow> block_kind \<Rightarrow> string \<Rightarrow> string \<Rightarrow> blocklist \<Rightarrow> blocklist" where
  "block io now i kind why source bl =
     (let i = trim i in
      if i = '''' \<or> i \<in> set (bl_ids bl) then bl
      else bl\<lparr>bl_ids := i # bl_ids bl, bl_store := map_option (\<lambda>f. snd (bs_block io i kind why source now f)) (bl_store bl)\<rparr>)"

definition unblock :: "bool \<Rightarrow> string \<Rightarrow> blocklist \<Rightarrow> bool \<times> blocklist" where
  "unblock io i bl =
     (if i \<in> set (bl_ids bl)
      then (True, bl\<lparr>bl_ids := removeAll i (bl_ids bl), bl_store := map_option (\<lambda>f. snd (bs_unblock io i f)) (bl_store bl)\<rparr>)
      else (False, bl))"

definition apply_signed_signal :: "crypto \<Rightarrow> bool \<Rightarrow> nat \<Rightarrow> abuse_signal \<Rightarrow> bool \<Rightarrow> blocklist \<Rightarrow> bool \<times> blocklist" where
  "apply_signed_signal C io now sg honor bl =
     (if \<not> honor \<or> \<not> verify_abuse_signal C sg then (False, bl)
      else let bl = block io now (subject_id sg) NodeIdKind
                      (''abuse signal: '' @ reason sg @ '' (from '' @ reporter_id sg @ '')'') ''gossip'' bl;
               bl = (case subject_wallet sg of
                       None \<Rightarrow> bl | Some w \<Rightarrow> block io now w WalletKind (reason sg) ''gossip'' bl)
           in (True, bl))"

section \<open>Free-job rate limiter\<close>

record rate_limiter =
  max_per_window :: nat
  window_secs :: nat
  rl_capacity :: nat
  hits :: "(string, nat list) hmap"
  hit_order :: "string list"

definition rate_new :: "nat \<Rightarrow> nat \<Rightarrow> nat \<Rightarrow> rate_limiter" where
  "rate_new m w c = \<lparr>max_per_window = m, window_secs = max w 1, rl_capacity = max c 1, hits = [], hit_order = []\<rparr>"

definition admit_id :: "string \<Rightarrow> rate_limiter \<Rightarrow> rate_limiter" where
  "admit_id i rl =
     (if hcontains (hits rl) i then rl
      else let (ord, hs) = evict (rl_capacity rl) (hit_order rl) (hits rl)
           in rl\<lparr>hits := hput i [] hs, hit_order := ord @ [i]\<rparr>)"

definition check_and_record :: "string \<Rightarrow> nat \<Rightarrow> rate_limiter \<Rightarrow> bool \<times> rate_limiter" where
  "check_and_record i now rl =
     (let rl = admit_id i rl;
          q = (case hget (hits rl) i of None \<Rightarrow> [] | Some q \<Rightarrow> q);
          q = dropWhile (\<lambda>t. window_secs rl \<le> now - t) q
      in if max_per_window rl \<le> length q then (False, rl\<lparr>hits := hput i q (hits rl)\<rparr>)
         else (True, rl\<lparr>hits := hput i (q @ [now]) (hits rl)\<rparr>))"

section \<open>The limiter counts the trailing window\<close>

text \<open>A run of the limiter over requests \<open>(id, time)\<close>, and the rule it implements.\<close>

fun limiter_run :: "rate_limiter \<Rightarrow> (string \<times> nat) list \<Rightarrow> bool list" where
  "limiter_run rl [] = []"
| "limiter_run rl ((i, t) # es) = (let (ok, rl) = check_and_record i t rl in ok # limiter_run rl es)"

fun window_rule :: "nat \<Rightarrow> nat \<Rightarrow> (string \<times> nat) list \<Rightarrow> (string \<times> nat) list \<Rightarrow> bool list" where
  "window_rule m w admitted [] = []"
| "window_rule m w admitted ((i, t) # es) =
     (let ok = (length (filter (\<lambda>(j, s). j = i \<and> t - s < w) admitted) < m)
      in ok # window_rule m w (if ok then admitted @ [(i, t)] else admitted) es)"

definition times_of :: "string \<Rightarrow> (string \<times> nat) list \<Rightarrow> nat list" where
  "times_of i xs = map snd (filter (\<lambda>x. fst x = i) xs)"

definition queue_of :: "rate_limiter \<Rightarrow> string \<Rightarrow> nat list" where
  "queue_of rl i = (case hget (hits rl) i of None \<Rightarrow> [] | Some q \<Rightarrow> q)"

text \<open>The queue of an identity is what the window may still need of its admitted requests.\<close>

definition limiter_ok :: "nat \<Rightarrow> (string \<times> nat) list \<Rightarrow> nat \<Rightarrow> rate_limiter \<Rightarrow> bool" where
  "limiter_ok w admitted now rl \<longleftrightarrow> window_secs rl = w \<and> distinct (hit_order rl) \<and>
     set (hit_order rl) = set (hkeys (hits rl)) \<and>
     sorted (map snd admitted) \<and> (\<forall>x\<in>set admitted. snd x \<le> now) \<and>
     (\<forall>i. \<exists>k. queue_of rl i = drop k (times_of i admitted) \<and> (\<forall>s\<in>set (take k (times_of i admitted)). w \<le> now - s))"

lemma sorted_times_of: "sorted (map snd xs) \<Longrightarrow> sorted (times_of i xs)"
  unfolding times_of_def by (rule sorted_filter)

lemma dropWhile_sorted:
  fixes now w :: nat
  shows "sorted q \<Longrightarrow> dropWhile (\<lambda>s. w \<le> now - s) q = filter (\<lambda>s. now - s < w) q"
proof (induction q)
  case (Cons s q)
  show ?case
  proof (cases "w \<le> now - s")
    case True
    with Cons show ?thesis by simp
  next
    case False
    with Cons.prems have "\<forall>x\<in>set q. now - x < w" by auto
    with False show ?thesis by (simp add: not_le)
  qed
qed simp

lemma window_queue:
  assumes "limiter_ok w admitted now rl" "now \<le> t"
  shows "dropWhile (\<lambda>s. w \<le> t - s) (queue_of rl i) = filter (\<lambda>s. t - s < w) (times_of i admitted)"
proof -
  obtain k where k: "queue_of rl i = drop k (times_of i admitted)" "\<forall>s\<in>set (take k (times_of i admitted)). w \<le> now - s"
    and so: "sorted (times_of i admitted)"
    using assms(1) sorted_times_of unfolding limiter_ok_def by blast
  have "filter (\<lambda>s. t - s < w) (take k (times_of i admitted)) = []"
    using k(2) assms(2) by (fastforce simp: filter_empty_conv)
  then have "filter (\<lambda>s. t - s < w) (times_of i admitted) = filter (\<lambda>s. t - s < w) (drop k (times_of i admitted))"
    by (metis append_Nil append_take_drop_id filter_append)
  then show ?thesis using so by (simp add: k(1) dropWhile_sorted sorted_wrt_drop)
qed

lemma length_window: "length (filter (\<lambda>(j, s). j = i \<and> t - s < w) xs) = length (filter (\<lambda>s. t - s < w) (times_of i xs))"
  by (induction xs) (auto simp: times_of_def)

lemma admit_id_cases:
  assumes "limiter_ok w admitted now rl" "i \<in> set (hit_order rl) \<or> length (hit_order rl) < rl_capacity rl"
  shows "i \<in> set (hit_order rl) \<and> admit_id i rl = rl \<or>
    i \<notin> set (hit_order rl) \<and> hget (hits rl) i = None \<and>
    admit_id i rl = rl\<lparr>hits := hput i [] (hits rl), hit_order := hit_order rl @ [i]\<rparr>"
proof -
  have c: "hcontains (hits rl) i \<longleftrightarrow> i \<in> set (hit_order rl)" using assms(1) by (simp add: limiter_ok_def hcontains_def)
  have "evict (rl_capacity rl) (hit_order rl) (hits rl) = (hit_order rl, hits rl)" if "length (hit_order rl) < rl_capacity rl"
    using that by (cases "hit_order rl") simp_all
  then show ?thesis
    using assms(2) c hcontains_hget [of "hits rl" i] unfolding admit_id_def by (cases "hcontains (hits rl) i") auto
qed

lemma queue_of_admit:
  assumes "limiter_ok w admitted now rl" "i \<in> set (hit_order rl) \<or> length (hit_order rl) < rl_capacity rl"
  defines "rl' \<equiv> admit_id i rl"
  shows "queue_of rl' j = queue_of rl j" "distinct (hit_order rl')" "set (hit_order rl') = insert i (set (hit_order rl))"
    "set (hkeys (hits rl')) = insert i (set (hit_order rl))" "window_secs rl' = window_secs rl"
    "max_per_window rl' = max_per_window rl" "rl_capacity rl' = rl_capacity rl"
proof -
  have d: "distinct (hit_order rl)" "set (hkeys (hits rl)) = set (hit_order rl)" using assms(1) by (simp_all add: limiter_ok_def)
  have k: "set (hkeys (hput i [] (hits rl))) = insert i (set (hit_order rl))" unfolding d(2) [symmetric] by (simp add: dom_update)
  consider "i \<in> set (hit_order rl)" "rl' = rl"
    | "i \<notin> set (hit_order rl)" "hget (hits rl) i = None" "rl' = rl\<lparr>hits := hput i [] (hits rl), hit_order := hit_order rl @ [i]\<rparr>"
    using admit_id_cases [OF assms(1,2)] unfolding rl'_def by (elim disjE conjE) simp_all
  then have "queue_of rl' j = queue_of rl j \<and> distinct (hit_order rl') \<and> set (hit_order rl') = insert i (set (hit_order rl)) \<and>
    set (hkeys (hits rl')) = insert i (set (hit_order rl)) \<and> window_secs rl' = window_secs rl \<and>
    max_per_window rl' = max_per_window rl \<and> rl_capacity rl' = rl_capacity rl"
  proof cases
    case 1
    then show ?thesis using d by (simp add: insert_absorb del: set_map)
  next
    case 2
    then have "queue_of rl' j = queue_of rl j" by (simp add: queue_of_def update_conv')
    with 2 d(1) k show ?thesis by (simp del: set_map)
  qed
  then show "queue_of rl' j = queue_of rl j" "distinct (hit_order rl')" "set (hit_order rl') = insert i (set (hit_order rl))"
    "set (hkeys (hits rl')) = insert i (set (hit_order rl))" "window_secs rl' = window_secs rl"
    "max_per_window rl' = max_per_window rl" "rl_capacity rl' = rl_capacity rl"
    by blast+
qed

lemma queue_witness:
  fixes A :: "nat list" and t w :: nat
  assumes "sorted A"
  shows "\<exists>k\<le>length A. filter (\<lambda>s. t - s < w) A = drop k A \<and> (\<forall>s\<in>set (take k A). w \<le> t - s)"
proof -
  define P where "P = (\<lambda>s. w \<le> t - s)"
  define k where "k = length (takeWhile P A)"
  have "dropWhile P A = drop k A" "takeWhile P A = take k A"
    unfolding k_def by (rule dropWhile_eq_drop, rule takeWhile_eq_take)
  then have "filter (\<lambda>s. t - s < w) A = drop k A" "\<forall>s\<in>set (take k A). P s"
    using dropWhile_sorted [OF assms, of w t] set_takeWhileD [of _ P A] by (simp_all add: P_def)
  moreover have "k \<le> length A" unfolding k_def by (rule length_takeWhile_le)
  ultimately show ?thesis unfolding P_def by blast
qed

lemma times_of_snoc: "times_of j (xs @ [(i, t)]) = times_of j xs @ (if j = i then [t] else [])"
  by (simp add: times_of_def)

lemma limiter_step:
  fixes i :: string and t :: nat
  assumes ok: "limiter_ok w admitted now rl" and t: "now \<le> t"
    and room: "i \<in> set (hit_order rl) \<or> length (hit_order rl) < rl_capacity rl"
  defines "r \<equiv> check_and_record i t rl"
  shows "fst r \<longleftrightarrow> length (filter (\<lambda>(j, s). j = i \<and> t - s < w) admitted) < max_per_window rl"
    "limiter_ok w (if fst r then admitted @ [(i, t)] else admitted) t (snd r)"
    "max_per_window (snd r) = max_per_window rl" "rl_capacity (snd r) = rl_capacity rl"
    "set (hit_order (snd r)) = insert i (set (hit_order rl))"
proof -
  let ?rl = "admit_id i rl" and ?q = "filter (\<lambda>s. t - s < w) (times_of i admitted)"
  note A = queue_of_admit [OF ok room]
  have w: "window_secs ?rl = w" using ok A(5) by (simp add: limiter_ok_def)
  have q: "dropWhile (\<lambda>s. window_secs ?rl \<le> t - s) (queue_of ?rl i) = ?q"
    unfolding A(1) w by (rule window_queue [OF ok t])
  have r: "r = (if max_per_window ?rl \<le> length ?q then (False, ?rl\<lparr>hits := hput i ?q (hits ?rl)\<rparr>)
      else (True, ?rl\<lparr>hits := hput i (?q @ [t]) (hits ?rl)\<rparr>))"
    unfolding r_def check_and_record_def Let_def queue_of_def [symmetric] q by (rule refl)
  show f: "fst r \<longleftrightarrow> length (filter (\<lambda>(j, s). j = i \<and> t - s < w) admitted) < max_per_window rl"
    unfolding length_window by (simp add: r A(6) not_le)
  show "max_per_window (snd r) = max_per_window rl" "rl_capacity (snd r) = rl_capacity rl"
    "set (hit_order (snd r)) = insert i (set (hit_order rl))" by (simp_all add: r A(3,6,7))
  let ?adm = "if fst r then admitted @ [(i, t)] else admitted"
  have k: "set (hkeys (hits (snd r))) = set (hit_order (snd r))" "distinct (hit_order (snd r))" "window_secs (snd r) = w"
    using A(2,3,4) w by (simp_all add: r dom_update insert_absorb del: set_map) (simp_all add: dom_update)
  have so: "sorted (map snd admitted)" "\<forall>x\<in>set admitted. snd x \<le> t" using ok t by (auto simp: limiter_ok_def)
  have qs: "\<exists>k. queue_of (snd r) j = drop k (times_of j ?adm) \<and> (\<forall>s\<in>set (take k (times_of j ?adm)). w \<le> t - s)" for j
  proof (cases "j = i")
    case True
    obtain k where "k \<le> length (times_of i admitted)" "?q = drop k (times_of i admitted)"
      "\<forall>s\<in>set (take k (times_of i admitted)). w \<le> t - s"
      using queue_witness [OF sorted_times_of [OF so(1)], of i t w] by blast
    then show ?thesis by (intro exI [of _ k]) (simp add: True r queue_of_def update_conv' times_of_snoc)
  next
    case False
    obtain k where k: "queue_of rl j = drop k (times_of j admitted)" "\<forall>s\<in>set (take k (times_of j admitted)). w \<le> now - s"
      using ok unfolding limiter_ok_def by blast
    have "queue_of (snd r) j = queue_of rl j" using False A(1) [of j] by (simp add: r queue_of_def update_conv')
    moreover have "\<forall>s\<in>set (take k (times_of j admitted)). w \<le> t - s" using k(2) t by fastforce
    ultimately show ?thesis using False k(1) by (intro exI [of _ k]) (simp add: times_of_snoc)
  qed
  have "sorted (map snd ?adm)" "\<forall>x\<in>set ?adm. snd x \<le> t" using so by (auto simp: sorted_append)
  with k(2,3) k(1) [symmetric] qs show "limiter_ok w ?adm t (snd r)" unfolding limiter_ok_def by (intro conjI allI)
qed

lemma admit_id_order:
  fixes i :: string
  assumes "ordered_ok (rl_capacity rl) (hit_order rl) (hits rl)"
  defines "rl' \<equiv> admit_id i rl"
  shows "ordered_ok (rl_capacity rl) (hit_order rl') (hits rl') \<and> hget (hits rl') i \<noteq> None \<and>
    (hit_order rl' = hit_order rl \<or> i \<notin> set (hit_order rl) \<and>
     hit_order rl' = drop (Suc (length (hit_order rl)) - rl_capacity rl) (hit_order rl) @ [i]) \<and>
    rl_capacity rl' = rl_capacity rl"
proof (cases "hcontains (hits rl) i")
  case True
  then have "rl' = rl" by (simp add: rl'_def admit_id_def)
  with assms(1) True show ?thesis by (simp add: hcontains_hget)
next
  case False
  then have i: "i \<notin> set (hkeys (hits rl))" by (simp add: hcontains_def)
  have e: "rl' = rl\<lparr>hits := hput i [] (snd (evict (rl_capacity rl) (hit_order rl) (hits rl))),
      hit_order := fst (evict (rl_capacity rl) (hit_order rl) (hits rl)) @ [i]\<rparr>"
    using False by (simp only: rl'_def admit_id_def if_False Let_def case_prod_beta)
  have "i \<notin> set (hit_order rl)" using i assms(1) by (simp add: ordered_ok_def)
  with ordered_ok_admit(1) [OF assms(1) i] ordered_ok_admit(2) [OF assms(1) i, of "[]"] show ?thesis by (simp add: e update_conv')
qed

lemma check_and_record_order:
  fixes i :: string and t :: nat
  assumes "ordered_ok (rl_capacity rl) (hit_order rl) (hits rl)"
  defines "rl' \<equiv> snd (check_and_record i t rl)"
  shows "ordered_ok (rl_capacity rl) (hit_order rl') (hits rl') \<and> rl_capacity rl' = rl_capacity rl \<and>
    (hit_order rl' = hit_order rl \<or> i \<notin> set (hit_order rl) \<and>
     hit_order rl' = drop (Suc (length (hit_order rl)) - rl_capacity rl) (hit_order rl) @ [i])"
proof -
  note A = admit_id_order [OF assms(1), of i]
  have "\<exists>q. rl' = (admit_id i rl)\<lparr>hits := hput i q (hits (admit_id i rl))\<rparr>"
    unfolding rl'_def check_and_record_def Let_def by (simp only: if_distrib [of snd] snd_conv) metis
  then obtain q where "rl' = (admit_id i rl)\<lparr>hits := hput i q (hits (admit_id i rl))\<rparr>" by blast
  moreover have "ordered_ok (rl_capacity rl) (hit_order (admit_id i rl)) (hput i q (hits (admit_id i rl)))"
    using A by (intro ordered_ok_update) simp_all
  ultimately show ?thesis using A by simp
qed

interpretation requester_cache: fifo_cache "Suc n" hit_order fst "\<lambda>x rl. snd (check_and_record (fst x) (snd x) rl)"
  "\<lambda>rl. rl_capacity rl = Suc n \<and> ordered_ok (rl_capacity rl) (hit_order rl) (hits rl)" for n
proof
  fix rl :: rate_limiter and x :: "string \<times> nat"
  assume inv: "rl_capacity rl = Suc n \<and> ordered_ok (rl_capacity rl) (hit_order rl) (hits rl)"
  note c = check_and_record_order [OF inv [THEN conjunct2], of "fst x" "snd x"]
  from c inv show "rl_capacity (snd (check_and_record (fst x) (snd x) rl)) = Suc n \<and>
      ordered_ok (rl_capacity (snd (check_and_record (fst x) (snd x) rl))) (hit_order (snd (check_and_record (fst x) (snd x) rl)))
        (hits (snd (check_and_record (fst x) (snd x) rl)))" by simp
  from c inv show "hit_order (snd (check_and_record (fst x) (snd x) rl)) = hit_order rl \<or>
      fst x \<notin> set (hit_order rl) \<and> hit_order (snd (check_and_record (fst x) (snd x) rl)) =
        drop (Suc (length (hit_order rl)) - Suc n) (hit_order rl) @ [fst x]" by simp
qed simp

lemma limiter_run_exact:
  assumes "limiter_ok w admitted now rl" "sorted (now # map snd es)"
    "card (set (hit_order rl) \<union> set (map fst es)) \<le> rl_capacity rl"
  shows "limiter_run rl es = window_rule (max_per_window rl) w admitted es"
  using assms
proof (induction es arbitrary: admitted now rl)
  case Nil
  then show ?case by simp
next
  case (Cons e es)
  obtain i t where e: "e = (i, t)" by (cases e)
  have t: "now \<le> t" "sorted (t # map snd es)" using Cons.prems(2) by (simp_all add: e)
  have "i \<in> set (hit_order rl) \<or> length (hit_order rl) < rl_capacity rl"
  proof (rule disjCI)
    assume i: "\<not> length (hit_order rl) < rl_capacity rl"
    have "card (set (hit_order rl)) = length (hit_order rl)"
      using Cons.prems(1) unfolding limiter_ok_def by (intro distinct_card) blast
    then have "card (set (hit_order rl) \<union> set (map fst (e # es))) \<le> card (set (hit_order rl))" using i Cons.prems(3) by linarith
    then have "set (hit_order rl) = set (hit_order rl) \<union> set (map fst (e # es))"
      by (intro card_seteq) auto
    then show "i \<in> set (hit_order rl)" by (auto simp: e)
  qed
  note L = limiter_step [OF Cons.prems(1) t(1) this]
  let ?r = "check_and_record i t rl"
  have "card (set (hit_order (snd ?r)) \<union> set (map fst es)) \<le> rl_capacity (snd ?r)"
    using Cons.prems(3) by (simp add: L(4,5) e)
  from Cons.IH [OF L(2) t(2) this] show ?case
    using L(1) by (simp add: e Let_def case_prod_beta L(3))
qed

text \<open>A deny-list file that can be read and written holds what the list in memory holds.\<close>

definition written_through :: "blocklist \<Rightarrow> bool" where
  "written_through bl \<longleftrightarrow> (\<forall>f. bl_store bl = Some f \<longrightarrow>
     (\<exists>es. bs_read f = Inr es \<and> be_id ` set es = set (bl_ids bl) \<and> (\<forall>i\<in>set (bl_ids bl). trim i = i)))"

lemma trim_end_idle: "xs = [] \<or> \<not> P (last xs) \<Longrightarrow> trim_end_matches P xs = xs"
  by (cases xs rule: rev_cases) (simp_all add: trim_end_matches_def)

lemma trim_end_last: "trim_end_matches P xs = [] \<or> \<not> P (last (trim_end_matches P xs))"
proof (cases "dropWhile P (rev xs)")
  case (Cons y ys)
  then have "\<not> P y" by (metis dropWhile_eq_Cons_conv)
  with Cons show ?thesis by (simp add: trim_end_matches_def)
qed (simp add: trim_end_matches_def)

lemma trim_idem: "trim (trim s) = trim s"
proof -
  let ?e = "trim_end_matches is_space s"
  have "trim s = [] \<or> last (trim s) = last ?e"
    unfolding trim_def trim_start_def by (metis last_appendR takeWhile_dropWhile_id)
  then have "trim s = [] \<or> \<not> is_space (last (trim s))"
    using trim_end_last [of is_space s] by (auto simp: trim_def trim_start_def)
  then have "trim_end_matches is_space (trim s) = trim s" by (rule trim_end_idle)
  then show ?thesis unfolding trim_def [of "trim s"] by (simp add: trim_def trim_start_def dropWhile_idem)
qed

lemma bs_read_ids:
  assumes "bs_read f = Inr es"
  shows "be_id ` {x \<in> set es. be_id x \<noteq> i \<and> be_id x \<noteq> []} = be_id ` set es - {i}"
proof -
  have "\<forall>e\<in>set es. be_id e \<noteq> []" using assms by (cases f) auto
  then show ?thesis by blast
qed

lemma block_written_through:
  assumes "written_through bl"
  shows "written_through (block True now i kind why source bl)"
proof -
  let ?i = "trim i"
  show ?thesis
  proof (cases "?i = [] \<or> ?i \<in> set (bl_ids bl)")
    case True
    with assms show ?thesis by (simp add: block_def)
  next
    case False
    show ?thesis
    proof (cases "bl_store bl")
      case None
      with False show ?thesis by (simp add: block_def written_through_def)
    next
      case (Some f)
      then obtain es where "bs_read f = Inr es" "be_id ` set es = set (bl_ids bl)" "\<forall>i\<in>set (bl_ids bl). trim i = i"
        using assms by (auto simp: written_through_def)
      with Some False bs_read_ids [of f es ?i] show ?thesis
        by (simp add: block_def written_through_def bs_block_def bs_write_def trim_idem Let_def)
    qed
  qed
qed

lemma unblock_written_through:
  assumes "written_through bl"
  shows "written_through (snd (unblock True i bl))"
proof (cases "i \<in> set (bl_ids bl)")
  case True
  show ?thesis
  proof (cases "bl_store bl")
    case None
    with True show ?thesis by (simp add: unblock_def written_through_def)
  next
    case (Some f)
    then obtain es where es: "bs_read f = Inr es" "be_id ` set es = set (bl_ids bl)" and t: "\<forall>i\<in>set (bl_ids bl). trim i = i"
      using assms by (auto simp: written_through_def)
    have "length (filter (\<lambda>e. be_id e \<noteq> i) es) \<noteq> length es"
      using es(2) True by (metis (mono_tags, lifting) filter_id_conv imageE length_filter_less nat_neq_iff)
    then show ?thesis
      using Some True es t bs_read_ids [OF es(1), of i] by (simp add: unblock_def written_through_def bs_unblock_def bs_write_def)
  qed
qed (use assms in \<open>simp add: unblock_def\<close>)

section \<open>Properties\<close>



end
