(* ===== verification/Attestation.thy ===== *)
theory Attestation
  imports Identity
begin

text \<open>
  Attestation tiers and evidence (\<open>proto/src/attestation.rs\<close>, \<open>trust/src/attestation.rs\<close>), the
  hard gate of \<open>trust/src/reputation.rs\<close>, and the sealing of data keys to an attested key
  (\<open>trust/src/sealing.rs\<close>). JSON, the key agreement and the ciphers are arguments; the random
  ephemeral key and nonces are passed in.
\<close>

section \<open>Tiers\<close>

datatype attestation_level = L0 | L1 | L2

fun level_code :: "attestation_level \<Rightarrow> nat" where
  "level_code L0 = 0"
| "level_code L1 = 1"
| "level_code L2 = 2"

instantiation attestation_level :: linorder
begin

definition less_eq_attestation_level :: "attestation_level \<Rightarrow> attestation_level \<Rightarrow> bool" where
  "less_eq_attestation_level a b \<longleftrightarrow> level_code a \<le> level_code b"

definition less_attestation_level :: "attestation_level \<Rightarrow> attestation_level \<Rightarrow> bool" where
  "less_attestation_level a b \<longleftrightarrow> level_code a < level_code b"

instance
proof
  fix x y z :: attestation_level
  have inj: "level_code x = level_code y \<Longrightarrow> x = y" by (cases x; cases y) simp_all
  show "x \<le> y \<Longrightarrow> y \<le> x \<Longrightarrow> x = y" by (rule inj) (simp add: less_eq_attestation_level_def)
  show "x < y \<longleftrightarrow> x \<le> y \<and> \<not> y \<le> x" "x \<le> x" "x \<le> y \<Longrightarrow> y \<le> z \<Longrightarrow> x \<le> z" "x \<le> y \<or> y \<le> x"
    by (auto simp: less_eq_attestation_level_def less_attestation_level_def)
qed

end

definition attestation_gate :: "attestation_level \<Rightarrow> attestation_level \<Rightarrow> bool" where
  "attestation_gate actual required \<longleftrightarrow> required \<le> actual"

record attestation =
  at_level :: attestation_level
  at_evidence :: bytes
  at_measurement :: "string option"

definition stub_l0 :: attestation where
  "stub_l0 = \<lparr>at_level = L0, at_evidence = [], at_measurement = None\<rparr>"

section \<open>Evidence\<close>

datatype attest_error = LevelTooLow attestation_level attestation_level | MeasurementNotAllowed
  | NonceMismatch | BoundKeyMismatch | UntrustedAuthority | BadEvidence

record mock_evidence =
  ev_measurement :: string
  ev_nonce_hex :: string
  ev_bound_pub_hex :: string
  ev_authority_pub_hex :: string
  ev_sig_hex :: string

record evidence_json =
  ev_to_vec :: "mock_evidence \<Rightarrow> bytes"
  ev_from_slice :: "bytes \<Rightarrow> mock_evidence option"

definition evidence_signing_bytes :: "attestation_level \<Rightarrow> string \<Rightarrow> bytes \<Rightarrow> bytes \<Rightarrow> bytes" where
  "evidence_signing_bytes lv measurement nonce bound_pub =
     as_bytes ''duckdb-p2p-attestation-v2'' @ [of_nat (level_code lv)] @ field (as_bytes measurement) @
     field nonce @ bound_pub"

record mock_attestor =
  ma_authority :: signer
  ma_measurement :: string
  ma_level :: attestation_level

definition produce :: "crypto \<Rightarrow> evidence_json \<Rightarrow> mock_attestor \<Rightarrow> bytes \<Rightarrow> bytes \<Rightarrow> attestation" where
  "produce C J a nonce bound_pub =
     (let sg = sign_bytes (ma_authority a) (evidence_signing_bytes (ma_level a) (ma_measurement a) nonce bound_pub);
          ev = \<lparr>ev_measurement = ma_measurement a, ev_nonce_hex = hex_enc C nonce,
            ev_bound_pub_hex = hex_enc C bound_pub, ev_authority_pub_hex = hex_enc C (public_key (ma_authority a)),
            ev_sig_hex = hex_enc C sg\<rparr>
      in \<lparr>at_level = ma_level a, at_evidence = ev_to_vec J ev, at_measurement = Some (ma_measurement a)\<rparr>)"

record allowlist_verifier =
  trusted_authority :: bytes
  allowed_measurements :: "string list"
  required_level :: attestation_level

definition decode32 :: "crypto \<Rightarrow> string \<Rightarrow> bytes option" where
  "decode32 C s = (case hex_dec C s of None \<Rightarrow> None | Some b \<Rightarrow> if length b = 32 then Some b else None)"

definition attest_verify ::
  "crypto \<Rightarrow> evidence_json \<Rightarrow> allowlist_verifier \<Rightarrow> attestation \<Rightarrow> bytes \<Rightarrow> bytes \<Rightarrow> attest_error + unit" where
  "attest_verify C J v att nonce bound_pub =
     (if at_level att < required_level v then Inl (LevelTooLow (at_level att) (required_level v))
      else case ev_from_slice J (at_evidence att) of
        None \<Rightarrow> Inl BadEvidence
      | Some ev \<Rightarrow>
          if ev_measurement ev \<notin> set (allowed_measurements v) then Inl MeasurementNotAllowed
          else if ev_nonce_hex ev \<noteq> hex_enc C nonce then Inl NonceMismatch
          else if ev_bound_pub_hex ev \<noteq> hex_enc C bound_pub then Inl BoundKeyMismatch
          else (case decode32 C (ev_authority_pub_hex ev) of
            None \<Rightarrow> Inl BadEvidence
          | Some pk \<Rightarrow>
              if pk \<noteq> trusted_authority v then Inl UntrustedAuthority
              else if \<not> ed_pk_valid C pk then Inl BadEvidence
              else (case hex_dec C (ev_sig_hex ev) of
                None \<Rightarrow> Inl BadEvidence
              | Some s \<Rightarrow>
                  if length s \<noteq> 64 then Inl BadEvidence
                  else if \<not> ed_verify_strict C pk
                      (evidence_signing_bytes (at_level att) (ev_measurement ev) nonce bound_pub) s
                    then Inl BadEvidence
                    else Inr ())))"

section \<open>Sealing\<close>

text \<open>
  X25519 and the two AEAD ciphers. \<open>x_pub\<close> gives the public half of a secret and \<open>x_dh\<close> the shared
  secret; decryption fails by returning \<open>None\<close>.
\<close>

record sealing_crypto =
  x_pub :: "bytes \<Rightarrow> bytes"
  x_dh :: "bytes \<Rightarrow> bytes \<Rightarrow> bytes"
  chacha_encrypt :: "bytes \<Rightarrow> bytes \<Rightarrow> bytes \<Rightarrow> bytes"
  chacha_decrypt :: "bytes \<Rightarrow> bytes \<Rightarrow> bytes \<Rightarrow> bytes option"
  xchacha_encrypt :: "bytes \<Rightarrow> bytes \<Rightarrow> bytes \<Rightarrow> bytes"
  xchacha_decrypt :: "bytes \<Rightarrow> bytes \<Rightarrow> bytes \<Rightarrow> bytes option"

record sealed_blob =
  ephemeral_pub :: bytes
  sb_nonce :: bytes
  sb_ciphertext :: bytes

definition derive_key :: "crypto \<Rightarrow> bytes \<Rightarrow> bytes \<Rightarrow> bytes \<Rightarrow> bytes" where
  "derive_key C shared eph recipient = blake3_hash C (as_bytes ''duckdb-p2p-seal-v1'' @ shared @ eph @ recipient)"

definition seal_to :: "crypto \<Rightarrow> sealing_crypto \<Rightarrow> bytes \<Rightarrow> bytes \<Rightarrow> bytes \<Rightarrow> bytes \<Rightarrow> sealed_blob" where
  "seal_to C X ephemeral nonce recipient_pub plaintext =
     (let eph = x_pub X ephemeral; key = derive_key C (x_dh X ephemeral recipient_pub) eph recipient_pub
      in \<lparr>ephemeral_pub = eph, sb_nonce = nonce, sb_ciphertext = chacha_encrypt X key nonce plaintext\<rparr>)"

definition open_sealed :: "crypto \<Rightarrow> sealing_crypto \<Rightarrow> bytes \<Rightarrow> sealed_blob \<Rightarrow> bytes option" where
  "open_sealed C X secret blob =
     (let key = derive_key C (x_dh X secret (ephemeral_pub blob)) (ephemeral_pub blob) (x_pub X secret)
      in chacha_decrypt X key (sb_nonce blob) (sb_ciphertext blob))"

definition encrypt_at_rest :: "sealing_crypto \<Rightarrow> bytes \<Rightarrow> bytes \<Rightarrow> bytes \<Rightarrow> bytes" where
  "encrypt_at_rest X nonce key plaintext = nonce @ xchacha_encrypt X key nonce plaintext"

definition decrypt_at_rest :: "sealing_crypto \<Rightarrow> bytes \<Rightarrow> bytes \<Rightarrow> bytes option" where
  "decrypt_at_rest X key blob =
     (if length blob < 24 then None else xchacha_decrypt X key (take 24 blob) (drop 24 blob))"

section \<open>Verification\<close>

lemma attest_verify_iff:
  "attest_verify C J v att nonce bound = Inr () \<longleftrightarrow>
     required_level v \<le> at_level att \<and>
     (\<exists>ev pk s. ev_from_slice J (at_evidence att) = Some ev \<and> ev_measurement ev \<in> set (allowed_measurements v) \<and>
        ev_nonce_hex ev = hex_enc C nonce \<and> ev_bound_pub_hex ev = hex_enc C bound \<and>
        hex_dec C (ev_authority_pub_hex ev) = Some pk \<and> length pk = 32 \<and> pk = trusted_authority v \<and> ed_pk_valid C pk \<and>
        hex_dec C (ev_sig_hex ev) = Some s \<and> length s = 64 \<and>
        ed_verify_strict C pk (evidence_signing_bytes (at_level att) (ev_measurement ev) nonce bound) s)"
  by (auto simp: attest_verify_def decode32_def not_less split: option.splits if_splits)

lemma level_byte_inject: "(of_nat (level_code a) :: u8) = of_nat (level_code b) \<longleftrightarrow> a = b"
  by (cases a; cases b) simp_all

lemma evidence_signing_bytes_inject:
  assumes "fits m" "fits m'" "fits n" "fits n'" "length b = 32" "length b' = 32"
  shows "evidence_signing_bytes lv m n b = evidence_signing_bytes lv' m' n' b' \<longleftrightarrow> lv = lv' \<and> m = m' \<and> n = n' \<and> b = b'"
  using assms by (auto simp: evidence_signing_bytes_def level_byte_inject peel_simps fits_def)

lemma produced_verifies:
  assumes "hex_ok C" "signer_ok C (ma_authority a)" "\<forall>ev. ev_from_slice J (ev_to_vec J ev) = Some ev"
    "trusted_authority v = public_key (ma_authority a)" "ma_measurement a \<in> set (allowed_measurements v)"
    "required_level v \<le> ma_level a"
  shows "attest_verify C J v (produce C J a nonce bound) nonce bound = Inr ()"
  using assms by (auto simp: attest_verify_iff produce_def Let_def hex_ok_def signer_ok_def)

text \<open>What the ciphers and the key agreement promise.\<close>

definition sealing_ok :: "sealing_crypto \<Rightarrow> bool" where
  "sealing_ok X \<longleftrightarrow> (\<forall>a b. x_dh X a (x_pub X b) = x_dh X b (x_pub X a)) \<and>
     (\<forall>k n m. chacha_decrypt X k n (chacha_encrypt X k n m) = Some m) \<and>
     (\<forall>k n m. xchacha_decrypt X k n (xchacha_encrypt X k n m) = Some m)"

lemma sealed_opens:
  assumes "sealing_ok X"
  shows "open_sealed C X secret (seal_to C X eph nonce (x_pub X secret) m) = Some m"
proof -
  have "x_dh X secret (x_pub X eph) = x_dh X eph (x_pub X secret)" using assms unfolding sealing_ok_def by blast
  with assms show ?thesis by (simp add: sealing_ok_def open_sealed_def seal_to_def Let_def)
qed

lemma at_rest_roundtrip:
  "sealing_ok X \<Longrightarrow> length nonce = 24 \<Longrightarrow> decrypt_at_rest X key (encrypt_at_rest X nonce key m) = Some m"
  by (simp add: sealing_ok_def decrypt_at_rest_def encrypt_at_rest_def)

lemma length_of_bytes: "length (of_bytes b) = length b"
  by (simp add: of_bytes_def)

definition toy_json :: evidence_json where
  "toy_json = \<lparr>ev_to_vec = (\<lambda>ev. field (as_bytes (ev_measurement ev)) @ field (as_bytes (ev_nonce_hex ev))),
     ev_from_slice = (\<lambda>b. if b = [1] then Some \<lparr>ev_measurement = ''enclave'', ev_nonce_hex = of_bytes [7],
        ev_bound_pub_hex = of_bytes (replicate 32 5), ev_authority_pub_hex = of_bytes (replicate 32 9),
        ev_sig_hex = of_bytes (replicate 64 0)\<rparr> else None)\<rparr>"

definition toy_verifier :: allowlist_verifier where
  "toy_verifier = \<lparr>trusted_authority = replicate 32 9, allowed_measurements = [''enclave''], required_level = L1\<rparr>"

section \<open>Properties\<close>

text \<open>
  attestation evidence cannot be inflated or replayed. If the verifier accepts an attestation,
  then the trusted authority signed exactly that level, for an allowed measurement, for the very
  nonce and key it was checked against; and the level is at least the required one.
\<close>

theorem attestation_authentic:
  assumes "attest_verify C J v att nonce bound = Inr ()"
    and "\<And>ev. ev_from_slice J (at_evidence att) = Some ev \<Longrightarrow>
      only_signed C (trusted_authority v) (ev_sig_hex ev) ((\<lambda>(lv, m, n, b). evidence_signing_bytes lv m n b) ` issued)"
    and "\<forall>(lv, m, n, b)\<in>issued. fits m \<and> fits n \<and> length b = 32"
    and "\<forall>m\<in>set (allowed_measurements v). fits m" "fits nonce" "length bound = 32"
  shows "required_level v \<le> at_level att \<and>
    (\<exists>m\<in>set (allowed_measurements v). (at_level att, m, nonce, bound) \<in> issued)"
proof -
  from assms(1) obtain ev s where ev: "ev_from_slice J (at_evidence att) = Some ev" "hex_dec C (ev_sig_hex ev) = Some s"
    and m: "ev_measurement ev \<in> set (allowed_measurements v)" and lv: "required_level v \<le> at_level att"
    and sg: "ed_verify_strict C (trusted_authority v) (evidence_signing_bytes (at_level att) (ev_measurement ev) nonce bound) s"
    unfolding attest_verify_iff by blast
  have "evidence_signing_bytes (at_level att) (ev_measurement ev) nonce bound \<in>
      (\<lambda>(lv, m, n, b). evidence_signing_bytes lv m n b) ` issued"
    using assms(2) [OF ev(1)] ev(2) sg unfolding only_signed_def by blast
  then obtain l m' n b where i: "(l, m', n, b) \<in> issued"
    "evidence_signing_bytes (at_level att) (ev_measurement ev) nonce bound = evidence_signing_bytes l m' n b" by auto
  moreover have "fits m'" "fits n" "length b = 32" using assms(3) i(1) by auto
  ultimately have "(at_level att, ev_measurement ev, nonce, bound) \<in> issued"
    using evidence_signing_bytes_inject [of "ev_measurement ev" m' nonce n bound b] assms(4-6) m by auto
  with m lv show ?thesis by blast
qed

theorem attestation_authentic_witness:
  "\<exists>C. attest_verify C toy_json toy_verifier \<lparr>at_level = L2, at_evidence = [1], at_measurement = None\<rparr> [7] (replicate 32 5) = Inr () \<and>
     (\<exists>m\<in>{''enclave''}. (L2, m, [7], replicate 32 5) \<in> {(L2, ''enclave'', [7], replicate 32 5)})"
proof -
  let ?m = "evidence_signing_bytes L2 ''enclave'' [7] (replicate 32 5)"
  let ?C = "toy_crypto (\<lambda>m. m = ?m)" and ?a = "\<lparr>at_level = L2, at_evidence = [1], at_measurement = None\<rparr>"
  let ?I = "{(L2, ''enclave'', [7], replicate 32 5)} :: (attestation_level \<times> string \<times> bytes \<times> bytes) set"
  have v: "attest_verify ?C toy_json toy_verifier ?a [7] (replicate 32 5) = Inr ()"
    by (simp add: attest_verify_iff) (simp add: toy_json_def toy_verifier_def toy_crypto_def less_eq_attestation_level_def length_of_bytes)
  have "only_signed ?C (trusted_authority toy_verifier) (ev_sig_hex ev) ((\<lambda>(lv, m, n, b). evidence_signing_bytes lv m n b) ` ?I)" for ev
    by (simp add: only_signed_def) (simp add: toy_crypto_def)
  from attestation_authentic [OF v this] v show ?thesis
    by (intro exI [of _ ?C]) (simp add: toy_verifier_def fits_def)
qed

end
