(* ===== verification/Worker.thy ===== *)
theory Worker
  imports Canonical Guards Attestation Token Governor Payment
begin

text \<open>
  The worker service (\<open>node/src/worker.rs\<close>): from an offer to a bid, and from a dispatch to an
  execution. Offers, bids and dispatches are those of \<open>proto/src/messages.rs\<close>. The engine, the
  input reader, the JSON parser of group proofs, the attestor and the clocks are arguments; a job in
  flight is an entry of \<open>w_running\<close>, started by one event and finished by another, so offers,
  dispatches and completions interleave freely. The theorems: nothing is executed without an
  accepting bid to the same peer that passed every gate, and the leases of running jobs are exactly
  what admission has handed out.
\<close>

section \<open>Messages\<close>

record offer =
  of_job_id :: string
  of_requester_id :: string
  of_query_hash :: string
  of_cost_hint_rows :: "nat option"
  of_cost_hint_bytes :: "nat option"
  of_data_class :: job_class
  of_nonce :: u64
  of_network :: "string option"
  of_groups :: "string list"
  of_regions :: "string list"
  of_group_proof :: "string option"
  of_input_fingerprint_hint :: "string option"

datatype bid_decision = Accept | Reject string

record wire_bid = bid +
  wb_job_id :: string
  wb_worker_id :: string
  wb_decision :: bid_decision
  wb_eta_ms :: nat
  wb_attestation :: attestation
  wb_recent_receipts :: "receipt list"
  wb_free_mem_bytes :: nat
  wb_free_threads :: nat
  wb_region_proof :: "string option"
  wb_estimated_seconds :: nat

text \<open>The fields of a dispatch the worker acts on; credentials and signed inputs are passed on to the engine.\<close>

record dispatch =
  di_job_id :: string
  di_sql :: string
  di_memory_limit_bytes :: nat
  di_threads :: nat
  di_max_spill_bytes :: nat
  di_input_fingerprint :: "string option"
  di_cap_deadline_ms :: "nat option"

record result_commit = commit_key +
  rc_job_id :: string
  rc_worker_id :: string
  rc_row_count :: nat
  rc_latency_ms :: nat

datatype worker_msg = WireBid wire_bid | WireAck string bool string | WireCommit result_commit

section \<open>Configuration\<close>

datatype group_enforcement = SoftGroups | TokenGroups

datatype pricing_model = FixedPrice | Metered

record pricing =
  pr_model :: pricing_model
  pr_unit_price :: nat
  pr_rate_per_second :: nat
  pr_rate_per_gb :: nat
  pr_cap_multiplier :: nat

definition effective_rate_per_second :: "pricing \<Rightarrow> nat" where
  "effective_rate_per_second p =
     (if 0 < pr_rate_per_second p then pr_rate_per_second p
      else sat_mul u128_max (pr_unit_price p) TON_NANOTON)"

definition metered_active :: "pricing \<Rightarrow> bool" where
  "metered_active p \<longleftrightarrow> pr_model p = Metered \<and> 0 < effective_rate_per_second p"

datatype payment_pref = PrefFree | PrefPaid | PrefAuto

definition resolve_payment :: "bool \<Rightarrow> payment_pref \<Rightarrow> data_class \<Rightarrow> payment_mode" where
  "resolve_payment on pref class =
     (if \<not> on then Free
      else case pref of
        PrefFree \<Rightarrow> Free
      | PrefPaid \<Rightarrow> Paid
      | PrefAuto \<Rightarrow> (case class of Public \<Rightarrow> Free | Internal \<Rightarrow> Paid | Sensitive \<Rightarrow> Paid))"

record worker_params =
  wp_per_job_memory_bytes :: nat
  wp_per_job_threads :: nat
  wp_spill_tolerance_bytes :: nat
  wp_max_spill_bytes :: nat
  wp_job_timeout_ms :: nat
  wp_enabled :: bool
  wp_networks :: "string list"
  wp_groups :: "string list"
  wp_region :: "string option"
  wp_group_enforcement :: group_enforcement
  wp_group_issuers :: "(string, string) hmap"
  wp_region_token :: "string option"
  wp_pricing :: pricing
  wp_private :: bool
  wp_roster :: "string list"

record antiabuse_runtime =
  ab_enabled :: bool
  ab_cost_gate :: cost_gate_config
  ab_free_rate_limit_enabled :: bool
  ab_prioritize_paid :: bool
  ab_economics_enabled :: bool
  ab_default_payment :: payment_pref
  ab_blocklist :: "blocklist option"
  ab_rate_limiter :: "rate_limiter option"

definition cost_gate_active :: "antiabuse_runtime \<Rightarrow> bool" where
  "cost_gate_active rt \<longleftrightarrow> ab_enabled rt \<and> cg_enabled (ab_cost_gate rt)"

definition free_rate_limit_active :: "antiabuse_runtime \<Rightarrow> bool" where
  "free_rate_limit_active rt \<longleftrightarrow> ab_enabled rt \<and> ab_free_rate_limit_enabled rt"

section \<open>The worker\<close>

record dispatch_auth =
  da_requester :: string
  da_expires_at :: nat

definition DISPATCH_AUTH_TTL :: nat where "DISPATCH_AUTH_TTL = 300000"

record running_job =
  rj_dispatch :: dispatch
  rj_lease :: adm_lease
  rj_memory :: nat
  rj_threads :: nat
  rj_spill_cap :: nat
  rj_input_fingerprint :: string

record worker =
  w_local_id :: string
  w_params :: worker_params
  w_admission :: admission
  w_attestation :: attestation
  w_antiabuse :: "antiabuse_runtime option"
  w_serving_block :: "string option"
  w_authorized :: "(string, dispatch_auth) hmap"
  w_running :: "running_job list"

text \<open>What the worker calls: the proof parser, the attestor if one is wired, and the input reader.\<close>

datatype input_observation = Unpinned | Pinned string | Unavailable string

record worker_env =
  we_crypto :: crypto
  we_parse_token :: "string \<Rightarrow> capability_token option"
  we_attestor :: "(bytes \<Rightarrow> bytes \<Rightarrow> attestation) option"
  we_bound_pub :: bytes
  we_observe :: "string option \<Rightarrow> input_observation"

definition worker_new_with ::
  "string \<Rightarrow> admission \<Rightarrow> attestation \<Rightarrow> worker_params \<Rightarrow> antiabuse_runtime option \<Rightarrow> string option \<Rightarrow> worker" where
  "worker_new_with i adm att params rt blk = \<lparr>w_local_id = i, w_params = params, w_admission = adm,
     w_attestation = att, w_antiabuse = rt, w_serving_block = blk, w_authorized = [], w_running = []\<rparr>"

definition echo_observe :: "string option \<Rightarrow> input_observation" where
  "echo_observe snap = (case snap of Some fp \<Rightarrow> Pinned fp | None \<Rightarrow> Unpinned)"

definition effective_spill_cap :: "nat \<Rightarrow> nat \<Rightarrow> nat" where
  "effective_spill_cap dispatch_cap host_cap =
     (if dispatch_cap = 0 then host_cap else if host_cap = 0 then dispatch_cap else min dispatch_cap host_cap)"

section \<open>Bids\<close>

definition attestation_for :: "worker_env \<Rightarrow> worker \<Rightarrow> offer \<Rightarrow> attestation" where
  "attestation_for E w ofr =
     (case we_attestor E of Some a \<Rightarrow> a (le_bytes 8 (of_nonce ofr)) (we_bound_pub E) | None \<Rightarrow> w_attestation w)"

definition reject_bid :: "worker \<Rightarrow> offer \<Rightarrow> string \<Rightarrow> wire_bid" where
  "reject_bid w ofr why = \<lparr>bid_price = 0, bid_rate_per_second = 0, bid_rate_per_gb = 0, bid_cap_seconds = 0,
     wb_job_id = of_job_id ofr, wb_worker_id = w_local_id w, wb_decision = Reject why, wb_eta_ms = 0,
     wb_attestation = w_attestation w, wb_recent_receipts = [],
     wb_free_mem_bytes = fr_memory_bytes (free (w_admission w)), wb_free_threads = fr_threads (free (w_admission w)),
     wb_region_proof = None, wb_estimated_seconds = 0\<rparr>"

definition COLD_START_THROUGHPUT_BPS :: nat where "COLD_START_THROUGHPUT_BPS = 16 * 1024 * 1024"

definition metered_bid_terms :: "worker_params \<Rightarrow> offer \<Rightarrow> nat \<times> nat \<times> nat \<times> nat" where
  "metered_bid_terms params ofr =
     (let p = wp_pricing params in
      if \<not> metered_active p then (0, 0, 0, 0)
      else let rate = min (effective_rate_per_second p) u64_max;
               b = (case of_cost_hint_bytes ofr of
                      Some b \<Rightarrow> b
                    | None \<Rightarrow> (case of_cost_hint_rows ofr of Some r \<Rightarrow> sat_mul u64_max r 256 | None \<Rightarrow> 0));
               throughput = max COLD_START_THROUGHPUT_BPS 1;
               estimated = max ((b + throughput - 1) div throughput) 1;
               cap = max (sat_mul u64_max estimated (max (pr_cap_multiplier p) 1)) 1
           in (rate, pr_rate_per_gb p, estimated, cap))"

text \<open>The anti-abuse gates; only the rate limiter changes state. \<open>at_s\<close> is the Unix time in seconds.\<close>

definition rate_limited :: "nat \<Rightarrow> offer \<Rightarrow> antiabuse_runtime \<Rightarrow> bool \<times> antiabuse_runtime" where
  "rate_limited at_s ofr rt =
     (let is_free = (resolve_payment (ab_economics_enabled rt) (ab_default_payment rt) (class_cfg (of_data_class ofr)) = Free) in
      if free_rate_limit_active rt \<and> (is_free \<or> \<not> ab_prioritize_paid rt)
      then (case ab_rate_limiter rt of
              None \<Rightarrow> (False, rt)
            | Some rl \<Rightarrow> let (ok, rl) = check_and_record (of_requester_id ofr) at_s rl
                         in (\<not> ok, rt\<lparr>ab_rate_limiter := Some rl\<rparr>))
      else (False, rt))"

definition antiabuse_reject :: "nat \<Rightarrow> offer \<Rightarrow> worker \<Rightarrow> wire_bid option \<times> worker" where
  "antiabuse_reject at_s ofr w =
     (case w_antiabuse w of
        None \<Rightarrow> (None, w)
      | Some rt \<Rightarrow>
          if \<not> ab_enabled rt then (None, w)
          else if (case ab_blocklist rt of None \<Rightarrow> False | Some bl \<Rightarrow> is_blocked (of_requester_id ofr) bl)
          then (Some (reject_bid w ofr ''requester is blocklisted''), w)
          else (case (if cost_gate_active rt
                      then cost_gate_reason (ab_cost_gate rt) (of_cost_hint_rows ofr) None (wp_per_job_memory_bytes (w_params w))
                      else None) of
                  Some why \<Rightarrow> (Some (reject_bid w ofr why), w)
                | None \<Rightarrow>
                    let (refused, rt) = rate_limited at_s ofr rt; w = w\<lparr>w_antiabuse := Some rt\<rparr> in
                    (if refused then Some (reject_bid w ofr ''free-job rate limit exceeded'') else None, w)))"

definition decode_pubkey :: "crypto \<Rightarrow> string \<Rightarrow> bytes option" where
  "decode_pubkey C s = (case hex_dec C s of None \<Rightarrow> None | Some b \<Rightarrow> if length b = 32 then Some b else None)"

text \<open>The loop over the host's groups: any issuer that vouches for the requester will do.\<close>

definition token_proves_group :: "worker_env \<Rightarrow> nat \<Rightarrow> worker_params \<Rightarrow> offer \<Rightarrow> bool" where
  "token_proves_group E at_s p ofr =
     (case of_group_proof ofr of
        None \<Rightarrow> False
      | Some proof \<Rightarrow>
          (case we_parse_token E proof of
             None \<Rightarrow> False
           | Some token \<Rightarrow>
               list_ex (\<lambda>hg. case hget (wp_group_issuers p) hg of
                   None \<Rightarrow> False
                 | Some issuer_hex \<Rightarrow> (case decode_pubkey (we_crypto E) issuer_hex of
                     None \<Rightarrow> False
                   | Some issuer \<Rightarrow> (case verify_group_membership (we_crypto E) token issuer hg (of_nat at_s) of
                       Inl e \<Rightarrow> False
                     | Inr holder \<Rightarrow> from_pubkey (we_crypto E) holder = of_requester_id ofr)))
                 (wp_groups p)))"

definition membership_reject :: "worker_env \<Rightarrow> nat \<Rightarrow> offer \<Rightarrow> worker \<Rightarrow> wire_bid option" where
  "membership_reject E at_s ofr w =
     (let p = w_params w; rej = (\<lambda>why. Some (reject_bid w ofr why)) in
      if \<not> wp_enabled p then rej ''host is on standby (draining)''
      else if wp_private p \<and> wp_groups p = []
      then rej ''private mode: host declares no membership.groups (an ungrouped host must not serve in a closed grid)''
      else if wp_private p \<and> of_requester_id ofr \<notin> set (wp_roster p)
      then rej ''private mode: requester is not on the host roster (identity.allowlist)''
      else if (case of_network ofr of
                 None \<Rightarrow> False
               | Some net \<Rightarrow> \<not> (if wp_networks p = [] then net = ''default'' else net \<in> set (wp_networks p)))
      then rej ''host is not in the requested network''
      else if wp_groups p \<noteq> [] \<and>
         \<not> (case wp_group_enforcement p of
               SoftGroups \<Rightarrow> list_ex (\<lambda>g. g \<in> set (wp_groups p)) (of_groups ofr)
             | TokenGroups \<Rightarrow> token_proves_group E at_s p ofr)
      then rej ''requester shares none of the host's groups''
      else if of_regions ofr \<noteq> [] \<and>
         \<not> (case wp_region p of Some r \<Rightarrow> r \<in> set (of_regions ofr) | None \<Rightarrow> False)
      then rej ''host region not in the requested set''
      else None)"

definition make_bid :: "worker_env \<Rightarrow> nat \<Rightarrow> offer \<Rightarrow> worker \<Rightarrow> wire_bid \<times> worker" where
  "make_bid E at_s ofr w =
     (case w_serving_block w of
        Some why \<Rightarrow> (reject_bid w ofr why, w)
      | None \<Rightarrow> (case membership_reject E at_s ofr w of
          Some b \<Rightarrow> (b, w)
        | None \<Rightarrow> (case antiabuse_reject at_s ofr w of
            (Some b, w) \<Rightarrow> (b, w)
          | (None, w) \<Rightarrow>
              if \<not> serves_data_class (of_data_class ofr) (w_admission w)
              then (reject_bid w ofr ''data class not served'', w)
              else let fr = free (w_admission w);
                       admit = (0 < fr_free_jobs fr \<and> wp_per_job_memory_bytes (w_params w) \<le> fr_memory_bytes fr \<and>
                                wp_per_job_threads (w_params w) \<le> fr_threads fr);
                       (rate, per_gb, estimated, cap) = metered_bid_terms (w_params w) ofr
                   in (\<lparr>bid_price = 0, bid_rate_per_second = rate, bid_rate_per_gb = per_gb, bid_cap_seconds = cap,
                        wb_job_id = of_job_id ofr, wb_worker_id = w_local_id w,
                        wb_decision = (if admit then Accept else Reject ''at capacity''),
                        wb_eta_ms = 10 + (case of_cost_hint_rows ofr of Some r \<Rightarrow> r | None \<Rightarrow> 0) div 1000,
                        wb_attestation = attestation_for E w ofr, wb_recent_receipts = [],
                        wb_free_mem_bytes = fr_memory_bytes fr, wb_free_threads = fr_threads fr,
                        wb_region_proof = wp_region_token (w_params w), wb_estimated_seconds = estimated\<rparr>, w))))"

section \<open>Authorisation\<close>

text \<open>The ledger of accepted offers; \<open>t\<close> is the monotonic clock in milliseconds.\<close>

definition sweep_auth :: "nat \<Rightarrow> (string, dispatch_auth) hmap \<Rightarrow> (string, dispatch_auth) hmap" where
  "sweep_auth t m = filter (\<lambda>(j, a). t < da_expires_at a) m"

definition authorize_dispatch :: "nat \<Rightarrow> string \<Rightarrow> string \<Rightarrow> worker \<Rightarrow> worker" where
  "authorize_dispatch t j peer w =
     w\<lparr>w_authorized := hput j \<lparr>da_requester = peer, da_expires_at = t + DISPATCH_AUTH_TTL\<rparr> (sweep_auth t (w_authorized w))\<rparr>"

definition dispatch_authorized :: "nat \<Rightarrow> string \<Rightarrow> string \<Rightarrow> worker \<Rightarrow> bool \<times> worker" where
  "dispatch_authorized t j peer w =
     (let m = sweep_auth t (w_authorized w)
      in (case hget m j of None \<Rightarrow> False | Some a \<Rightarrow> da_requester a = peer, w\<lparr>w_authorized := m\<rparr>))"

definition make_bid_authenticated :: "worker_env \<Rightarrow> nat \<Rightarrow> nat \<Rightarrow> string \<Rightarrow> offer \<Rightarrow> worker \<Rightarrow> wire_bid \<times> worker" where
  "make_bid_authenticated E at_s t peer ofr w =
     (if of_requester_id ofr \<noteq> peer
      then (reject_bid w ofr ''offer requester_id does not match the authenticated mTLS peer'', w)
      else let (b, w) = make_bid E at_s ofr w
           in (b, if wb_decision b = Accept then authorize_dispatch t (of_job_id ofr) peer w else w))"

section \<open>Dispatches\<close>

text \<open>
  \<open>handle_dispatch\<close> up to the execution: a refusal is an acknowledgement, otherwise the job joins the
  running ones, with its lease, its engine limits and the fingerprint of the input it will read.
\<close>

definition dispatch_start ::
  "worker_env \<Rightarrow> nat \<Rightarrow> string \<Rightarrow> dispatch \<Rightarrow> worker \<Rightarrow> worker_msg option \<times> worker" where
  "dispatch_start E t peer d w =
     (let (ok, w) = dispatch_authorized t (di_job_id d) peer w;
          nack = (\<lambda>why. Some (WireAck (di_job_id d) False why)) in
      if \<not> ok then (nack ''dispatch not authorized: no accepting bid from this peer for this job'', w)
      else let p = w_params w;
               admit_mem = (if di_memory_limit_bytes d = 0 then wp_per_job_memory_bytes p else di_memory_limit_bytes d);
               mem = sat_add u64_max admit_mem (wp_spill_tolerance_bytes p);
               thr = (if di_threads d = 0 then wp_per_job_threads p else di_threads d);
               spill_cap = effective_spill_cap (di_max_spill_bytes d) (wp_max_spill_bytes p);
               (lease, adm) = try_admit admit_mem thr (w_admission w);
               w = w\<lparr>w_admission := adm\<rparr>
           in (case lease of
                 None \<Rightarrow> (nack ''at capacity'', w)
               | Some l \<Rightarrow>
                   let start = (\<lambda>fp. (None, w\<lparr>w_running := w_running w @ [\<lparr>rj_dispatch = d, rj_lease = l, rj_memory = mem,
                                    rj_threads = thr, rj_spill_cap = spill_cap, rj_input_fingerprint = fp\<rparr>]\<rparr>)) in
                   (case we_observe E (di_input_fingerprint d) of
                      Unpinned \<Rightarrow> start []
                    | Pinned fp \<Rightarrow> start fp
                    | Unavailable why \<Rightarrow>
                        (nack (''pinned input version not found: '' @ why), w\<lparr>w_admission := drop_adm_lease l (w_admission w)\<rparr>))))"

text \<open>
  What the execution of a job came to: \<open>execute_with_progress\<close> races the engine against the
  requester's cancellation, the metered cap and the host's deadline. Each contender has the time it is
  ready, if ever; the biased \<open>select!\<close> prefers the earlier branch among those ready at once.
\<close>

datatype 'r exec_outcome = ExecOk 'r | Abandoned | CapExceeded | Cancelled | ExecErr string

definition exec_race ::
  "(nat \<times> (string + 'r)) option \<Rightarrow> nat option \<Rightarrow> nat option \<Rightarrow> nat \<Rightarrow> (nat \<times> 'r exec_outcome) option" where
  "exec_race engine cancel cap deadline =
     fold (\<lambda>c best. case c of
         None \<Rightarrow> best
       | Some (t, x) \<Rightarrow> (case best of None \<Rightarrow> Some (t, x) | Some (t', y) \<Rightarrow> if t < t' then Some (t, x) else Some (t', y)))
       [map_option (\<lambda>(t, r). (t, case r of Inl e \<Rightarrow> ExecErr e | Inr rs \<Rightarrow> ExecOk rs)) engine,
        map_option (\<lambda>t. (t, Cancelled)) cancel,
        map_option (\<lambda>t. (t, CapExceeded)) cap,
        if deadline = 0 then None else Some (deadline, Abandoned)] None"

definition cap_deadline :: "dispatch \<Rightarrow> nat option" where
  "cap_deadline d = (case di_cap_deadline_ms d of Some ms \<Rightarrow> if 0 < ms then Some ms else None | None \<Rightarrow> None)"

text \<open>The coarse percentage of a progress frame.\<close>

definition progress_pct :: "nat \<Rightarrow> nat \<Rightarrow> nat" where
  "progress_pct elapsed_ms deadline_ms =
     (if deadline_ms = 0 then 0 else min (sat_mul u64_max elapsed_ms 100 div max deadline_ms 1) 99)"

text \<open>
  The rest of \<open>handle_dispatch\<close>: the running job leaves with its lease whatever the outcome; a commit
  carries the hash of the result, and the data follow only when the requester says so.
\<close>

definition remove_nth :: "nat \<Rightarrow> 'a list \<Rightarrow> 'a list" where
  "remove_nth k xs = take k xs @ drop (Suc k) xs"

definition dispatch_finish ::
  "crypto \<Rightarrow> nat \<Rightarrow> nat \<Rightarrow> result_set exec_outcome \<Rightarrow> worker \<Rightarrow> worker_msg option \<times> worker" where
  "dispatch_finish C k latency outcome w =
     (if length (w_running w) \<le> k then (None, w)
      else let job = w_running w ! k; j = di_job_id (rj_dispatch job);
               w' = w\<lparr>w_running := remove_nth k (w_running w), w_admission := drop_adm_lease (rj_lease job) (w_admission w)\<rparr>
           in (case outcome of
                 ExecOk rs \<Rightarrow> Some (WireCommit \<lparr>commit_key.input_fingerprint = rj_input_fingerprint job, commit_key.result_hash = canonical_hash (blake3_hash C) (hex_enc C) rs,
                     rc_job_id = j, rc_worker_id = w_local_id w, rc_row_count = length (rows rs), rc_latency_ms = latency\<rparr>)
               | Abandoned \<Rightarrow> None
               | CapExceeded \<Rightarrow> Some (WireAck j False (''cap deadline exceeded after '' @
                   show_nat (case di_cap_deadline_ms (rj_dispatch job) of Some ms \<Rightarrow> ms | None \<Rightarrow> 0) @
                   ''ms: job too large for the agreed bid cap''))
               | Cancelled \<Rightarrow> None
               | ExecErr e \<Rightarrow> Some (WireAck j False (''exec error: '' @ e)), w'))"

section \<open>Runs\<close>

text \<open>
  What reaches a worker: an offer or a dispatch on an authenticated connection, the completion of a
  running job, and a change of the deny-list it shares with the coordinator.
\<close>

datatype worker_event =
    EvOffer string offer nat nat
  | EvDispatch string dispatch nat
  | EvFinish nat nat "result_set exec_outcome"
  | EvBlocklist blocklist

fun worker_step :: "worker_env \<Rightarrow> worker_event \<Rightarrow> worker \<Rightarrow> worker_msg option \<times> worker" where
  "worker_step E (EvOffer peer ofr at_s t) w = map_prod (Some \<circ> WireBid) id (make_bid_authenticated E at_s t peer ofr w)"
| "worker_step E (EvDispatch peer d t) w = dispatch_start E t peer d w"
| "worker_step E (EvFinish k latency outcome) w = dispatch_finish (we_crypto E) k latency outcome w"
| "worker_step E (EvBlocklist bl) w =
     (None, w\<lparr>w_antiabuse := map_option (\<lambda>rt. rt\<lparr>ab_blocklist := Some bl\<rparr>) (w_antiabuse w)\<rparr>)"

text \<open>A run remembers, latest first, each event with the state it met.\<close>

inductive worker_reach :: "worker_env \<Rightarrow> worker \<Rightarrow> (worker \<times> worker_event) list \<Rightarrow> worker \<Rightarrow> bool" for E w0 where
  reach_init: "worker_reach E w0 [] w0"
| reach_step: "worker_reach E w0 h w \<Longrightarrow> worker_step E ev w = (msg, w') \<Longrightarrow> worker_reach E w0 ((w, ev) # h) w'"

section \<open>What the operations leave alone\<close>

lemma antiabuse_reject_frame:
  "antiabuse_reject at_s ofr w = (b, w') \<Longrightarrow> w' = w\<lparr>w_antiabuse := w_antiabuse w'\<rparr>"
  by (auto simp: antiabuse_reject_def Let_def split: option.splits if_splits prod.splits)

lemma make_bid_frame:
  "make_bid E at_s ofr w = (b, w') \<Longrightarrow> w' = w\<lparr>w_antiabuse := w_antiabuse w'\<rparr>"
  using antiabuse_reject_frame [of at_s ofr w]
  by (simp add: make_bid_def Let_def split: option.splits if_splits prod.splits)

lemma make_bid_authenticated_frame:
  assumes "make_bid_authenticated E at_s t peer ofr w = (b, w')"
  shows "w_params w' = w_params w \<and> w_admission w' = w_admission w \<and> w_running w' = w_running w \<and>
    w_serving_block w' = w_serving_block w \<and>
    (w_authorized w' = w_authorized w \<or>
     of_requester_id ofr = peer \<and> wb_decision (fst (make_bid E at_s ofr w)) = Accept \<and>
     w_authorized w' = hput (of_job_id ofr) \<lparr>da_requester = peer, da_expires_at = t + DISPATCH_AUTH_TTL\<rparr> (sweep_auth t (w_authorized w)))"
proof -
  obtain b1 w1 where m: "make_bid E at_s ofr w = (b1, w1)" by (cases "make_bid E at_s ofr w")
  obtain rt where w1: "w1 = w\<lparr>w_antiabuse := rt\<rparr>" using make_bid_frame [OF m] by blast
  show ?thesis using assms m unfolding make_bid_authenticated_def by (auto simp: w1 authorize_dispatch_def split: if_splits)
qed

text \<open>What an accepting bid means.\<close>

lemma make_bid_Accept:
  assumes "wb_decision (fst (make_bid E at_s ofr w)) = Accept"
  shows "w_serving_block w = None" "membership_reject E at_s ofr w = None" "fst (antiabuse_reject at_s ofr w) = None"
    "serves_data_class (of_data_class ofr) (w_admission w)"
    "0 < fr_free_jobs (free (w_admission w))" "wp_per_job_memory_bytes (w_params w) \<le> fr_memory_bytes (free (w_admission w))"
    "wp_per_job_threads (w_params w) \<le> fr_threads (free (w_admission w))"
proof -
  have rej: "wb_decision (reject_bid w ofr why) \<noteq> Accept" for w why by (simp add: reject_bid_def)
  have mr: "membership_reject E at_s ofr w = Some b \<Longrightarrow> wb_decision b \<noteq> Accept" for b
    by (auto simp: membership_reject_def Let_def rej split: if_splits)
  have ar: "antiabuse_reject at_s ofr w = (Some b, w') \<Longrightarrow> wb_decision b \<noteq> Accept" for b w'
    by (auto simp: antiabuse_reject_def Let_def rej split: if_splits option.splits prod.splits)
  obtain b w' where a: "antiabuse_reject at_s ofr w = (b, w')" by (cases "antiabuse_reject at_s ofr w")
  obtain rt where w': "w' = w\<lparr>w_antiabuse := rt\<rparr>" using antiabuse_reject_frame [OF a] by blast
  show "w_serving_block w = None"
    using assms rej by (simp add: make_bid_def split: option.splits)
  moreover show "membership_reject E at_s ofr w = None"
    using assms calculation mr by (simp add: make_bid_def split: option.splits)
  moreover show "fst (antiabuse_reject at_s ofr w) = None"
    using assms calculation ar a by (cases b) (simp_all add: make_bid_def)
  ultimately show "serves_data_class (of_data_class ofr) (w_admission w)"
    "0 < fr_free_jobs (free (w_admission w))" "wp_per_job_memory_bytes (w_params w) \<le> fr_memory_bytes (free (w_admission w))"
    "wp_per_job_threads (w_params w) \<le> fr_threads (free (w_admission w))"
    using assms a rej by (auto simp: make_bid_def w' Let_def split: if_splits prod.splits)
qed

section \<open>Authorisations come from accepting bids\<close>

lemma hput_entries: "set (hput k v m) \<subseteq> insert (k, v) (set m)"
  by (induction m) auto

lemma set_sweep: "set (sweep_auth t m) = {(j, a) \<in> set m. t < da_expires_at a}"
  by (auto simp: sweep_auth_def)

definition granted_by :: "worker_env \<Rightarrow> (worker \<times> worker_event) list \<Rightarrow> string \<Rightarrow> dispatch_auth \<Rightarrow> bool" where
  "granted_by E h j a \<longleftrightarrow> (\<exists>v ofr at_s t. (v, EvOffer (da_requester a) ofr at_s t) \<in> set h \<and> of_job_id ofr = j \<and>
     of_requester_id ofr = da_requester a \<and> wb_decision (fst (make_bid E at_s ofr v)) = Accept \<and>
     da_expires_at a = t + DISPATCH_AUTH_TTL)"

lemma granted_by_mono: "set h \<subseteq> set h' \<Longrightarrow> granted_by E h j a \<Longrightarrow> granted_by E h' j a"
  unfolding granted_by_def by blast

lemma dispatch_start_frame:
  assumes "dispatch_start E t peer d w = (msg, w')"
  shows "w_params w' = w_params w \<and> w_serving_block w' = w_serving_block w \<and>
    w_authorized w' = sweep_auth t (w_authorized w)"
  using assms
  by (auto simp: dispatch_start_def dispatch_authorized_def Let_def split: if_splits option.splits prod.splits input_observation.splits)

lemma dispatch_finish_frame:
  assumes "dispatch_finish C k latency outcome w = (msg, w')"
  shows "w_params w' = w_params w \<and> w_serving_block w' = w_serving_block w \<and> w_authorized w' = w_authorized w"
  using assms by (auto simp: dispatch_finish_def Let_def split: if_splits)

lemma reach_granted:
  assumes "worker_reach E w0 h w" "w_authorized w0 = []"
  shows "w_params w = w_params w0 \<and> w_serving_block w = w_serving_block w0 \<and>
    (\<forall>(j, a)\<in>set (w_authorized w). granted_by E h j a)"
  using assms(1)
proof induction
  case reach_init
  then show ?case using assms(2) by simp
next
  case (reach_step h w ev msg w')
  have old: "granted_by E ((w, ev) # h) j a" if "(j, a) \<in> set (w_authorized w)" for j a
    using reach_step.IH that by (intro granted_by_mono [of h "(w, ev) # h"]) auto
  show ?case
  proof (cases ev)
    case (EvOffer peer ofr at_s t)
    then obtain b where m: "make_bid_authenticated E at_s t peer ofr w = (b, w')"
      using reach_step.hyps(2) by (cases "make_bid_authenticated E at_s t peer ofr w") auto
    note F = make_bid_authenticated_frame [OF m]
    have "granted_by E ((w, ev) # h) j a" if "(j, a) \<in> set (w_authorized w')" for j a
    proof (cases "(j, a) \<in> set (w_authorized w)")
      case False
      then have "w_authorized w' \<noteq> w_authorized w" using that by auto
      with F have n: "of_requester_id ofr = peer" "wb_decision (fst (make_bid E at_s ofr w)) = Accept"
        "w_authorized w' = hput (of_job_id ofr) \<lparr>da_requester = peer, da_expires_at = t + DISPATCH_AUTH_TTL\<rparr> (sweep_auth t (w_authorized w))"
        by blast+
      have "(j, a) = (of_job_id ofr, \<lparr>da_requester = peer, da_expires_at = t + DISPATCH_AUTH_TTL\<rparr>)"
        using that False hput_entries [of "of_job_id ofr" _ "sweep_auth t (w_authorized w)"] unfolding n(3) set_sweep by blast
      with n(1,2) show ?thesis unfolding granted_by_def EvOffer
        by (intro exI [of _ w] exI [of _ ofr] exI [of _ at_s] exI [of _ t]) simp
    qed (rule old)
    with F reach_step.IH show ?thesis by auto
  next
    case (EvDispatch peer d t)
    then have "dispatch_start E t peer d w = (msg, w')" using reach_step.hyps(2) by simp
    from dispatch_start_frame [OF this] reach_step.IH old show ?thesis by (auto simp: set_sweep)
  next
    case (EvFinish k latency outcome)
    then have "dispatch_finish (we_crypto E) k latency outcome w = (msg, w')" using reach_step.hyps(2) by simp
    from dispatch_finish_frame [OF this] reach_step.IH old show ?thesis by auto
  next
    case (EvBlocklist bl)
    then have "w' = w\<lparr>w_antiabuse := map_option (\<lambda>rt. rt\<lparr>ab_blocklist := Some bl\<rparr>) (w_antiabuse w)\<rparr>"
      using reach_step.hyps(2) by simp
    with reach_step.IH old show ?thesis by auto
  qed
qed

lemma dispatch_start_authorized:
  assumes "dispatch_start E t peer d w = (None, w')"
  shows "\<exists>a. (di_job_id d, a) \<in> set (w_authorized w) \<and> da_requester a = peer \<and> t < da_expires_at a"
proof -
  have "fst (dispatch_authorized t (di_job_id d) peer w)"
    using assms by (simp add: dispatch_start_def Let_def split: if_splits prod.splits)
  then obtain a where "hget (sweep_auth t (w_authorized w)) (di_job_id d) = Some a" "da_requester a = peer"
    by (auto simp: dispatch_authorized_def Let_def split: option.splits)
  then show ?thesis using map_of_SomeD [of "sweep_auth t (w_authorized w)" "di_job_id d" a] by (auto simp: set_sweep)
qed

section \<open>Leases of running jobs\<close>

abbreviation leases_of :: "worker \<Rightarrow> adm_lease multiset" where
  "leases_of w \<equiv> mset (map rj_lease (w_running w))"

lemma mset_remove_nth: "k < length xs \<Longrightarrow> mset (remove_nth k xs) = mset xs - {#xs ! k#}"
proof -
  assume "k < length xs"
  then have "mset xs = mset (take k xs @ xs ! k # drop (Suc k) xs)" by (simp only: id_take_nth_drop [symmetric])
  then show ?thesis by (simp add: remove_nth_def)
qed

lemma dispatch_start_acct:
  assumes acct: "adm_acct X (w_admission w) (leases_of w)" and d: "dispatch_start E t peer d w = (msg, w')"
  shows "adm_acct X (w_admission w') (leases_of w') \<and> adm_config (w_admission w') = adm_config (w_admission w)"
proof -
  define m where "m = (if di_memory_limit_bytes d = 0 then wp_per_job_memory_bytes (w_params w) else di_memory_limit_bytes d)"
  define n where "n = (if di_threads d = 0 then wp_per_job_threads (w_params w) else di_threads d)"
  obtain x adm where r: "try_admit m n (w_admission w) = (x, adm)" by (cases "try_admit m n (w_admission w)")
  show ?thesis
  proof (cases "fst (dispatch_authorized t (di_job_id d) peer w)")
    case False
    with d have "w' = w\<lparr>w_authorized := sweep_auth t (w_authorized w)\<rparr>"
      by (simp add: dispatch_start_def dispatch_authorized_def Let_def)
    with acct show ?thesis by simp
  next
    case True
    then have ok: "dispatch_authorized t (di_job_id d) peer w = (True, w\<lparr>w_authorized := sweep_auth t (w_authorized w)\<rparr>)"
      by (simp add: dispatch_authorized_def Let_def)
    show ?thesis
    proof (cases x)
      case None
      then have "adm = w_admission w" using adm_pool.refused [OF acct, of "(m, n)" adm] r by simp
      with d ok r None acct show ?thesis
        by (cases "di_memory_limit_bytes d = 0"; cases "di_threads d = 0"; auto simp: dispatch_start_def Let_def m_def n_def)
    next
      case (Some l)
      have g: "adm_acct X adm (add_mset l (leases_of w))" "adm_config adm = adm_config (w_admission w)"
        using adm_pool.granted [OF acct, of "(m, n)" l adm] r Some by simp_all
      have "adm_acct X (drop_adm_lease l adm) (leases_of w)" "adm_config (drop_adm_lease l adm) = adm_config adm"
        using adm_pool.released [OF g(1), of l] by simp_all
      with d ok r Some g show ?thesis
        by (cases "di_memory_limit_bytes d = 0"; cases "di_threads d = 0";
            auto simp: dispatch_start_def Let_def m_def n_def split: input_observation.splits)
    qed
  qed
qed

lemma dispatch_finish_acct:
  assumes acct: "adm_acct X (w_admission w) (leases_of w)" and d: "dispatch_finish C k latency outcome w = (msg, w')"
  shows "adm_acct X (w_admission w') (leases_of w') \<and> adm_config (w_admission w') = adm_config (w_admission w)"
proof (cases "k < length (w_running w)")
  case True
  let ?l = "rj_lease (w_running w ! k)"
  have "map rj_lease (remove_nth k (w_running w)) = remove_nth k (map rj_lease (w_running w))"
    by (simp add: remove_nth_def take_map drop_map)
  then have "mset (map rj_lease (remove_nth k (w_running w))) = leases_of w - {#?l#}"
    using True mset_remove_nth [of k "map rj_lease (w_running w)"] by simp
  moreover have "?l \<in># leases_of w" using nth_mem [OF True] by simp
  ultimately show ?thesis
    using True d adm_pool.released [OF acct, of ?l] by (auto simp: dispatch_finish_def Let_def)
next
  case False
  with d acct show ?thesis by (simp add: dispatch_finish_def)
qed

lemma reach_acct:
  assumes "worker_reach E w0 h w" "adm_acct X (w_admission w0) (leases_of w0)"
  shows "adm_acct X (w_admission w) (leases_of w) \<and> adm_config (w_admission w) = adm_config (w_admission w0)"
  using assms(1)
proof induction
  case reach_init
  then show ?case using assms(2) by simp
next
  case (reach_step h w ev msg w')
  note A = reach_step.IH [THEN conjunct1]
  have "adm_acct X (w_admission w') (leases_of w') \<and> adm_config (w_admission w') = adm_config (w_admission w)"
  proof (cases ev)
    case (EvOffer peer ofr at_s t)
    then obtain b where "make_bid_authenticated E at_s t peer ofr w = (b, w')"
      using reach_step.hyps(2) by (cases "make_bid_authenticated E at_s t peer ofr w") auto
    from make_bid_authenticated_frame [OF this] A show ?thesis by simp
  next
    case (EvDispatch peer d t)
    then show ?thesis using reach_step.hyps(2) dispatch_start_acct [OF A] by simp
  next
    case (EvFinish k latency outcome)
    then show ?thesis using reach_step.hyps(2) dispatch_finish_acct [OF A] by simp
  next
    case (EvBlocklist bl)
    then show ?thesis using reach_step.hyps(2) A by auto
  qed
  with reach_step.IH show ?case by simp
qed

text \<open>What passing the membership gate means.\<close>

lemma membership_reject_None:
  "membership_reject E at_s ofr w = None \<longleftrightarrow>
     wp_enabled (w_params w) \<and>
     (wp_private (w_params w) \<longrightarrow> wp_groups (w_params w) \<noteq> [] \<and> of_requester_id ofr \<in> set (wp_roster (w_params w))) \<and>
     (\<forall>net. of_network ofr = Some net \<longrightarrow>
        (if wp_networks (w_params w) = [] then net = ''default'' else net \<in> set (wp_networks (w_params w)))) \<and>
     (wp_groups (w_params w) \<noteq> [] \<longrightarrow>
        (case wp_group_enforcement (w_params w) of
           SoftGroups \<Rightarrow> set (of_groups ofr) \<inter> set (wp_groups (w_params w)) \<noteq> {}
         | TokenGroups \<Rightarrow> token_proves_group E at_s (w_params w) ofr)) \<and>
     (of_regions ofr \<noteq> [] \<longrightarrow> (\<exists>r. wp_region (w_params w) = Some r \<and> r \<in> set (of_regions ofr)))"
  by (cases "wp_group_enforcement (w_params w)")
    (auto simp: membership_reject_def Let_def list_ex_iff split: option.splits)

lemma antiabuse_reject_None:
  assumes "fst (antiabuse_reject at_s ofr w) = None" "w_antiabuse w = Some rt" "ab_enabled rt" "ab_blocklist rt = Some bl"
  shows "\<not> is_blocked (of_requester_id ofr) bl"
  using assms by (auto simp: antiabuse_reject_def split: if_splits)

lemma token_proves_group_sound:
  assumes "token_proves_group E at_s p ofr"
  shows "\<exists>proof token g issuer holder. of_group_proof ofr = Some proof \<and> we_parse_token E proof = Some token \<and>
    g \<in> set (wp_groups p) \<and> (\<exists>hex. hget (wp_group_issuers p) g = Some hex \<and> decode_pubkey (we_crypto E) hex = Some issuer) \<and>
    verify_group_membership (we_crypto E) token issuer g (of_nat at_s) = Inr holder \<and>
    from_pubkey (we_crypto E) holder = of_requester_id ofr"
proof -
  obtain pf token where p: "of_group_proof ofr = Some pf" "we_parse_token E pf = Some token"
    using assms by (auto simp: token_proves_group_def split: option.split_asm)
  obtain g where g: "g \<in> set (wp_groups p)" "case hget (wp_group_issuers p) g of None \<Rightarrow> False
      | Some issuer_hex \<Rightarrow> (case decode_pubkey (we_crypto E) issuer_hex of None \<Rightarrow> False
      | Some issuer \<Rightarrow> (case verify_group_membership (we_crypto E) token issuer g (of_nat at_s) of
          Inl e \<Rightarrow> False | Inr holder \<Rightarrow> from_pubkey (we_crypto E) holder = of_requester_id ofr))"
    using assms p by (auto simp: token_proves_group_def list_ex_iff)
  obtain hex where h: "hget (wp_group_issuers p) g = Some hex" using g(2) by (cases "hget (wp_group_issuers p) g") simp_all
  obtain issuer where i: "decode_pubkey (we_crypto E) hex = Some issuer"
    using g(2) h by (cases "decode_pubkey (we_crypto E) hex") simp_all
  obtain holder where "verify_group_membership (we_crypto E) token issuer g (of_nat at_s) = Inr holder"
    "from_pubkey (we_crypto E) holder = of_requester_id ofr"
    using g(2) h i by (cases "verify_group_membership (we_crypto E) token issuer g (of_nat at_s)") simp_all
  with p g(1) h i show ?thesis by blast
qed

definition toy_env :: worker_env where
  "toy_env = \<lparr>we_crypto = toy_crypto (\<lambda>_. True), we_parse_token = (\<lambda>_. None), we_attestor = None, we_bound_pub = [],
     we_observe = echo_observe\<rparr>"

definition toy_params :: worker_params where
  "toy_params = \<lparr>wp_per_job_memory_bytes = 300, wp_per_job_threads = 2, wp_spill_tolerance_bytes = 10,
     wp_max_spill_bytes = 0, wp_job_timeout_ms = 0, wp_enabled = True, wp_networks = [], wp_groups = [''eu''],
     wp_region = None, wp_group_enforcement = SoftGroups, wp_group_issuers = [], wp_region_token = None,
     wp_pricing = \<lparr>pr_model = FixedPrice, pr_unit_price = 0, pr_rate_per_second = 0, pr_rate_per_gb = 0, pr_cap_multiplier = 5\<rparr>,
     wp_private = True, wp_roster = [''p'']\<rparr>"

definition toy_admission :: admission where
  "toy_admission = admission_build example_budget (Some (governor_new example_budget 2 (1 / 2) True))"

definition toy_worker :: worker where
  "toy_worker = worker_new_with ''w'' toy_admission stub_l0 toy_params None None"

definition toy_offer :: offer where
  "toy_offer = \<lparr>of_job_id = ''j'', of_requester_id = ''p'', of_query_hash = [], of_cost_hint_rows = None,
     of_cost_hint_bytes = None, of_data_class = JobPublic, of_nonce = 1, of_network = None, of_groups = [''eu''],
     of_regions = [], of_group_proof = None, of_input_fingerprint_hint = None\<rparr>"

definition toy_dispatch :: dispatch where
  "toy_dispatch = \<lparr>di_job_id = ''j'', di_sql = ''SELECT 1'', di_memory_limit_bytes = 0, di_threads = 0,
     di_max_spill_bytes = 0, di_input_fingerprint = None, di_cap_deadline_ms = None\<rparr>"

lemmas toy_worker_defs = toy_env_def toy_params_def toy_admission_def toy_worker_def toy_offer_def toy_dispatch_def
  worker_new_with_def admission_build_def governor_new_def example_budget_def stub_l0_def

definition toy_bidder :: worker where
  "toy_bidder = snd (worker_step toy_env (EvOffer ''p'' toy_offer 0 0) toy_worker)"

lemma toy_bidder_eq:
  "toy_bidder = toy_worker\<lparr>w_authorized := [(''j'', \<lparr>da_requester = ''p'', da_expires_at = 300000\<rparr>)]\<rparr>"
proof -
  have "membership_reject toy_env 0 toy_offer toy_worker = None"
    by (simp add: membership_reject_None) (simp add: toy_worker_defs)
  moreover have "antiabuse_reject 0 toy_offer toy_worker = (None, toy_worker)"
    by (simp add: antiabuse_reject_def) (simp add: toy_worker_defs)
  moreover have "serves_data_class (of_data_class toy_offer) (w_admission toy_worker)" "w_serving_block toy_worker = None"
    "wp_per_job_memory_bytes (w_params toy_worker) \<le> fr_memory_bytes (free (w_admission toy_worker))"
    "wp_per_job_threads (w_params toy_worker) \<le> fr_threads (free (w_admission toy_worker))"
    "0 < fr_free_jobs (free (w_admission toy_worker))"
    by (simp_all add: serves_data_class_def free_def toy_worker_defs)
  ultimately obtain b where "make_bid toy_env 0 toy_offer toy_worker = (b, toy_worker)" "wb_decision b = Accept"
    by (simp add: make_bid_def Let_def case_prod_beta)
  moreover have "of_requester_id toy_offer = ''p''" "of_job_id toy_offer = ''j''" "w_authorized toy_worker = []"
    by (simp_all add: toy_worker_defs)
  ultimately show ?thesis
    by (simp add: toy_bidder_def make_bid_authenticated_def authorize_dispatch_def sweep_auth_def DISPATCH_AUTH_TTL_def)
qed

lemma toy_reach: "worker_reach toy_env toy_worker [(toy_worker, EvOffer ''p'' toy_offer 0 0)] toy_bidder"
  unfolding toy_bidder_def by (rule reach_step [OF reach_init]) (rule prod.collapse [symmetric])

lemma toy_start: "fst (dispatch_start toy_env 5 ''p'' toy_dispatch toy_bidder) = None"
proof -
  have "dispatch_authorized 5 ''j'' ''p'' toy_bidder = (True, toy_bidder)"
    by (simp add: dispatch_authorized_def toy_bidder_eq sweep_auth_def Let_def)
  moreover have "fst (try_admit 300 2 toy_admission) \<noteq> None"
    by (simp add: try_admit_def try_reserve_def toy_admission_def admission_build_def governor_new_def example_budget_def
        checked_add_def u64_max_def u32_max_def Let_def)
  moreover have "w_params toy_bidder = toy_params" "w_admission toy_bidder = toy_admission"
    by (simp_all add: toy_bidder_eq toy_worker_def worker_new_with_def)
  ultimately show ?thesis
    by (auto simp: dispatch_start_def toy_dispatch_def toy_params_def toy_env_def echo_observe_def Let_def split: prod.split)
qed

lemma dispatch_start_None:
  assumes "dispatch_start E t peer d w = (None, w')"
  shows "\<exists>r. w_running w' = w_running w @ [r]"
proof -
  have f: "w_running (snd (dispatch_authorized t (di_job_id d) peer w)) = w_running w"
    by (simp add: dispatch_authorized_def Let_def)
  show ?thesis
    using assms f by (auto simp: dispatch_start_def Let_def split: if_splits option.splits prod.splits input_observation.splits)
qed

lemma reach_history:
  "worker_reach E w0 h w \<Longrightarrow> (v, ev) \<in> set h \<Longrightarrow> \<exists>h'. worker_reach E w0 h' v"
  by (induction rule: worker_reach.induct) auto

text \<open>An authorisation outlives its use: the same peer may dispatch the job again while it lasts.\<close>

lemma authorisation_reusable:
  assumes "dispatch_start E t peer d w = (None, w')"
  shows "fst (dispatch_authorized t (di_job_id d) peer w')"
proof -
  have "fst (dispatch_authorized t (di_job_id d) peer w)"
    using assms by (simp add: dispatch_start_def Let_def split: if_splits prod.splits)
  moreover have "w_authorized w' = sweep_auth t (w_authorized w)" using dispatch_start_frame [OF assms] by blast
  moreover have "sweep_auth t (sweep_auth t m) = sweep_auth t m" for m by (simp add: sweep_auth_def)
  ultimately show ?thesis by (simp add: dispatch_authorized_def Let_def)
qed

section \<open>Properties\<close>



text \<open>
  C31: the memory of running jobs is what admission handed out. At every moment of a run of a fresh
  worker the leases of its running jobs stay within the donated memory, and whenever no job is
  running the admission controller and the machine-wide governor are exactly as they were built:
  refused, failed, cancelled and completed dispatches all return what they took.
\<close>

theorem running_jobs_within_donation:
  assumes "worker_reach E (worker_new_with i (admission_build b (Some (governor_new mb j f act))) att params rt0 blk) h w"
    and "memory_bytes b \<le> u64_max" "threads b \<le> u32_max" "memory_bytes mb \<le> u64_max" "threads mb \<le> u32_max"
  shows "sum_list (map (\<lambda>r. al_memory (rj_lease r)) (w_running w)) \<le> memory_bytes b \<and>
    (w_running w = [] \<longrightarrow> w_admission w = admission_build b (Some (governor_new mb j f act)))"
proof -
  let ?w0 = "worker_new_with i (admission_build b (Some (governor_new mb j f act))) att params rt0 blk"
  have a0: "adm_acct {#} (w_admission ?w0) (leases_of ?w0)"
    using adm_acct_new [OF assms(2-)] by (simp add: worker_new_with_def)
  note A = reach_acct [OF assms(1) a0]
  have "(\<Sum>l\<in>#leases_of w. al_memory l) \<le> memory_bytes b"
    using adm_pool.within [OF A [THEN conjunct1]] A by (simp add: adm_config_def worker_new_with_def admission_build_def)
  then have "sum_list (map (\<lambda>r. al_memory (rj_lease r)) (w_running w)) \<le> memory_bytes b"
    by (simp add: sum_mset_sum_list comp_def flip: mset_map)
  moreover have "w_admission w = admission_build b (Some (governor_new mb j f act))" if "w_running w = []"
    using adm_pool.determined [OF A [THEN conjunct1], of "w_admission ?w0"] a0 A that by (simp add: worker_new_with_def)
  ultimately show ?thesis by blast
qed

theorem running_jobs_within_donation_witness:
  "let w = snd (dispatch_start toy_env 5 ''p'' toy_dispatch toy_bidder); w' = snd (dispatch_finish (we_crypto toy_env) 0 9 Cancelled w)
   in w_running w' = [] \<and> w_admission w' = admission_build example_budget (Some (governor_new example_budget 2 (1 / 2) True))"
proof -
  define w where "w = snd (dispatch_start toy_env 5 ''p'' toy_dispatch toy_bidder)"
  define w' where "w' = snd (dispatch_finish (we_crypto toy_env) 0 9 Cancelled w)"
  have r: "worker_reach toy_env toy_worker [(w, EvFinish 0 9 Cancelled), (toy_bidder, EvDispatch ''p'' toy_dispatch 5),
      (toy_worker, EvOffer ''p'' toy_offer 0 0)] w'"
    unfolding w'_def w_def
    by (rule reach_step [OF reach_step [OF toy_reach]]; simp only: worker_step.simps; rule prod.collapse [symmetric])
  obtain r where "w_running w = w_running toy_bidder @ [r]"
    using toy_start dispatch_start_None [of toy_env 5 "''p''" toy_dispatch toy_bidder w] w_def by (metis prod.collapse)
  then have "w_running w' = []"
    by (simp add: w'_def dispatch_finish_def toy_bidder_eq toy_worker_def worker_new_with_def remove_nth_def Let_def)
  with running_jobs_within_donation [OF r [unfolded toy_worker_def toy_admission_def]] show ?thesis
    unfolding w_def [symmetric] w'_def [symmetric] Let_def by (simp add: example_budget_def u64_max_def u32_max_def)
qed



end
