(* ===== verification/Inputs.thy ===== *)
theory Inputs
  imports Faults Identity "HOL-Library.Product_Lexorder"
begin

text \<open>
  Pinning of a job's external inputs: the version manifest and its fingerprint
  (\<open>proto/src/input.rs\<close>), the extraction of sources from SQL text and the resolver that pins them
  (\<open>node/src/input_resolver.rs\<close>). Version probes and the Delta log reader are arguments. The theorems:
  equal fingerprints mean equal manifests, whatever order the objects were listed in; every source that
  is pinned is a string literal of the query; and a resolved snapshot holds a pin for every source.
\<close>

section \<open>Manifests\<close>

text \<open>A Google Cloud generation is an \<open>i64\<close>, encoded by its 64 bits.\<close>

datatype object_version =
    S3 "string option" "string option" u64
  | Azure "string option" "string option"
  | Gcs "u64 option"
  | ContentAddressed string
  | Lakehouse string string

fun is_concrete :: "object_version \<Rightarrow> bool" where
  "is_concrete (S3 version etag sz) = (version \<noteq> None)"
| "is_concrete (Azure etag version) = (version \<noteq> None)"
| "is_concrete (Gcs generation) = (generation \<noteq> None)"
| "is_concrete (ContentAddressed sha) = (sha \<noteq> [])"
| "is_concrete (Lakehouse format snap) = (snap \<noteq> [])"

fun opt_bytes :: "string option \<Rightarrow> bytes" where
  "opt_bytes (Some v) = [1] @ field (as_bytes v)"
| "opt_bytes None = [0]"

fun fingerprint_into :: "object_version \<Rightarrow> bytes" where
  "fingerprint_into (S3 version etag sz) = [1] @ opt_bytes version @ opt_bytes etag @ le_bytes 8 sz"
| "fingerprint_into (Azure etag version) = [2] @ opt_bytes etag @ opt_bytes version"
| "fingerprint_into (Gcs generation) = [3] @ (case generation of Some g \<Rightarrow> [1] @ le_bytes 8 g | None \<Rightarrow> [0])"
| "fingerprint_into (ContentAddressed sha) = [4] @ field (as_bytes sha)"
| "fingerprint_into (Lakehouse format snap) = [5] @ field (as_bytes format) @ field (as_bytes snap)"

record pinned_object =
  po_uri :: string
  po_provider :: string
  po_version :: object_version

record input_snapshot =
  fingerprint :: string
  objects :: "pinned_object list"

definition FINGERPRINT_DOMAIN :: bytes where
  "FINGERPRINT_DOMAIN = as_bytes ''duckdb-p2p-input-fingerprint-v1''"

text \<open>The comparison \<open>uri\<close> then \<open>provider\<close>; \<open>sort_by\<close> is stable.\<close>

definition object_key :: "pinned_object \<Rightarrow> string \<times> string" where
  "object_key ob = (po_uri ob, po_provider ob)"

definition object_bytes :: "pinned_object \<Rightarrow> bytes" where
  "object_bytes ob = field (as_bytes (po_uri ob)) @ field (as_bytes (po_provider ob)) @ field (fingerprint_into (po_version ob))"

definition fingerprint_preimage :: "pinned_object list \<Rightarrow> bytes" where
  "fingerprint_preimage obs =
     (let sorted_obs = sort_key object_key obs
      in FINGERPRINT_DOMAIN @ len64 sorted_obs @ concat (map object_bytes sorted_obs))"

definition compute_fingerprint :: "crypto \<Rightarrow> pinned_object list \<Rightarrow> string" where
  "compute_fingerprint C obs = hex_enc C (blake3_hash C (fingerprint_preimage obs))"

definition from_objects :: "crypto \<Rightarrow> pinned_object list \<Rightarrow> input_snapshot" where
  "from_objects C obs =
     (let obs = sort_key object_key obs in \<lparr>fingerprint = compute_fingerprint C obs, objects = obs\<rparr>)"

definition snapshot_is_empty :: "input_snapshot \<Rightarrow> bool" where
  "snapshot_is_empty s = (objects s = [])"

definition fully_concrete :: "input_snapshot \<Rightarrow> bool" where
  "fully_concrete s = list_all (\<lambda>ob. is_concrete (po_version ob)) (objects s)"

section \<open>Sources of a query\<close>

datatype source_kind = Object | Glob | Delta | Iceberg

record sql_source =
  src_uri :: string
  src_kind :: source_kind

record sql_sources =
  sources :: "sql_source list"
  dynamic :: bool

definition READER_FNS :: "string list" where
  "READER_FNS = [''read_parquet'', ''read_csv_auto'', ''read_csv'', ''read_json_auto'', ''read_json'',
     ''read_ndjson'', ''read_ndjson_auto'', ''parquet_scan'']"

abbreviation quote :: char where "quote \<equiv> CHR 0x27"

text \<open>\<open>val.push(b as char)\<close>: the byte becomes the code point of that number, and is stored in UTF-8.\<close>

definition push_byte_as_char :: "char \<Rightarrow> string" where
  "push_byte_as_char c =
     (let n = of_char c :: nat in if n < 128 then [c] else [char_of (192 + n div 64), char_of (128 + n mod 64)])"

record literal =
  lit_start :: nat
  lit_value :: string

text \<open>The inner loop: the value of a literal after its opening quote, and the bytes consumed.\<close>

fun literal_body :: "string \<Rightarrow> string \<times> nat" where
  "literal_body [] = ([], 0)"
| "literal_body (c # cs) =
     (if c = quote
      then (case cs of
              d # ds \<Rightarrow> if d = quote then (let (v, n) = literal_body ds in (quote # v, n + 2)) else ([], 1)
            | [] \<Rightarrow> ([], 1))
      else (let (v, n) = literal_body cs in (push_byte_as_char c @ v, n + 1)))"

function literals_from :: "nat \<Rightarrow> string \<Rightarrow> literal list" where
  "literals_from i [] = []"
| "literals_from i (c # cs) =
     (if c = quote
      then (let (v, n) = literal_body cs in \<lparr>lit_start = i, lit_value = v\<rparr> # literals_from (i + 1 + n) (drop n cs))
      else literals_from (i + 1) cs)"
  by pat_completeness auto

termination by (relation "measure (\<lambda>(i, s). length s)") auto

definition string_literals :: "string \<Rightarrow> literal list" where
  "string_literals sql = literals_from 0 sql"

text \<open>
  The loop of \<open>fn_call_offsets\<close> from position \<open>i\<close>. The names searched are not empty; for an empty
  name the loop of the code would not advance.
\<close>

function call_offsets_from :: "string \<Rightarrow> string \<Rightarrow> nat \<Rightarrow> nat list" where
  "call_offsets_from lower name i =
     (if name = [] then []
      else case str_find (drop i lower) name of
        None \<Rightarrow> []
      | Some rel \<Rightarrow>
          let idx = i + rel;
              prev_ok = (idx = 0 \<or> \<not> is_ident_byte (lower ! (idx - 1)));
              after = idx + length name;
              j = after + length (takeWhile (\<lambda>c. c = CHR '' '') (drop after lower))
          in (if prev_ok \<and> j < length lower \<and> lower ! j = CHR ''('' then [j + 1] else []) @
             call_offsets_from lower name after)"
  by pat_completeness auto

termination
proof (relation "measure (\<lambda>(lower, name, i). length lower - i)", goal_cases)
  case (2 lower name i rel idx prev_ok after j)
  note f = str_find_Some [OF 2(2)]
  have "length name \<le> length (drop (i + rel) lower)"
    using f by (metis prefix_length_le drop_drop add.commute)
  with 2 show ?case by (cases name) auto
qed auto

definition fn_call_offsets :: "string \<Rightarrow> string \<Rightarrow> nat list" where
  "fn_call_offsets lower name = call_offsets_from lower name 0"

text \<open>\<open>min_by_key\<close> returns the first minimum.\<close>

definition first_literal_after :: "literal list \<Rightarrow> nat \<Rightarrow> nat option" where
  "first_literal_after lits offset =
     (case sort_key (\<lambda>(i, l). lit_start l) (filter (\<lambda>(i, l). offset \<le> lit_start l) (enumerate 0 lits)) of
        [] \<Rightarrow> None | (i, l) # _ \<Rightarrow> Some i)"

definition is_glob :: "string \<Rightarrow> bool" where
  "is_glob s \<longleftrightarrow> CHR ''*'' \<in> set s \<or> CHR ''?'' \<in> set s \<or> CHR ''['' \<in> set s"

definition SCHEMES :: "string list" where
  "SCHEMES = [''s3://'', ''gs://'', ''gcs://'', ''az://'', ''abfss://'', ''azure://'', ''https://'', ''http://'', ''file://'']"

definition EXTS :: "string list" where
  "EXTS = [''.parquet'', ''.csv'', ''.json'', ''.ndjson'', ''.tsv'']"

definition looks_like_object_uri :: "string \<Rightarrow> bool" where
  "looks_like_object_uri lower \<longleftrightarrow>
     list_ex (\<lambda>s. prefix s lower) SCHEMES \<or> list_ex (\<lambda>e. suffix e lower) EXTS \<or>
     is_glob lower \<and> list_ex (\<lambda>e. str_contains lower (dropWhile (\<lambda>c. c = CHR ''.'') e)) EXTS"

definition provider_for_uri :: "string \<Rightarrow> string" where
  "provider_for_uri uri =
     (let lower = to_ascii_lowercase uri in
      if prefix ''s3://'' lower then ''s3''
      else if prefix ''gs://'' lower \<or> prefix ''gcs://'' lower then ''gcs''
      else if prefix ''az://'' lower \<or> prefix ''abfss://'' lower \<or> prefix ''azure://'' lower then ''az''
      else if prefix ''http://'' lower \<or> prefix ''https://'' lower then ''https''
      else ''local-fake'')"

definition literal_source :: "string \<Rightarrow> sql_source" where
  "literal_source v = \<lparr>src_uri = v, src_kind = (if is_glob v then Glob else Object)\<rparr>"

text \<open>The three loops of \<open>parse_input_sources\<close> over the accumulated sources, the flag and the claimed literals.\<close>

type_synonym parse_state = "sql_source list \<times> bool \<times> bool list"

definition claim_lakehouse :: "literal list \<Rightarrow> source_kind \<Rightarrow> nat \<Rightarrow> parse_state \<Rightarrow> parse_state" where
  "claim_lakehouse lits kind call = (\<lambda>(srcs, dyn, consumed).
     case first_literal_after lits call of
       Some i \<Rightarrow> (srcs @ [\<lparr>src_uri = lit_value (lits ! i), src_kind = kind\<rparr>], dyn, consumed[i := True])
     | None \<Rightarrow> (srcs, True, consumed))"

definition claim_reader :: "literal list \<Rightarrow> nat \<Rightarrow> parse_state \<Rightarrow> parse_state" where
  "claim_reader lits call = (\<lambda>(srcs, dyn, consumed).
     case first_literal_after lits call of
       Some i \<Rightarrow> if \<not> consumed ! i then (srcs @ [literal_source (lit_value (lits ! i))], dyn, consumed[i := True])
                 else (srcs, dyn, consumed)
     | None \<Rightarrow> (srcs, True, consumed))"

definition claim_bare :: "bool list \<Rightarrow> literal list \<Rightarrow> sql_source list" where
  "claim_bare consumed lits =
     map (\<lambda>(i, l). literal_source (lit_value l))
       (filter (\<lambda>(i, l). \<not> consumed ! i \<and> looks_like_object_uri (to_ascii_lowercase (lit_value l))) (enumerate 0 lits))"

definition parse_input_sources :: "string \<Rightarrow> sql_sources" where
  "parse_input_sources sql =
     (let lower = to_ascii_lowercase sql;
          lits = string_literals sql;
          st = ([], False, replicate (length lits) False);
          st = fold (\<lambda>(fname, kind). fold (claim_lakehouse lits kind) (fn_call_offsets lower fname))
                 [(''delta_scan'', Delta), (''iceberg_scan'', Iceberg)] st;
          (srcs, dyn, consumed) =
            fold (\<lambda>fname. fold (claim_reader lits) (fn_call_offsets lower fname)) READER_FNS st;
          srcs = srcs @ claim_bare consumed lits
      in \<lparr>sources = remdups_adj (sort_key src_uri srcs), dynamic = dyn\<rparr>)"

section \<open>The resolver\<close>

datatype input_resolve_error = NotPinnable string | Unavailable string

text \<open>A version probe, and the latest version in the log of a Delta table.\<close>

record version_probe =
  probe_head :: "string \<Rightarrow> input_resolve_error + pinned_object"
  probe_list :: "string \<Rightarrow> input_resolve_error + pinned_object list"

record manifest_resolver =
  probes :: "(string, version_probe) hmap"
  delta_latest_version :: "string \<Rightarrow> nat option"

definition register :: "version_probe \<Rightarrow> string list \<Rightarrow> manifest_resolver \<Rightarrow> manifest_resolver" where
  "register p schemes r = r\<lparr>probes := fold (\<lambda>s. hput s p) schemes (probes r)\<rparr>"

definition probe_for :: "manifest_resolver \<Rightarrow> string \<Rightarrow> version_probe option" where
  "probe_for r uri =
     (case str_find uri ''://'' of
        Some i \<Rightarrow> hget (probes r) (take i uri)
      | None \<Rightarrow> hget (probes r) ''file'')"

definition strip_file :: "string \<Rightarrow> string" where
  "strip_file uri = (if prefix ''file://'' uri then drop 7 uri else uri)"

definition pin_delta_table :: "manifest_resolver \<Rightarrow> string \<Rightarrow> input_resolve_error + pinned_object" where
  "pin_delta_table r uri =
     (let dir = strip_file uri in
      case delta_latest_version r dir of
        None \<Rightarrow> Inl (Unavailable (''no _delta_log commits at '' @ dir))
      | Some v \<Rightarrow> Inr \<lparr>po_uri = uri, po_provider = ''delta'', po_version = Lakehouse ''delta'' (show_nat v)\<rparr>)"

definition pin_source :: "manifest_resolver \<Rightarrow> sql_source \<Rightarrow> input_resolve_error + pinned_object list" where
  "pin_source r src =
     (case src_kind src of
        Delta \<Rightarrow> map_sum id (\<lambda>ob. [ob]) (pin_delta_table r (src_uri src))
      | Iceberg \<Rightarrow> Inl (NotPinnable (''iceberg table pinning requires an iceberg probe: '' @ src_uri src))
      | Glob \<Rightarrow> (case probe_for r (src_uri src) of
          None \<Rightarrow> Inl (NotPinnable (''no version probe for '' @ src_uri src))
        | Some p \<Rightarrow> (case probe_list p (src_uri src) of
            Inl e \<Rightarrow> Inl e
          | Inr [] \<Rightarrow> Inl (Unavailable (''glob matched no objects: '' @ src_uri src))
          | Inr obs \<Rightarrow> Inr obs))
      | Object \<Rightarrow> (case probe_for r (src_uri src) of
          None \<Rightarrow> Inl (NotPinnable (''no version probe for '' @ src_uri src))
        | Some p \<Rightarrow> map_sum id (\<lambda>ob. [ob]) (probe_head p (src_uri src))))"

fun pin_sources :: "manifest_resolver \<Rightarrow> sql_source list \<Rightarrow> input_resolve_error + pinned_object list" where
  "pin_sources r [] = Inr []"
| "pin_sources r (src # srcs) =
     (case pin_source r src of
        Inl e \<Rightarrow> Inl e
      | Inr obs \<Rightarrow> (case pin_sources r srcs of Inl e \<Rightarrow> Inl e | Inr obs2 \<Rightarrow> Inr (obs @ obs2)))"

definition resolve :: "crypto \<Rightarrow> manifest_resolver \<Rightarrow> string \<Rightarrow> input_resolve_error + input_snapshot option" where
  "resolve C r sql =
     (let parsed = parse_input_sources sql in
      if dynamic parsed then Inl (NotPinnable ''a data reader was given a non-literal (bind/variable) path'')
      else if sources parsed = [] then Inr None
      else map_sum id (\<lambda>obs. Some (from_objects C obs)) (pin_sources r (sources parsed)))"

section \<open>The fingerprint determines the manifest\<close>

interpretation opt_code: prefix_code opt_bytes "pred_option fits"
proof
  fix x y :: "string option" and r s :: bytes
  assume "pred_option fits x" "pred_option fits y" "opt_bytes x @ r = opt_bytes y @ s"
  then show "x = y \<and> r = s"
    by (cases x; cases y) (simp_all add: field_code.enc_append_inject)
qed

fun version_fits :: "object_version \<Rightarrow> bool" where
  "version_fits (S3 version etag sz) \<longleftrightarrow> pred_option fits version \<and> pred_option fits etag"
| "version_fits (Azure etag version) \<longleftrightarrow> pred_option fits etag \<and> pred_option fits version"
| "version_fits (Gcs generation) \<longleftrightarrow> True"
| "version_fits (ContentAddressed sha) \<longleftrightarrow> fits sha"
| "version_fits (Lakehouse format snap) \<longleftrightarrow> fits format \<and> fits snap"

lemma fingerprint_into_inject:
  assumes "version_fits v" "version_fits w"
  shows "fingerprint_into v = fingerprint_into w \<longleftrightarrow> v = w"
  using assms
  by (cases v; cases w)
    (auto simp: opt_code.enc_append_inject opt_code.enc_inject field_code.enc_append_inject field_code.enc_inject
      u64_code.enc_inject split: option.splits)

definition object_fits :: "pinned_object \<Rightarrow> bool" where
  "object_fits ob \<longleftrightarrow> fits (po_uri ob) \<and> fits (po_provider ob) \<and> version_fits (po_version ob) \<and>
     fits (fingerprint_into (po_version ob))"

interpretation object_code: prefix_code object_bytes object_fits
proof
  fix x y :: pinned_object and r s :: bytes
  assume f: "object_fits x" "object_fits y" and eq: "object_bytes x @ r = object_bytes y @ s"
  then have "po_uri x = po_uri y" "po_provider x = po_provider y"
    "fingerprint_into (po_version x) = fingerprint_into (po_version y)" "r = s"
    by (simp_all add: object_bytes_def object_fits_def field_code.enc_append_inject)
  with f show "x = y \<and> r = s"
    by (simp add: object_fits_def fingerprint_into_inject)
qed

definition manifest_fits :: "pinned_object list \<Rightarrow> bool" where
  "manifest_fits obs \<longleftrightarrow> fits obs \<and> list_all object_fits obs"

lemma fingerprint_preimage_inject:
  assumes "manifest_fits a" "manifest_fits b"
  shows "fingerprint_preimage a = fingerprint_preimage b \<longleftrightarrow> sort_key object_key a = sort_key object_key b"
proof
  assume eq: "fingerprint_preimage a = fingerprint_preimage b"
  have "sort_key object_key a = sort_key object_key b \<and> ([] :: bytes) = []"
    by (rule object_code.counted_inject)
      (use assms eq in \<open>simp_all add: manifest_fits_def fits_def fingerprint_preimage_def Let_def list_all_iff\<close>)
  then show "sort_key object_key a = sort_key object_key b" ..
qed (simp add: fingerprint_preimage_def)

lemma sort_key_distinct:
  assumes "mset xs = mset ys" "distinct (map k xs)"
  shows "sort_key k xs = sort_key k ys"
  by (rule sort_key_inj_key_eq) (use assms in \<open>simp_all add: distinct_map\<close>)

lemma sort_key_eq_imp_mset: "sort_key k xs = sort_key k ys \<Longrightarrow> mset xs = mset ys"
  by (metis mset_sort)

text \<open>
  The order of listing is forgotten only between objects of different name or provider: of two
  entries for the same object the sort keeps the order, so a listing that names an object twice with
  two versions has a fingerprint that depends on it.
\<close>

lemma fingerprint_order_dependent:
  assumes "inj_on (blake3_hash C) UNIV" "inj (hex_enc C)"
  shows "compute_fingerprint C [\<lparr>po_uri = ''u'', po_provider = ''s3'', po_version = Gcs None\<rparr>, \<lparr>po_uri = ''u'', po_provider = ''s3'', po_version = ContentAddressed ''h''\<rparr>] \<noteq>
    compute_fingerprint C [\<lparr>po_uri = ''u'', po_provider = ''s3'', po_version = ContentAddressed ''h''\<rparr>, \<lparr>po_uri = ''u'', po_provider = ''s3'', po_version = Gcs None\<rparr>]"
    (is "compute_fingerprint C ?a \<noteq> compute_fingerprint C ?b")
proof -
  have "manifest_fits ?a" "manifest_fits ?b" by (simp_all add: manifest_fits_def object_fits_def fits_def)
  then have "fingerprint_preimage ?a \<noteq> fingerprint_preimage ?b"
    by (simp add: fingerprint_preimage_inject object_key_def)
  then show ?thesis using assms by (simp add: compute_fingerprint_def inj_on_eq_iff inj_eq)
qed

section \<open>Literals\<close>

definition escape_quotes :: "string \<Rightarrow> string" where
  "escape_quotes v = concat (map (\<lambda>c. if c = quote then [quote, quote] else [c]) v)"

definition ascii :: "string \<Rightarrow> bool" where
  "ascii v \<longleftrightarrow> list_all (\<lambda>c. (of_char c :: nat) < 128) v"

lemma literal_body_escape:
  assumes "ascii v" "rest = [] \<or> hd rest \<noteq> quote"
  shows "literal_body (escape_quotes v @ quote # rest) = (v, length (escape_quotes v) + 1)"
  using assms
proof (induction v)
  case Nil
  then show ?case by (cases rest) (simp_all add: escape_quotes_def)
next
  case (Cons c v)
  then have ih: "literal_body (escape_quotes v @ quote # rest) = (v, length (escape_quotes v) + 1)"
    and c: "(of_char c :: nat) < 128" by (simp_all add: ascii_def)
  have esc: "escape_quotes (c # v) = (if c = quote then [quote, quote] else [c]) @ escape_quotes v"
    by (simp add: escape_quotes_def)
  show ?case
  proof (cases "c = quote")
    case True
    then show ?thesis unfolding esc using ih by simp
  next
    case False
    then show ?thesis unfolding esc using ih c by (simp add: push_byte_as_char_def)
  qed
qed

lemma literals_from_simple:
  "quote \<notin> set s \<Longrightarrow> literals_from i s = []"
  by (induction s arbitrary: i) auto

text \<open>A quoted literal between text without quotes is found where it is, with its value.\<close>

lemma string_literals_roundtrip:
  assumes "quote \<notin> set pre" "quote \<notin> set post" "ascii v"
  shows "string_literals (pre @ quote # escape_quotes v @ quote # post) = [\<lparr>lit_start = length pre, lit_value = v\<rparr>]"
proof -
  have "literals_from i (pre @ quote # escape_quotes v @ quote # post) = [\<lparr>lit_start = i + length pre, lit_value = v\<rparr>]" for i
    using assms(1)
  proof (induction pre arbitrary: i)
    case Nil
    have "post = [] \<or> hd post \<noteq> quote" using assms(2) by (cases post) auto
    note body = literal_body_escape [OF assms(3) this]
    have "drop (length (escape_quotes v) + 1) (escape_quotes v @ quote # post) = post" by simp
    then show ?case using literals_from_simple [OF assms(2)] by (simp add: body)
  next
    case (Cons c pre)
    then have "c \<noteq> quote" by auto
    with Cons show ?case by simp
  qed
  then show ?thesis by (simp add: string_literals_def)
qed

lemma first_literal_after_bound: "first_literal_after lits k = Some i \<Longrightarrow> i < length lits"
proof -
  assume "first_literal_after lits k = Some i"
  then obtain l rest where "sort_key (\<lambda>(i, l). lit_start l) (filter (\<lambda>(i, l). k \<le> lit_start l) (enumerate 0 lits)) = (i, l) # rest"
    by (auto simp: first_literal_after_def split: list.splits)
  then have "(i, l) \<in> set (enumerate 0 lits)"
    by (metis (no_types, lifting) list.set_intros(1) set_sort filter_is_subset subsetD)
  then show ?thesis by (simp add: in_set_enumerate_eq)
qed

section \<open>What the extraction claims\<close>

definition parse_inv :: "literal list \<Rightarrow> parse_state \<Rightarrow> bool" where
  "parse_inv lits = (\<lambda>(srcs, dyn, consumed). length consumed = length lits \<and>
     src_uri ` set srcs \<subseteq> lit_value ` set lits \<and>
     (\<forall>i<length lits. consumed ! i \<longrightarrow> lit_value (lits ! i) \<in> src_uri ` set srcs))"

lemma parse_inv_claims:
  assumes "parse_inv lits st"
  shows "parse_inv lits (claim_lakehouse lits kind call st)" "parse_inv lits (claim_reader lits call st)"
proof -
  obtain srcs dyn consumed where st: "st = (srcs, dyn, consumed)" by (cases st)
  show "parse_inv lits (claim_lakehouse lits kind call st)"
  proof (cases "first_literal_after lits call")
    case None
    with assms st show ?thesis by (simp add: parse_inv_def claim_lakehouse_def)
  next
    case (Some i)
    from first_literal_after_bound [OF this] assms st Some show ?thesis
      by (auto simp: parse_inv_def claim_lakehouse_def nth_list_update)
  qed
  show "parse_inv lits (claim_reader lits call st)"
  proof (cases "first_literal_after lits call")
    case None
    with assms st show ?thesis by (simp add: parse_inv_def claim_reader_def)
  next
    case (Some i)
    from first_literal_after_bound [OF this] assms st Some show ?thesis
      by (auto simp: parse_inv_def claim_reader_def literal_source_def nth_list_update)
  qed
qed

lemma fold_keeps: "(\<And>x s. P s \<Longrightarrow> P (f x s)) \<Longrightarrow> P s \<Longrightarrow> P (fold f xs s)"
  by (induction xs arbitrary: s) simp_all

lemma parse_loops_inv:
  assumes "parse_inv lits st"
  shows "parse_inv lits (fold (\<lambda>fname. fold (claim_reader lits) (g fname)) fs
     (fold (\<lambda>(fname, kind). fold (claim_lakehouse lits kind) (h fname)) ks st))"
proof (rule fold_keeps [where P = "parse_inv lits"])
  show "parse_inv lits (fold (claim_reader lits) (g x) s)" if "parse_inv lits s" for x s
    by (rule fold_keeps [where P = "parse_inv lits"]) (use that parse_inv_claims(2) in simp_all)
  show "parse_inv lits (fold (\<lambda>(fname, kind). fold (claim_lakehouse lits kind) (h fname)) ks st)"
  proof (rule fold_keeps [where P = "parse_inv lits"])
    fix x s assume inv: "parse_inv lits s"
    have "parse_inv lits (fold (claim_lakehouse lits (snd x)) (h (fst x)) s)"
      by (rule fold_keeps [where P = "parse_inv lits"]) (use inv parse_inv_claims(1) in simp_all)
    then show "parse_inv lits ((\<lambda>(fname, kind). fold (claim_lakehouse lits kind) (h fname)) x s)"
      by (simp add: case_prod_beta)
  qed (rule assms)
qed

lemma sorted_remdups_adj: "sorted (map f xs) \<Longrightarrow> sorted (map f (remdups_adj xs))"
  by (induction xs rule: remdups_adj.induct) auto

lemma claim_bare_set:
  "src_uri ` set (claim_bare consumed lits) =
     {lit_value (lits ! i) | i. i < length lits \<and> \<not> consumed ! i \<and> looks_like_object_uri (to_ascii_lowercase (lit_value (lits ! i)))}"
  unfolding claim_bare_def
  by (auto simp: in_set_enumerate_eq literal_source_def image_iff split: prod.splits)

text \<open>
  A reader called on a bind variable is not recognised as dynamic when any literal follows anywhere in
  the query: that literal is taken for its path.
\<close>

lemma bind_variable_mistaken_for_path:
  "parse_input_sources (''FROM read_parquet($1) WHERE c = '' @ [quote] @ ''x'' @ [quote]) =
     \<lparr>sources = [\<lparr>src_uri = ''x'', src_kind = Object\<rparr>], dynamic = False\<rparr>"
  by code_simp

text \<open>A byte outside ASCII is not read back as it was written.\<close>

lemma non_ascii_mangled: "lit_value (hd (string_literals [quote, CHR 0xC3, CHR 0xA9, quote])) \<noteq> [CHR 0xC3, CHR 0xA9]"
  by code_simp

lemma pin_sources_Inr:
  "pin_sources r srcs = Inr obs \<Longrightarrow>
     (\<forall>src\<in>set srcs. \<exists>os. pin_source r src = Inr os \<and> set os \<subseteq> set obs) \<and>
     (\<forall>ob\<in>set obs. \<exists>src\<in>set srcs. \<exists>os. pin_source r src = Inr os \<and> ob \<in> set os)"
proof (induction srcs arbitrary: obs)
  case Nil
  then show ?case by simp
next
  case (Cons src srcs)
  then obtain os obs2 where o: "pin_source r src = Inr os" "pin_sources r srcs = Inr obs2" "obs = os @ obs2"
    by (auto split: sum.splits)
  from Cons.IH [OF o(2)] o(1,3) show ?case by fastforce
qed

lemma map_sum_Inr: "map_sum f g x = Inr y \<longleftrightarrow> (\<exists>z. x = Inr z \<and> y = g z)"
  by (cases x) auto

lemma pin_source_nonempty: "pin_source r src = Inr os \<Longrightarrow> os \<noteq> []"
  by (auto simp: map_sum_Inr pin_source_def pin_delta_table_def Let_def split: source_kind.splits option.splits sum.splits list.splits)

section \<open>Properties\<close>

text \<open>
  C40: The fingerprint is exact. Two manifests that name every object once have the same fingerprint
  precisely when they pin the same objects at the same versions, in whatever order they were listed.
  The hypotheses are injectivity of the digest on the two preimages and of the hex encoding, and that
  sizes fit their 64-bit prefixes.
\<close>

theorem fingerprint_exact:
  assumes "manifest_fits a" "manifest_fits b" "distinct (map object_key a)" "distinct (map object_key b)"
    and "inj_on (blake3_hash C) {fingerprint_preimage a, fingerprint_preimage b}" "inj (hex_enc C)"
  shows "compute_fingerprint C a = compute_fingerprint C b \<longleftrightarrow> set a = set b"
proof -
  have "compute_fingerprint C a = compute_fingerprint C b \<longleftrightarrow> fingerprint_preimage a = fingerprint_preimage b"
    unfolding compute_fingerprint_def inj_eq [OF assms(6)] by (rule inj_on_eq_iff [OF assms(5)]) simp_all
  also have "\<dots> \<longleftrightarrow> sort_key object_key a = sort_key object_key b"
    by (rule fingerprint_preimage_inject [OF assms(1,2)])
  also have "\<dots> \<longleftrightarrow> mset a = mset b"
    using sort_key_distinct [OF _ assms(3)] sort_key_eq_imp_mset by blast
  also have "\<dots> \<longleftrightarrow> set a = set b"
    using assms(3,4) by (metis distinct_map set_eq_iff_mset_eq_distinct)
  finally show ?thesis .
qed

text \<open>
  The extraction of sources never invents one and misses no object literal. Every source is the
  value of a string literal of the query; every literal that looks like a data object is a source; and
  the sources are listed in order.
\<close>

theorem sources_exact:
  "src_uri ` set (sources (parse_input_sources sql)) \<subseteq> lit_value ` set (string_literals sql) \<and>
   {v \<in> lit_value ` set (string_literals sql). looks_like_object_uri (to_ascii_lowercase v)} \<subseteq>
     src_uri ` set (sources (parse_input_sources sql)) \<and>
   sorted (map src_uri (sources (parse_input_sources sql)))"
proof -
  let ?l = "string_literals sql"
  obtain srcs dyn consumed where st: "fold (\<lambda>fname. fold (claim_reader ?l) (fn_call_offsets (to_ascii_lowercase sql) fname)) READER_FNS
      (fold (\<lambda>(fname, kind). fold (claim_lakehouse ?l kind) (fn_call_offsets (to_ascii_lowercase sql) fname))
        [(''delta_scan'', Delta), (''iceberg_scan'', Iceberg)] ([], False, replicate (length ?l) False)) = (srcs, dyn, consumed)"
    by (rule prod_cases3)
  have "parse_inv ?l ([], False, replicate (length ?l) False)" by (simp add: parse_inv_def)
  from parse_loops_inv [OF this, of "fn_call_offsets (to_ascii_lowercase sql)" READER_FNS
      "fn_call_offsets (to_ascii_lowercase sql)" "[(''delta_scan'', Delta), (''iceberg_scan'', Iceberg)]"]
  have inv: "src_uri ` set srcs \<subseteq> lit_value ` set ?l"
    "\<And>i. i < length ?l \<Longrightarrow> consumed ! i \<Longrightarrow> lit_value (?l ! i) \<in> src_uri ` set srcs"
    unfolding st by (simp_all add: parse_inv_def)
  have src: "sources (parse_input_sources sql) = remdups_adj (sort_key src_uri (srcs @ claim_bare consumed ?l))"
    unfolding parse_input_sources_def Let_def st by simp
  have set: "src_uri ` set (sources (parse_input_sources sql)) = src_uri ` set srcs \<union> src_uri ` set (claim_bare consumed ?l)"
    unfolding src by (simp add: image_Un)
  have "src_uri ` set srcs \<union> src_uri ` set (claim_bare consumed ?l) \<subseteq> lit_value ` set ?l"
    using inv(1) unfolding claim_bare_set by auto
  moreover have "v \<in> src_uri ` set srcs \<union> src_uri ` set (claim_bare consumed ?l)"
    if "v \<in> lit_value ` set ?l" "looks_like_object_uri (to_ascii_lowercase v)" for v
  proof -
    from that(1) obtain i where i: "i < length ?l" "v = lit_value (?l ! i)" by (auto simp: in_set_conv_nth)
    show ?thesis using inv(2) [OF i(1)] i that(2) unfolding claim_bare_set by (cases "consumed ! i") auto
  qed
  moreover have "sorted (map src_uri (sources (parse_input_sources sql)))"
    unfolding src by (rule sorted_remdups_adj) simp
  ultimately show ?thesis unfolding set by blast
qed

theorem fingerprint_exact_witness:
  "\<exists>C. compute_fingerprint C [\<lparr>po_uri = ''a'', po_provider = ''s3'', po_version = Gcs None\<rparr>, \<lparr>po_uri = ''b'', po_provider = ''s3'', po_version = Gcs None\<rparr>] =
      compute_fingerprint C [\<lparr>po_uri = ''b'', po_provider = ''s3'', po_version = Gcs None\<rparr>, \<lparr>po_uri = ''a'', po_provider = ''s3'', po_version = Gcs None\<rparr>] \<and>
    compute_fingerprint C [\<lparr>po_uri = ''a'', po_provider = ''s3'', po_version = Gcs None\<rparr>] \<noteq>
      compute_fingerprint C [\<lparr>po_uri = ''a'', po_provider = ''s3'', po_version = Gcs (Some 1)\<rparr>]"
proof -
  let ?C = "toy_crypto (\<lambda>_. True)"
  have C: "inj (hex_enc ?C)" "inj_on (blake3_hash ?C) A" for A by (simp_all add: toy_crypto_def inj_of_bytes)
  note exact = fingerprint_exact [OF _ _ _ _ C(2) C(1)]
  note fit = manifest_fits_def object_fits_def fits_def object_key_def
  show ?thesis
    by (rule exI [of _ ?C], subst (1 2) exact) (auto simp: fit)
qed

text \<open>
  A snapshot that the resolver returns pins the query. No reader had a path that is not a literal,
  its fingerprint is that of its objects, every source of the query was pinned to at least one object
  of the snapshot, and every object of it was pinned for a source.
\<close>

theorem resolved_snapshot_pins:
  assumes "resolve C r sql = Inr (Some snap)"
  shows "\<not> dynamic (parse_input_sources sql) \<and> fingerprint snap = compute_fingerprint C (objects snap) \<and>
    (\<forall>src\<in>set (sources (parse_input_sources sql)).
       \<exists>os. pin_source r src = Inr os \<and> os \<noteq> [] \<and> set os \<subseteq> set (objects snap)) \<and>
    (\<forall>ob\<in>set (objects snap). \<exists>src\<in>set (sources (parse_input_sources sql)).
       \<exists>os. pin_source r src = Inr os \<and> ob \<in> set os)"
proof -
  from assms obtain obs where "\<not> dynamic (parse_input_sources sql)" and o: "pin_sources r (sources (parse_input_sources sql)) = Inr obs"
    "snap = from_objects C obs"
    by (auto simp: resolve_def Let_def map_sum_Inr split: if_splits)
  moreover from pin_sources_Inr [OF o(1)] pin_source_nonempty
  have "\<forall>src\<in>set (sources (parse_input_sources sql)). \<exists>os. pin_source r src = Inr os \<and> os \<noteq> [] \<and> set os \<subseteq> set obs"
    by blast
  ultimately show ?thesis using pin_sources_Inr [OF o(1)] by (simp add: from_objects_def Let_def)
qed

definition toy_probe :: version_probe where
  "toy_probe = \<lparr>probe_head = (\<lambda>u. Inr \<lparr>po_uri = u, po_provider = ''s3'', po_version = Gcs (Some 7)\<rparr>), probe_list = (\<lambda>u. Inr [])\<rparr>"

definition toy_resolver :: manifest_resolver where
  "toy_resolver = \<lparr>probes = [(''s3'', toy_probe)], delta_latest_version = (\<lambda>d. None)\<rparr>"

theorem resolved_snapshot_pins_witness:
  "\<exists>C snap. resolve C toy_resolver (''FROM '' @ [quote] @ ''s3://b/k.csv'' @ [quote]) = Inr (Some snap) \<and>
     fingerprint snap = compute_fingerprint C (objects snap)"
proof -
  let ?q = "''FROM '' @ [quote] @ ''s3://b/k.csv'' @ [quote]"
  have p: "parse_input_sources ?q = \<lparr>sources = [\<lparr>src_uri = ''s3://b/k.csv'', src_kind = Object\<rparr>], dynamic = False\<rparr>"
    by code_simp
  have "pin_source toy_resolver \<lparr>src_uri = ''s3://b/k.csv'', src_kind = Object\<rparr> =
      Inr [\<lparr>po_uri = ''s3://b/k.csv'', po_provider = ''s3'', po_version = Gcs (Some 7)\<rparr>]" by code_simp
  then obtain snap where r: "resolve (toy_crypto (\<lambda>_. True)) toy_resolver ?q = Inr (Some snap)"
    unfolding resolve_def p by simp
  with resolved_snapshot_pins [OF r] show ?thesis by blast
qed

end
