(* ===== verification/Dispatch.thy ===== *)
theory Dispatch
  imports Resilience Ranking Worker Inputs
begin

text \<open>
  One dispatch attempt of the coordinator, \<open>dispatch_attempt\<close> of \<open>node/src/coordinator.rs\<close>: pinning,
  candidate filter, offers and bids, eligibility and ranking, the escrow preflight, collection of commits,
  the verification decision, the verdicts and what they cost, settlement and fines. The network, the
  clock, the canary catalogue, the liveness view and the serialisation of results are arguments;
  everything the coordinator itself decides or stores is a definition. Result transfer is one argument:
  the winner's result, if it arrives.
\<close>

section \<open>Candidates\<close>

datatype id_provenance = Pinned | Advertised | Tofu

definition is_verified :: "id_provenance \<Rightarrow> bool" where
  "is_verified p \<longleftrightarrow> p = Pinned \<or> p = Advertised"

record candidate =
  ca_node_id :: "string option"
  ca_provenance :: id_provenance
  ca_addr :: string
  ca_networks :: "string list"
  ca_groups :: "string list"
  ca_region :: "string option"

record candidate_filter =
  cf_data_class :: job_class
  cf_min_attestation :: attestation_level
  cf_network :: "string option"
  cf_groups :: "string list"
  cf_regions :: "string list"
  cf_fail_closed_labels :: bool
  cf_nodes :: "string list"

definition admits_labels :: "candidate_filter \<Rightarrow> candidate \<Rightarrow> bool" where
  "admits_labels f c =
     (if cf_nodes f \<noteq> [] \<and> \<not> (case ca_node_id c of Some i \<Rightarrow> i \<in> set (cf_nodes f) | None \<Rightarrow> False) then False
      else if (case cf_network f of
                 Some net \<Rightarrow> if ca_networks c = [] then cf_fail_closed_labels f else net \<notin> set (ca_networks c)
               | None \<Rightarrow> False) then False
      else if ca_groups c \<noteq> [] \<and> \<not> list_ex (\<lambda>g. g \<in> set (cf_groups f)) (ca_groups c) then False
      else if ca_groups c = [] \<and> cf_fail_closed_labels f \<and> cf_groups f \<noteq> [] then False
      else if cf_regions f \<noteq> [] \<and> \<not> (case ca_region c of Some r \<Rightarrow> r \<in> set (cf_regions f) | None \<Rightarrow> False) then False
      else True)"

section \<open>Configuration, wiring and state\<close>

record request_scope =
  sc_network :: "string option"
  sc_groups :: "string list"
  sc_regions :: "string list"
  sc_group_proof :: "string option"
  sc_nodes :: "string list"

record antiabuse_config =
  aa_enabled :: bool
  aa_auto_block_enabled :: bool
  aa_auto_block_trust_floor :: real
  aa_fault_attribution_enabled :: bool
  aa_job_consensus_fraction :: real
  aa_nondeterminism_enabled :: bool
  aa_requester_trust_enabled :: bool
  aa_age_saturation :: nat
  aa_negative_floor_weight :: real

definition fault_attribution_active :: "antiabuse_config \<Rightarrow> bool" where
  "fault_attribution_active ab \<longleftrightarrow> aa_enabled ab \<and> aa_fault_attribution_enabled ab"

definition nondeterminism_active :: "antiabuse_config \<Rightarrow> bool" where
  "nondeterminism_active ab \<longleftrightarrow> aa_enabled ab \<and> aa_nondeterminism_enabled ab"

definition requester_trust_active :: "antiabuse_config \<Rightarrow> bool" where
  "requester_trust_active ab \<longleftrightarrow> aa_enabled ab \<and> aa_requester_trust_enabled ab"

text \<open>What an attempt reads of the configuration; \<open>base_incorrect_penalty\<close> is read of the base configuration.\<close>

record grid_config =
  gc_scheduler :: scheduler_config
  gc_rank :: rank_config
  gc_economics :: economics
  gc_antiabuse :: antiabuse_config
  gc_private :: bool
  gc_min_trust :: real
  base_incorrect_penalty :: real
  gc_sybil_min_stake :: nat
  gc_region_attested :: bool
  gc_region_issuers :: "(string, string) hmap"
  gc_spill_tolerance_bytes :: nat
  gc_metering_tolerance :: real
  slash_failed_commitment_pct :: real
  candidate_sample_size :: nat
  gc_per_job_memory_bytes :: nat
  gc_per_job_threads :: nat
  gc_max_spill_bytes :: nat

text \<open>What the coordinator mutates: trust, the deny-list, bonded stake, and the rail and anchor.\<close>

record ('s, 'a) coordinator =
  co_trust :: trust_store
  co_blocklist :: "blocklist option"
  co_stake_registry :: "stake_state option"
  co_pay :: "'s \<times> 'a"

text \<open>A frame read from a dispatch stream; \<open>FBroken\<close> is any other frame, a read error or a stall.\<close>

datatype frame = FProgress progress | FCommit result_commit | FAck bool string | FBroken

text \<open>
  What an attempt cannot determine. \<open>offer_to\<close> connects to a candidate and returns the authenticated
  peer and its bid; \<open>frames_of\<close> is what the stream of the n-th selected worker delivers before the attempt
  deadline, \<open>None\<close> when no stream could be opened; \<open>transfer_of\<close> is the result the winner streams;
  \<open>fmt_f64\<close> prints a float.
\<close>

record ('s, 'a) dispatch_env =
  dv_crypto :: crypto
  dv_identity :: signer
  dv_json :: evidence_json
  token_of_json :: "string \<Rightarrow> capability_token option"
  dv_verifier :: "allowlist_verifier option"
  dv_payment :: "('s, 'a) pay_env"
  dv_bindings :: "(string \<times> string) list option"
  resolve_inputs :: "(string \<Rightarrow> input_resolve_error + input_snapshot option) option"
  find_candidates :: "nat \<Rightarrow> candidate_filter \<Rightarrow> candidate list"
  proven_capacity :: "string \<Rightarrow> capability_profile option"
  liveness_excluded :: "(string \<Rightarrow> bool) option"
  offer_nonce :: u64
  offer_to :: "candidate \<Rightarrow> offer \<Rightarrow> (string \<times> wire_bid) option"
  frames_of :: "nat \<Rightarrow> string \<Rightarrow> dispatch \<Rightarrow> frame list option"
  transfer_of :: "string \<Rightarrow> result_set option"
  result_len :: "result_set \<Rightarrow> nat option"
  canary_expected :: "string \<Rightarrow> string option"
  dv_now :: nat
  blocklist_io :: bool
  fmt_f64 :: "real \<Rightarrow> string"

record job =
  jb_sql :: string
  jb_job_id :: string
  jb_query_hash :: string
  jb_paid :: bool
  jb_min_level :: attestation_level
  jb_class :: job_class
  jb_scope :: request_scope
  jb_input_bytes :: "nat option"
  jb_peak_bytes :: "nat option"

record query_outcome =
  qo_job_id :: string
  qo_result :: result_set
  qo_agreed_hash :: "string option"
  qo_agreement :: nat
  qo_quorum :: nat
  qo_verified :: bool
  qo_winner :: "string option"
  qo_participants :: "string list"
  qo_receipts :: "receipt list"
  qo_executed_locally :: bool

definition rank_view_of :: "('s, 'a) dispatch_env \<Rightarrow> ('s, 'a) coordinator \<Rightarrow> rank_view" where
  "rank_view_of env co = \<lparr>rv_trust = co_trust co, rv_stake_factor = map_option mock_stake_factor (co_stake_registry co),
     rv_bindings = dv_bindings env\<rparr>"

section \<open>Candidates and bids\<close>

text \<open>The closure of \<open>candidates.retain\<close>.\<close>

definition keep_candidate ::
    "grid_config \<Rightarrow> ('s, 'a) dispatch_env \<Rightarrow> ('s, 'a) coordinator \<Rightarrow> candidate_filter \<Rightarrow> string set \<Rightarrow> nat \<Rightarrow> candidate \<Rightarrow> bool" where
  "keep_candidate cfg env co flt ex scanned c =
     (if \<not> admits_labels flt c then False
      else let staked_only = require_staked_hosts (gc_scheduler cfg);
               gates_on = (staked_only \<or> 0 < gc_sybil_min_stake cfg)
      in if gates_on \<and> \<not> is_verified (ca_provenance c) then False
      else case ca_node_id c of
        Some i \<Rightarrow>
          if aa_enabled (gc_antiabuse cfg) \<and> (case co_blocklist co of Some bl \<Rightarrow> is_blocked i bl | None \<Rightarrow> False) then False
          else if i \<in> ex then False
          else if 0 < scanned \<and> \<not> proven_capacity_admits (proven_capacity env i) scanned then False
          else if (case liveness_excluded env of Some f \<Rightarrow> f i | None \<Rightarrow> False) then False
          else if staked_only \<and> \<not> (case co_stake_registry co of Some r \<Rightarrow> 0 < stake_of r i | None \<Rightarrow> False) then False
          else if 0 < gc_sybil_min_stake cfg \<and>
            (case co_stake_registry co of Some r \<Rightarrow> stake_of r i | None \<Rightarrow> 0) < gc_sybil_min_stake cfg * TON_NANOTON then False
          else True
      | None \<Rightarrow> \<not> staked_only \<and> gc_sybil_min_stake cfg = 0)"

definition job_filter :: "grid_config \<Rightarrow> job \<Rightarrow> candidate_filter" where
  "job_filter cfg j = \<lparr>cf_data_class = jb_class j, cf_min_attestation = jb_min_level j,
     cf_network = sc_network (jb_scope j), cf_groups = sc_groups (jb_scope j), cf_regions = sc_regions (jb_scope j),
     cf_fail_closed_labels = gc_private cfg, cf_nodes = sc_nodes (jb_scope j)\<rparr>"

definition job_offer :: "('s, 'a) dispatch_env \<Rightarrow> job \<Rightarrow> string option \<Rightarrow> offer" where
  "job_offer env j fp = \<lparr>of_job_id = jb_job_id j, of_requester_id = node_id (dv_identity env),
     of_query_hash = jb_query_hash j, of_cost_hint_rows = None, of_cost_hint_bytes = jb_input_bytes j,
     of_data_class = jb_class j, of_nonce = offer_nonce env, of_network = sc_network (jb_scope j),
     of_groups = sc_groups (jb_scope j), of_regions = sc_regions (jb_scope j),
     of_group_proof = sc_group_proof (jb_scope j), of_input_fingerprint_hint = fp\<rparr>"

definition accepted_bids :: "('s, 'a) dispatch_env \<Rightarrow> offer \<Rightarrow> candidate list \<Rightarrow> (string \<times> wire_bid) list" where
  "accepted_bids env ofr cs =
     filter (\<lambda>(w, b). wb_decision b = Accept) (List.map_filter (\<lambda>c. offer_to env c ofr) cs)"

section \<open>Eligibility and ranking\<close>

definition attestation_bound_pub :: "crypto \<Rightarrow> evidence_json \<Rightarrow> attestation \<Rightarrow> bytes option" where
  "attestation_bound_pub C J att =
     (case ev_from_slice J (at_evidence att) of None \<Rightarrow> None | Some ev \<Rightarrow> decode32 C (ev_bound_pub_hex ev))"

definition verified_attestation_level :: "('s, 'a) dispatch_env \<Rightarrow> attestation \<Rightarrow> bytes \<Rightarrow> attestation_level" where
  "verified_attestation_level env att nonce =
     (if at_level att \<le> L0 then at_level att
      else case dv_verifier env of
        Some v \<Rightarrow>
          let bound = (case attestation_bound_pub (dv_crypto env) (dv_json env) att of Some b \<Rightarrow> b | None \<Rightarrow> replicate 32 0)
          in (case attest_verify (dv_crypto env) (dv_json env) v att nonce bound of Inr _ \<Rightarrow> at_level att | Inl e \<Rightarrow> L0)
      | None \<Rightarrow> L0)"

definition region_proof_ok ::
    "('s, 'a) dispatch_env \<Rightarrow> string \<Rightarrow> wire_bid \<Rightarrow> string list \<Rightarrow> (string, string) hmap \<Rightarrow> bool" where
  "region_proof_ok env w b regions issuers =
     (case wb_region_proof b of
        None \<Rightarrow> False
      | Some proof \<Rightarrow> (case token_of_json env proof of
          None \<Rightarrow> False
        | Some token \<Rightarrow> list_ex (\<lambda>region. case hget issuers region of
              None \<Rightarrow> False
            | Some issuer_hex \<Rightarrow> (case decode32 (dv_crypto env) issuer_hex of
                None \<Rightarrow> False
              | Some issuer \<Rightarrow> (case verify_region_attestation (dv_crypto env) token issuer region (of_nat (dv_now env)) of
                  Inl e \<Rightarrow> False
                | Inr holder \<Rightarrow> from_pubkey (dv_crypto env) holder = w))) regions))"

text \<open>The four filters before the trust floor.\<close>

definition passes_floors ::
    "grid_config \<Rightarrow> ('s, 'a) dispatch_env \<Rightarrow> job \<Rightarrow> nat \<Rightarrow> string \<Rightarrow> wire_bid \<Rightarrow> bool" where
  "passes_floors cfg env j cap_floor w b \<longleftrightarrow>
     attestation_gate (verified_attestation_level env (wb_attestation b) (le_bytes 8 (offer_nonce env))) (jb_min_level j) \<and>
     (\<not> gc_region_attested cfg \<or> sc_regions (jb_scope j) = [] \<or>
      region_proof_ok env w b (sc_regions (jb_scope j)) (gc_region_issuers cfg)) \<and>
     (let peak = (case jb_peak_bytes j of Some p \<Rightarrow> p | None \<Rightarrow> 0) in
      peak = 0 \<or> advertised_capacity_admits (wb_free_mem_bytes b) (proven_capacity env w) peak (gc_spill_tolerance_bytes cfg)) \<and>
     (cap_floor = 0 \<or> wb_free_mem_bytes b = 0 \<or> cap_floor < wb_free_mem_bytes b)"

text \<open>The trust floor, with the auto-block as its side effect.\<close>

definition auto_block :: "grid_config \<Rightarrow> bool" where
  "auto_block cfg \<longleftrightarrow> aa_enabled (gc_antiabuse cfg) \<and> aa_auto_block_enabled (gc_antiabuse cfg) \<and>
     0 < aa_auto_block_trust_floor (gc_antiabuse cfg)"

fun trust_floor ::
    "grid_config \<Rightarrow> ('s, 'a) dispatch_env \<Rightarrow> bool \<Rightarrow> (string \<times> wire_bid) list \<Rightarrow> ('s, 'a) coordinator \<Rightarrow>
      (string \<times> wire_bid \<times> real) list \<times> ('s, 'a) coordinator" where
  "trust_floor cfg env paid [] co = ([], co)"
| "trust_floor cfg env paid ((w, b) # wbs) co =
     (let t = effective_trust (gc_rank cfg) (rank_view_of env co) w (dv_now env) paid;
          co = (if auto_block cfg \<and> t < aa_auto_block_trust_floor (gc_antiabuse cfg)
                then co\<lparr>co_blocklist := map_option (block (blocklist_io env) (dv_now env) w NodeIdKind
                       ''auto-block: trust below floor'' ''auto'') (co_blocklist co)\<rparr>
                else co);
          (rest, co) = trust_floor cfg env paid wbs co
      in (if t < gc_min_trust cfg then rest else (w, b, t) # rest, co))"

definition bid_by_node :: "(string \<times> wire_bid \<times> real) list \<Rightarrow> (string, wire_bid) hmap" where
  "bid_by_node el = fold (\<lambda>(w, b, t). hput w b) el []"

definition bid_of :: "wire_bid \<Rightarrow> bid" where
  "bid_of b = bid.truncate b"

definition cap_hint :: "grid_config \<Rightarrow> ('s, 'a) dispatch_env \<Rightarrow> string \<Rightarrow> nat" where
  "cap_hint cfg env w =
     (if 0 < capability_weight (ranking (gc_rank cfg))
      then (case proven_capacity env w of Some p \<Rightarrow> cp_max_input_bytes p | None \<Rightarrow> 0) else 0)"

text \<open>Scores, highest first; then the shorter estimate; then the larger hint. \<open>sort_by\<close> is stable.\<close>

definition score_bids ::
    "grid_config \<Rightarrow> ('s, 'a) dispatch_env \<Rightarrow> ('s, 'a) coordinator \<Rightarrow> bool \<Rightarrow> (string \<times> wire_bid \<times> real) list \<Rightarrow>
      (string \<times> real \<times> nat) list" where
  "score_bids cfg env co paid el =
     (let prices = map (\<lambda>(w, b, t). bid_price_signal (bid_of b)) el;
          pmin = fold min prices u64_max; pmax = fold max prices 0;
          scored = map (\<lambda>(w, b, t).
            (w, selection_score (gc_rank cfg) (rank_view_of env co) w t
                  (normalize_price (bid_price_signal (bid_of b)) pmin pmax) (dv_now env) paid, wb_eta_ms b)) el
      in take (replicas (gc_scheduler cfg))
           (sort_key (\<lambda>(w, score, eta). (- score, eta, - int (cap_hint cfg env w))) scored))"

section \<open>Escrow preflight\<close>

text \<open>The texts of \<open>SettleError\<close>; the multiplication sign is two bytes.\<close>

fun settle_message :: "(real \<Rightarrow> string) \<Rightarrow> settle_error \<Rightarrow> string" where
  "settle_message fmt (NotFunded j) = ''escrow not funded for job '' @ j"
| "settle_message fmt (PayoutExceedsEscrow p e) = ''payout '' @ show_nat p @ '' exceeds escrow '' @ show_nat e"
| "settle_message fmt (Settlement.InsufficientEscrow needed available runners fee_bps comm_bps) =
     ''insufficient escrow: need '' @ fmt (real needed / 1000000000) @ '' TON to cover winner + '' @
     fmt (real fee_bps / 100) @ ''% platform fee + '' @ fmt (real comm_bps / 100) @ ''% commission '' @
     map char_of [195 :: nat, 151] @ '' '' @ show_nat runners @ '' runners, have '' @
     fmt (real available / 1000000000) @ '' TON''"
| "settle_message fmt HashMismatch = ''result hash does not match the escrow lock''"
| "settle_message fmt (TreasuryMismatch bnd expd v) =
     ''fee recipient mismatch: escrow treasury '' @ bnd @ '' != on-chain GlobalParams.fee_recipient '' @ expd @
     '' (params_version '' @ show_nat v @ '')''"
| "settle_message fmt (SettleBackend e) = ''settlement backend error: '' @ e"
| "settle_message fmt (Disabled e) = ''settlement is disabled (free job): '' @ e"
| "settle_message fmt (TxFailed c) = ''on-chain transaction failed (compute/action exit code '' @ show_int c @ '')''"
| "settle_message fmt TxUnconfirmed = ''on-chain transaction not confirmed within the deadline''"

definition worst_cap_base :: "nat \<Rightarrow> (string, wire_bid) hmap \<Rightarrow> (string \<times> real \<times> nat) list \<Rightarrow> amount" where
  "worst_cap_base bytes bids scored =
     fold max (List.map_filter (\<lambda>(w, _, _). case hget bids w of
         None \<Rightarrow> None | Some b \<Rightarrow> map_option (\<lambda>t. cap_base t bytes) (from_bid (bid_of b))) scored) 0"

definition escrow_preflight ::
    "grid_config \<Rightarrow> ('s, 'a) dispatch_env \<Rightarrow> job \<Rightarrow> (string, wire_bid) hmap \<Rightarrow> (string \<times> real \<times> nat) list \<Rightarrow> string option" where
  "escrow_preflight cfg env j bids scored =
     (let e = gc_economics cfg in
      if jb_paid j \<and> enabled e \<and> 0 < pricing_max_bid e
      then let worst = worst_cap_base (case jb_input_bytes j of Some b \<Rightarrow> b | None \<Rightarrow> 0) bids scored in
           if 0 < worst
           then let fee_bps = as_u16 (to_bps (platform_fee_pct e));
                    comm_bps = as_u16 (to_bps (participation_commission_frac e));
                    max_escrow = sat_mul u128_max (pricing_max_bid e) TON_NANOTON
                in (case ensure_escrow_covers max_escrow worst (length scored - 1) fee_bps comm_bps of
                      Inr _ \<Rightarrow> None
                    | Inl err \<Rightarrow> Some (settle_message (fmt_f64 env) err))
           else None
      else None)"

section \<open>Credentials\<close>

text \<open>The scope of a storage credential: the common prefix of the pinned objects up to its last slash.\<close>

fun common_prefix :: "string \<Rightarrow> string \<Rightarrow> string" where
  "common_prefix (x # xs) (y # ys) = (if x = y then x # common_prefix xs ys else [])"
| "common_prefix _ _ = []"

definition up_to_last_slash :: "string \<Rightarrow> string" where
  "up_to_last_slash p = (if CHR ''/'' \<in> set p then rev (dropWhile (\<lambda>c. c \<noteq> CHR ''/'') (rev p)) else p)"

definition credential_prefix :: "input_snapshot \<Rightarrow> string" where
  "credential_prefix snap =
     (case map po_uri (objects snap) of
        [] \<Rightarrow> []
      | first # uris \<Rightarrow> up_to_last_slash (fold (\<lambda>u p. common_prefix p u) uris first))"

datatype credential_mode = Presigned | ScopedSecret | Sealed

text \<open>The credential prefix handed out, if any, and the signed inputs; \<open>presign\<close> and \<open>issuer\<close> are the wired providers.\<close>

definition job_access ::
    "credential_mode \<Rightarrow> (string \<Rightarrow> string option) option \<Rightarrow> bool \<Rightarrow> input_snapshot option \<Rightarrow> string option \<times> (string \<times> string) list" where
  "job_access mode presign issuer snap =
     (case mode of
        Presigned \<Rightarrow> (None, (case (presign, snap) of
            (Some p, Some s) \<Rightarrow> List.map_filter (\<lambda>ob. map_option (\<lambda>url. (po_uri ob, url)) (p (po_uri ob))) (objects s)
          | _ \<Rightarrow> []))
      | _ \<Rightarrow> ((if issuer
               then let pre = (case snap of Some s \<Rightarrow> credential_prefix s | None \<Rightarrow> []) in if pre = [] then None else Some pre
               else None), []))"

section \<open>Dispatch and collection\<close>

definition job_dispatch :: "grid_config \<Rightarrow> job \<Rightarrow> string option \<Rightarrow> nat option \<Rightarrow> dispatch" where
  "job_dispatch cfg j fp cap_ms = \<lparr>di_job_id = jb_job_id j, di_sql = jb_sql j,
     di_memory_limit_bytes = gc_per_job_memory_bytes cfg, di_threads = gc_per_job_threads cfg,
     di_max_spill_bytes = gc_max_spill_bytes cfg, di_input_fingerprint = fp, di_cap_deadline_ms = cap_ms\<rparr>"

definition cap_ms_of :: "(string, wire_bid) hmap \<Rightarrow> string \<Rightarrow> nat option" where
  "cap_ms_of bids w =
     (case hget bids w of
        None \<Rightarrow> None
      | Some b \<Rightarrow> map_option (\<lambda>t. sat_mul u64_max (cap_seconds t) 1000) (from_bid (bid_of b)))"

record inflight =
  if_worker :: string
  if_hash :: string
  if_latency_ms :: nat
  if_fingerprint :: string

datatype collected = Committed inflight | Failed string string | Silent string

text \<open>The read loop; when the frames end, the attempt deadline has passed.\<close>

fun collect_frames :: "string \<Rightarrow> frame list \<Rightarrow> progress list \<times> collected" where
  "collect_frames w [] = ([], Silent w)"
| "collect_frames w (FProgress p # fs) = (let (ps, c) = collect_frames w fs in (p # ps, c))"
| "collect_frames w (FCommit c # fs) = ([], Committed \<lparr>if_worker = w, if_hash = commit_key.result_hash c,
     if_latency_ms = rc_latency_ms c, if_fingerprint = commit_key.input_fingerprint c\<rparr>)"
| "collect_frames w (FAck ok detail # fs) = ([], if ok then Silent w else Failed w detail)"
| "collect_frames w (FBroken # fs) = ([], Silent w)"

definition collect_one :: "('s, 'a) dispatch_env \<Rightarrow> nat \<Rightarrow> string \<Rightarrow> dispatch \<Rightarrow> progress list \<times> collected" where
  "collect_one env n w d = (case frames_of env n w d of None \<Rightarrow> ([], Silent w) | Some fs \<Rightarrow> collect_frames w fs)"

definition inflight_of :: "collected list \<Rightarrow> inflight list" where
  "inflight_of cs = List.map_filter (\<lambda>c. case c of Committed f \<Rightarrow> Some f | _ \<Rightarrow> None) cs"

definition failed_of :: "collected list \<Rightarrow> (string \<times> verdict \<times> string) list" where
  "failed_of cs = List.map_filter (\<lambda>c. case c of Failed w d \<Rightarrow> Some (w, classify_failure d, d) | _ \<Rightarrow> None) cs"

definition silent_of :: "collected list \<Rightarrow> string list" where
  "silent_of cs = List.map_filter (\<lambda>c. case c of Silent w \<Rightarrow> Some w | _ \<Rightarrow> None) cs"

section \<open>The decision\<close>

definition PREFIXES :: "string list" where
  "PREFIXES = [''exec error: '', ''execution failed: '', ''query rejected by lockdown policy: '', ''query: '',
     ''prepare: '', ''fetch: '']"

text \<open>Each pass strips the first prefix of the table that matches, and leading space after it.\<close>

function strip_wrappers :: "string \<Rightarrow> string" where
  "strip_wrappers s =
     (case find (\<lambda>p. prefix p s) PREFIXES of
        None \<Rightarrow> s
      | Some p \<Rightarrow> strip_wrappers (trim_start (drop (length p) s)))"
  by pat_completeness auto

termination
proof (relation "measure length")
  fix s p
  assume f: "find (\<lambda>p. prefix p s) PREFIXES = Some p"
  then have "p \<in> set PREFIXES" "prefix p s" by (auto simp: find_Some_iff in_set_conv_nth)
  then have "0 < length p" "length p \<le> length s" by (auto simp: PREFIXES_def prefix_length_le)
  moreover have "length (trim_start (drop (length p) s)) \<le> length (drop (length p) s)"
    unfolding trim_start_def by (rule length_dropWhile_le)
  ultimately show "(trim_start (drop (length p) s), s) \<in> measure length" by (cases p) simp_all
qed simp

declare strip_wrappers.simps [simp del]

definition clean_engine_detail :: "string \<Rightarrow> string" where
  "clean_engine_detail detail = strip_wrappers (trim detail)"

definition consensus_failure_detail :: "(string \<times> verdict \<times> string) list \<Rightarrow> string option" where
  "consensus_failure_detail fl =
     (case (case find (\<lambda>(w, v, d). v = Infeasible) fl of
              Some x \<Rightarrow> Some x
            | None \<Rightarrow> (case fl of [] \<Rightarrow> None | x # _ \<Rightarrow> Some x)) of
        None \<Rightarrow> None
      | Some (w, v, d) \<Rightarrow> let c = clean_engine_detail d in if c = [] then None else Some c)"

text \<open>\<open>min_by_key\<close> returns the first minimum.\<close>

definition fastest_of :: "inflight list \<Rightarrow> inflight option" where
  "fastest_of infl = (case sort_key if_latency_ms infl of [] \<Rightarrow> None | f # _ \<Rightarrow> Some f)"

definition commit_keys :: "inflight list \<Rightarrow> commit_key list" where
  "commit_keys infl = map (\<lambda>f. \<lparr>commit_key.input_fingerprint = if_fingerprint f, result_hash = if_hash f\<rparr>) infl"

definition non_verifiable :: "grid_config \<Rightarrow> ('s, 'a) dispatch_env \<Rightarrow> job \<Rightarrow> bool \<Rightarrow> bool" where
  "non_verifiable cfg env j not_pinnable \<longleftrightarrow> not_pinnable \<or>
     nondeterminism_active (gc_antiabuse cfg) \<and> canary_expected env (jb_query_hash j) = None \<and> is_nondeterministic (jb_sql j)"

definition attempt_tally :: "nat \<Rightarrow> inflight list \<Rightarrow> (string \<times> verdict \<times> string) list \<Rightarrow> string list \<Rightarrow> fault_tally" where
  "attempt_tally n infl fl sl =
     fold (\<lambda>_. record_silent) sl (fold (\<lambda>(w, v, d). tally_record v) fl (fold (\<lambda>_. record_committed) infl (tally_new n)))"

definition failed_or_silent :: "(string \<times> verdict \<times> string) list \<Rightarrow> string list \<Rightarrow> string list" where
  "failed_or_silent fl sl = map fst fl @ sl"

definition oomed :: "(string \<times> verdict \<times> string) list \<Rightarrow> string list" where
  "oomed fl = map fst (filter (\<lambda>(w, v, d). v = ResourceExceeded) fl)"

definition max_tried_capacity :: "(string, wire_bid) hmap \<Rightarrow> (string \<times> verdict \<times> string) list \<Rightarrow> nat" where
  "max_tried_capacity bids fl =
     fold max (map (\<lambda>w. case hget bids w of Some b \<Rightarrow> wb_free_mem_bytes b | None \<Rightarrow> 0) (oomed fl)) 0"

definition with_detail :: "string \<Rightarrow> (string \<times> verdict \<times> string) list \<Rightarrow> string" where
  "with_detail why fl = (case consensus_failure_detail fl of Some d \<Rightarrow> why @ '': '' @ d | None \<Rightarrow> why)"

text \<open>
  Stop with a result of the attempt, emitting failure receipts or not, or go on with the hash the
  commits are judged by and whether it counts as verified.
\<close>

datatype decision = Stop "query_outcome attempt_result" bool | Agreed string bool

definition decide ::
    "grid_config \<Rightarrow> ('s, 'a) dispatch_env \<Rightarrow> job \<Rightarrow> string option \<Rightarrow> bool \<Rightarrow> nat \<Rightarrow> (string, wire_bid) hmap \<Rightarrow>
      inflight list \<Rightarrow> (string \<times> verdict \<times> string) list \<Rightarrow> string list \<Rightarrow> decision" where
  "decide cfg env j pin not_pinnable n bids infl fl sl =
     (let expected = canary_expected env (jb_query_hash j);
          q = sc_quorum (gc_scheduler cfg);
          fp = evaluate_quorum_on_commits (commit_keys infl) pin q
      in if expected = None \<and> 0 < drifted fp
      then Stop (InputDrift (show_nat (drifted fp) @ '' of '' @ show_nat (length infl) @
             '' committed provider(s) read a different input snapshot than pinned (source data changed between executions)'')) True
      else let outcome = pinned fp;
               tl = attempt_tally n infl fl sl;
               frac = aa_job_consensus_fraction (gc_antiabuse cfg);
               inconclusive = Stop (AInconclusive (failed_or_silent fl sl)) False
      in case expected of
        Some h \<Rightarrow> Agreed h True
      | None \<Rightarrow>
          if non_verifiable cfg env j not_pinnable
          then (case fastest_of infl of None \<Rightarrow> inconclusive | Some f \<Rightarrow> Agreed (if_hash f) False)
          else (case sc_verify_mode (gc_scheduler cfg) of
            Quorum \<Rightarrow>
              if split outcome then Stop (QuorumDisagreement (agreement outcome) (quorum outcome)) True
              else (case agreed_hash outcome of
                Some h \<Rightarrow> Agreed h True
              | None \<Rightarrow>
                  if fault_attribution_active (gc_antiabuse cfg) \<and> is_consensus_infeasible frac tl
                  then Stop (AInfeasible (with_detail (case consensus_reason frac tl of
                         Some r \<Rightarrow> r | None \<Rightarrow> ''consensus-infeasible query'') fl)) True
                  else if fault_attribution_active (gc_antiabuse cfg) \<and> is_consensus_resource_exceeded frac tl
                  then Stop (AResourceExceeded (oomed fl) (max_tried_capacity bids fl)
                         (with_detail (case resource_exceeded_reason frac tl of
                            Some r \<Rightarrow> r | None \<Rightarrow> ''consensus resource-exceeded query'') fl)) True
                  else if q \<le> length infl then Stop (QuorumDisagreement (agreement outcome) (quorum outcome)) True
                  else inconclusive)
          | Fast \<Rightarrow> (case fastest_of infl of None \<Rightarrow> inconclusive | Some f \<Rightarrow> Agreed (if_hash f) (reached outcome))))"

text \<open>The fastest commit of the agreed hash, by its index.\<close>

definition winner_idx :: "string \<Rightarrow> inflight list \<Rightarrow> nat option" where
  "winner_idx agreed infl =
     (case sort_key (\<lambda>(i, f). if_latency_ms f) (filter (\<lambda>(i, f). if_hash f = agreed) (enumerate 0 infl)) of
        [] \<Rightarrow> None | (i, f) # _ \<Rightarrow> Some i)"

definition swap_remove :: "nat \<Rightarrow> 'x list \<Rightarrow> 'x \<times> 'x list" where
  "swap_remove i xs = (xs ! i, butlast (xs[i := last xs]))"

section \<open>Receipts, penalties and fines\<close>

record observed_size =
  os_input_bytes :: nat
  os_result_rows :: nat
  os_result_bytes :: nat

definition observed_default :: observed_size where
  "observed_default = \<lparr>os_input_bytes = 0, os_result_rows = 0, os_result_bytes = 0\<rparr>"

definition make_receipt ::
    "('s, 'a) dispatch_env \<Rightarrow> job \<Rightarrow> string \<Rightarrow> string \<Rightarrow> verdict \<Rightarrow> nat \<Rightarrow> observed_size \<Rightarrow> string \<Rightarrow> receipt" where
  "make_receipt env j w h v latency obs fp =
     sign_receipt (dv_crypto env) \<lparr>job_id = jb_job_id j, worker_id = w, query_hash = jb_query_hash j, result_hash = h,
       verdict = v, latency_ms = of_nat latency, ts = of_nat (dv_now env),
       observed_input_bytes = of_nat (os_input_bytes obs), observed_result_rows = of_nat (os_result_rows obs),
       observed_result_bytes = of_nat (os_result_bytes obs), input_fingerprint = fp\<rparr> (dv_identity env)"

definition emit_failure_receipts ::
    "grid_config \<Rightarrow> ('s, 'a) dispatch_env \<Rightarrow> job \<Rightarrow> inflight list \<Rightarrow> trust_store \<Rightarrow> trust_store" where
  "emit_failure_receipts cfg env j infl s =
     (let v = (if fault_attribution_active (gc_antiabuse cfg) then Inconclusive else Malformed)
      in fold (\<lambda>f. record_receipt (dv_crypto env)
           (make_receipt env j (if_worker f) (if_hash f) v (if_latency_ms f) observed_default (if_fingerprint f))) infl s)"

definition negative_weight :: "grid_config \<Rightarrow> ('s, 'a) dispatch_env \<Rightarrow> trust_store \<Rightarrow> real" where
  "negative_weight cfg env s =
     (if requester_trust_active (gc_antiabuse cfg)
      then let self = node_id (dv_identity env) in
           requester_trust_weight (requester_reputation s self (dv_now env)) (requester_observation_count s self)
             (aa_age_saturation (gc_antiabuse cfg)) (aa_negative_floor_weight (gc_antiabuse cfg))
      else 1)"

definition penalty_amount :: "grid_config \<Rightarrow> real \<Rightarrow> real" where
  "penalty_amount cfg weight = max (base_incorrect_penalty cfg * weight) 0"

definition apply_penalty :: "real \<Rightarrow> string \<Rightarrow> trust_store \<Rightarrow> trust_store" where
  "apply_penalty p w s = (if 0 < p then penalize w p s else s)"

definition commit_verdict :: "bool \<Rightarrow> bool \<Rightarrow> bool \<Rightarrow> string \<Rightarrow> string option \<Rightarrow> inflight \<Rightarrow> verdict" where
  "commit_verdict nv delivered is_winner agreed pin f =
     (if nv then Inconclusive
      else if is_winner \<and> \<not> delivered then Inconclusive
      else if if_hash f = agreed then Correct
      else if (case pin of Some p \<Rightarrow> if_fingerprint f = p | None \<Rightarrow> True) then Incorrect
      else Inconclusive)"

record accounting =
  ac_trust :: trust_store
  ac_receipts :: "receipt list"
  ac_agreeing :: "string list"
  ac_failers :: "string list"

text \<open>What the three accounting loops read: agreed hash, verified, non-verifiable, delivered, pin and penalty.\<close>

record ruling =
  ru_agreed :: string
  ru_verified :: bool
  ru_nv :: bool
  ru_delivered :: bool
  ru_pin :: "string option"
  ru_penalty :: real

definition book_commit ::
    "('s, 'a) dispatch_env \<Rightarrow> job \<Rightarrow> ruling \<Rightarrow> observed_size \<Rightarrow> bool \<Rightarrow> inflight \<Rightarrow> accounting \<Rightarrow> accounting" where
  "book_commit env j ru obs is_winner f ac =
     (let v = commit_verdict (ru_nv ru) (ru_delivered ru) is_winner (ru_agreed ru) (ru_pin ru) f in
      ac\<lparr>ac_agreeing := (if \<not> is_winner \<and> if_hash f = ru_agreed ru \<and> \<not> ru_nv ru then ac_agreeing ac @ [if_worker f] else ac_agreeing ac),
         ac_failers := (if ru_verified ru \<and> v = Incorrect then ac_failers ac @ [if_worker f] else ac_failers ac),
         ac_receipts := ac_receipts ac @
           [make_receipt env j (if_worker f) (if_hash f) v (if_latency_ms f) (if is_winner then obs else observed_default) (if_fingerprint f)],
         ac_trust := (if is_provider_fault v then apply_penalty (ru_penalty ru) (if_worker f) (ac_trust ac) else ac_trust ac)\<rparr>)"

definition pin_text :: "string option \<Rightarrow> string" where
  "pin_text pin = (case pin of Some p \<Rightarrow> p | None \<Rightarrow> [])"

definition book_silent :: "('s, 'a) dispatch_env \<Rightarrow> job \<Rightarrow> ruling \<Rightarrow> string \<Rightarrow> accounting \<Rightarrow> accounting" where
  "book_silent env j ru w ac =
     ac\<lparr>ac_receipts := ac_receipts ac @ [make_receipt env j w [] Timeout 0 observed_default (pin_text (ru_pin ru))],
        ac_trust := apply_penalty (ru_penalty ru) w (ac_trust ac),
        ac_failers := ac_failers ac @ [w]\<rparr>"

definition book_failed :: "('s, 'a) dispatch_env \<Rightarrow> job \<Rightarrow> ruling \<Rightarrow> string \<times> verdict \<times> string \<Rightarrow> accounting \<Rightarrow> accounting" where
  "book_failed env j ru = (\<lambda>(w, v, d) ac.
     let ac = ac\<lparr>ac_receipts := ac_receipts ac @ [make_receipt env j w [] v 0 observed_default (pin_text (ru_pin ru))]\<rparr>
     in if is_provider_fault v
        then ac\<lparr>ac_trust := apply_penalty (ru_penalty ru) w (ac_trust ac), ac_failers := ac_failers ac @ [w]\<rparr>
        else ac)"

definition book_all ::
    "('s, 'a) dispatch_env \<Rightarrow> job \<Rightarrow> ruling \<Rightarrow> observed_size \<Rightarrow> inflight \<Rightarrow> inflight list \<Rightarrow>
      (string \<times> verdict \<times> string) list \<Rightarrow> string list \<Rightarrow> trust_store \<Rightarrow> accounting" where
  "book_all env j ru obs win losers fl sl s =
     (let ac = \<lparr>ac_trust = s, ac_receipts = [], ac_agreeing = [], ac_failers = []\<rparr>;
          ac = book_commit env j ru obs True win ac;
          ac = fold (book_commit env j ru obs False) losers ac;
          ac = (if ru_verified ru then fold (book_failed env j ru) fl (fold (book_silent env j ru) sl ac) else ac)
      in ac\<lparr>ac_trust := fold (\<lambda>r s. observe_perf (dv_crypto env) r (observe_capability (dv_crypto env) r
             (record_receipt (dv_crypto env) r s))) (ac_receipts ac) (ac_trust ac)\<rparr>)"

definition fine_failed_commitment :: "grid_config \<Rightarrow> string \<Rightarrow> stake_state \<Rightarrow> stake_state option" where
  "fine_failed_commitment cfg w s =
     (let stake = stake_of s w in
      if stake = 0 then Some s
      else let a = mul_frac stake (slash_failed_commitment_pct cfg) in
           if a = 0 then Some s else map_option snd (slash w FailedCommitment a s))"

fun fine_all :: "grid_config \<Rightarrow> string list \<Rightarrow> stake_state \<Rightarrow> stake_state option" where
  "fine_all cfg [] s = Some s"
| "fine_all cfg (w # ws) s = (case fine_failed_commitment cfg w s of None \<Rightarrow> None | Some s \<Rightarrow> fine_all cfg ws s)"

section \<open>The attempt\<close>

text \<open>After the winner is known: result, verdicts, settlement, fines. \<open>None\<close> is a panic of checked arithmetic.\<close>

definition conclude ::
    "grid_config \<Rightarrow> ('s, 'a) dispatch_env \<Rightarrow> job \<Rightarrow> string option \<Rightarrow> bool \<Rightarrow> (string, wire_bid) hmap \<Rightarrow> string \<Rightarrow> bool \<Rightarrow>
      quorum_outcome \<Rightarrow> nat \<Rightarrow> inflight list \<Rightarrow> (string \<times> verdict \<times> string) list \<Rightarrow> string list \<Rightarrow> ('s, 'a) coordinator \<Rightarrow>
      (query_outcome attempt_result \<times> ('s, 'a) coordinator) option" where
  "conclude cfg env j pin nv bids agreed verified outcome wi infl fl sl co =
     (let (win, losers) = swap_remove wi infl;
          w = if_worker win;
          rs = transfer_of env w;
          obs = \<lparr>os_input_bytes = (case jb_input_bytes j of Some b \<Rightarrow> b | None \<Rightarrow> 0),
                 os_result_rows = (case rs of Some r \<Rightarrow> length (rows r) | None \<Rightarrow> 0),
                 os_result_bytes = (case rs of Some r \<Rightarrow> (case result_len env r of Some n \<Rightarrow> n | None \<Rightarrow> 0) | None \<Rightarrow> 0)\<rparr>;
          ru = \<lparr>ru_agreed = agreed, ru_verified = verified, ru_nv = nv, ru_delivered = (rs \<noteq> None), ru_pin = pin,
                ru_penalty = penalty_amount cfg (negative_weight cfg env (co_trust co))\<rparr>;
          latencies = if_latency_ms win # (if nv then [] else map if_latency_ms (filter (\<lambda>f. if_hash f = agreed) losers));
          ac = book_all env j ru obs win losers fl sl (co_trust co)
      in case rs of
        None \<Rightarrow> Some (AInconclusive (failed_or_silent fl sl), co\<lparr>co_trust := ac_trust ac\<rparr>)
      | Some r \<Rightarrow> do {
          let s = record_requester (node_id (dv_identity env)) verified (dv_now env) (ac_trust ac);
          metered \<leftarrow> (case (case hget bids w of None \<Rightarrow> None | Some b \<Rightarrow> from_bid (bid_of b)) of
              None \<Rightarrow> Some None
            | Some t \<Rightarrow> map_option (\<lambda>secs. Some \<lparr>terms = t, billed_seconds = secs,
                bytes_scanned = (case jb_input_bytes j of Some b \<Rightarrow> b | None \<Rightarrow> 0)\<rparr>)
                (metered_billed_seconds (if_latency_ms win) latencies (gc_metering_tolerance cfg)));
          pay \<leftarrow> settle_paid_job (dv_payment env) (gc_economics cfg) (jb_paid j) (jb_job_id j) w (ac_agreeing ac) agreed
            (jb_query_hash j) (node_id (dv_identity env)) (pin_text pin) metered (co_pay co);
          stakes \<leftarrow> (if verified \<and> jb_paid j \<and> enabled (gc_economics cfg)
                    then (case co_stake_registry co of
                            None \<Rightarrow> Some None
                          | Some st \<Rightarrow> map_option Some (fine_all cfg (ac_failers ac) st))
                    else Some (co_stake_registry co));
          Some (Done \<lparr>qo_job_id = jb_job_id j, qo_result = r, qo_agreed_hash = Some agreed,
                  qo_agreement = agreement outcome, qo_quorum = quorum outcome, qo_verified = verified,
                  qo_winner = Some w, qo_participants = map if_worker infl, qo_receipts = ac_receipts ac,
                  qo_executed_locally = False\<rparr>,
                co\<lparr>co_trust := s, co_pay := pay, co_stake_registry := stakes\<rparr>)
        })"

text \<open>After collection: decide, pick the winner, conclude.\<close>

definition judge ::
    "grid_config \<Rightarrow> ('s, 'a) dispatch_env \<Rightarrow> job \<Rightarrow> string option \<Rightarrow> bool \<Rightarrow> nat \<Rightarrow> (string, wire_bid) hmap \<Rightarrow>
      inflight list \<Rightarrow> (string \<times> verdict \<times> string) list \<Rightarrow> string list \<Rightarrow> ('s, 'a) coordinator \<Rightarrow>
      (query_outcome attempt_result \<times> ('s, 'a) coordinator) option" where
  "judge cfg env j pin not_pinnable n bids infl fl sl co =
     (let emit = (\<lambda>co. co\<lparr>co_trust := emit_failure_receipts cfg env j infl (co_trust co)\<rparr>) in
      case decide cfg env j pin not_pinnable n bids infl fl sl of
        Stop res failure_receipts \<Rightarrow> Some (res, if failure_receipts then emit co else co)
      | Agreed agreed verified \<Rightarrow>
          (case winner_idx agreed infl of
             None \<Rightarrow> Some (AInconclusive (failed_or_silent fl sl), emit co)
           | Some wi \<Rightarrow> conclude cfg env j pin (non_verifiable cfg env j not_pinnable) bids agreed verified
               (pinned (evaluate_quorum_on_commits (commit_keys infl) pin (sc_quorum (gc_scheduler cfg)))) wi infl fl sl co))"

text \<open>
  The first stages: candidates, bids, floors and ranking. \<open>None\<close> when no candidate is left, else the
  bids by worker, the selected workers, and the coordinator after the auto-blocks.
\<close>

definition kept_candidates ::
    "grid_config \<Rightarrow> ('s, 'a) dispatch_env \<Rightarrow> job \<Rightarrow> string set \<Rightarrow> ('s, 'a) coordinator \<Rightarrow> candidate list" where
  "kept_candidates cfg env j ex co =
     (let flt = job_filter cfg j in
      filter (keep_candidate cfg env co flt ex (case jb_input_bytes j of Some b \<Rightarrow> b | None \<Rightarrow> 0))
        (find_candidates env (candidate_sample_size cfg) flt))"

definition shortlist ::
    "grid_config \<Rightarrow> ('s, 'a) dispatch_env \<Rightarrow> job \<Rightarrow> string option \<Rightarrow> string set \<Rightarrow> nat \<Rightarrow> ('s, 'a) coordinator \<Rightarrow>
      ((string, wire_bid) hmap \<times> (string \<times> real \<times> nat) list \<times> ('s, 'a) coordinator) option" where
  "shortlist cfg env j pin ex cap_floor co =
     (let cands = kept_candidates cfg env j ex co in
      if cands = [] then None
      else let acc = accepted_bids env (job_offer env j pin) cands;
               (el, co) = trust_floor cfg env (jb_paid j) (filter (\<lambda>(w, b). passes_floors cfg env j cap_floor w b) acc) co
           in Some (bid_by_node el, score_bids cfg env co (jb_paid j) el, co))"

definition pin_inputs :: "('s, 'a) dispatch_env \<Rightarrow> job \<Rightarrow> string + (string option \<times> bool)" where
  "pin_inputs env j =
     (case resolve_inputs env of
        None \<Rightarrow> Inr (None, False)
      | Some res \<Rightarrow> (case res (jb_sql j) of
          Inr snap \<Rightarrow> Inr (map_option fingerprint snap, False)
        | Inl (NotPinnable e) \<Rightarrow> Inr (None, True)
        | Inl (Unavailable e) \<Rightarrow> Inl (''input source unavailable: '' @ e)))"

text \<open>
  The whole attempt. Progress of the selected workers is listed worker by worker; the streams are read
  concurrently, and only the order within one stream has a meaning.
\<close>

definition run_attempt ::
    "grid_config \<Rightarrow> ('s, 'a) dispatch_env \<Rightarrow> job \<Rightarrow> string set \<Rightarrow> nat \<Rightarrow> ('s, 'a) coordinator \<Rightarrow>
      ((progress list \<times> (coordinator_error + query_outcome attempt_result)) \<times> ('s, 'a) coordinator) option" where
  "run_attempt cfg env j ex cap_floor co =
     (case pin_inputs env j of
        Inl why \<Rightarrow> Some (([], Inr (AInfeasible why)), co)
      | Inr (pin, not_pinnable) \<Rightarrow>
          (case shortlist cfg env j pin ex cap_floor co of
             None \<Rightarrow> Some (([], Inr NoCandidates), co)
           | Some (bids, scored, co) \<Rightarrow>
               let q = sc_quorum (gc_scheduler cfg) in
               if length scored < q then Some (([], Inr (InsufficientWorkers (length scored) q)), co)
               else (case escrow_preflight cfg env j bids scored of
                 Some why \<Rightarrow> Some (([], Inl (Resilience.InsufficientEscrow why)), co)
               | None \<Rightarrow>
                   let cs = map (\<lambda>(i, w, _, _). collect_one env i w (job_dispatch cfg j pin (cap_ms_of bids w))) (enumerate 0 scored)
                   in map_option (\<lambda>(res, co). ((concat (map fst cs), Inr res), co))
                        (judge cfg env j pin not_pinnable (length scored) bids
                           (inflight_of (map snd cs)) (failed_of (map snd cs)) (silent_of (map snd cs)) co))))"

end
