(* ===== verification/Attempt.thy ===== *)
theory Attempt
  imports Dispatch
begin

text \<open>
  What an attempt of \<open>node/src/coordinator.rs\<close> guarantees when it returns a result: which commits its
  decision rests on, whom its receipts, penalties and fines blame, who took part, and what an attempt
  without a result leaves untouched.
\<close>


section \<open>What a decision rests on\<close>

text \<open>The inputs a commit was computed on are not known to differ from the pinned ones.\<close>

definition on_snapshot :: "string option \<Rightarrow> inflight \<Rightarrow> bool" where
  "on_snapshot pin f \<longleftrightarrow> pin = None \<or> if_fingerprint f = [] \<or> pin = Some (if_fingerprint f)"

lemma quorum_on_commits:
  "pinned (evaluate_quorum_on_commits (commit_keys infl) pin q) = evaluate_quorum (map if_hash (filter (on_snapshot pin) infl)) q"
  "drifted (evaluate_quorum_on_commits (commit_keys infl) pin q) = length (filter (\<lambda>f. \<not> on_snapshot pin f) infl)"
  by (simp_all add: evaluate_quorum_on_commits_def split_commits_eq commit_keys_def filter_map comp_def on_snapshot_def [abs_def])

text \<open>A hash has a quorum among the commits, and no other one has.\<close>

definition sole_quorum :: "nat \<Rightarrow> inflight list \<Rightarrow> string \<Rightarrow> bool" where
  "sole_quorum q infl h \<longleftrightarrow> h \<in> if_hash ` set infl \<and> q \<le> length (filter (\<lambda>f. if_hash f = h) infl) \<and>
     (\<forall>f\<in>set infl. if_hash f \<noteq> h \<longrightarrow> length (filter (\<lambda>g. if_hash g = if_hash f) infl) < q)"

lemma count_list_hashes: "count_list (map if_hash infl) h = length (filter (\<lambda>f. if_hash f = h) infl)"
  by (induction infl) auto

lemma agreed_hash_sole_quorum:
  "agreed_hash (evaluate_quorum (map if_hash infl) q) = Some h \<longleftrightarrow> sole_quorum q infl h"
  unfolding evaluate_quorum_spec(1) count_list_hashes
proof
  let ?n = "\<lambda>x. length (filter (\<lambda>f. if_hash f = x) infl)"
  assume eq: "{x \<in> set (map if_hash infl). q \<le> ?n x} = {h}"
  then have "h \<in> {x \<in> set (map if_hash infl). q \<le> ?n x}" by simp
  moreover have "?n (if_hash f) < q" if "f \<in> set infl" "if_hash f \<noteq> h" for f
  proof (rule ccontr)
    assume "\<not> ?n (if_hash f) < q"
    with that have "if_hash f \<in> {x \<in> set (map if_hash infl). q \<le> ?n x}" by simp
    with eq that show False by simp
  qed
  ultimately show "sole_quorum q infl h" by (simp add: sole_quorum_def)
next
  assume s: "sole_quorum q infl h"
  show "{x \<in> set (map if_hash infl). q \<le> length (filter (\<lambda>f. if_hash f = x) infl)} = {h}"
  proof (rule set_eqI)
    fix x
    show "x \<in> {x \<in> set (map if_hash infl). q \<le> length (filter (\<lambda>f. if_hash f = x) infl)} \<longleftrightarrow> x \<in> {h}"
      using s by (cases "x = h") (auto simp: sole_quorum_def)
  qed
qed

lemma decide_undrifted:
  assumes "canary_expected env (jb_query_hash j) = None" "\<forall>f\<in>set infl. on_snapshot pin f"
  shows "decide cfg env j pin np n bids infl fl sl =
    (if non_verifiable cfg env j np
     then (case fastest_of infl of None \<Rightarrow> Stop (AInconclusive (failed_or_silent fl sl)) False | Some f \<Rightarrow> Agreed (if_hash f) False)
     else case sc_verify_mode (gc_scheduler cfg) of
       Quorum \<Rightarrow>
         (let outcome = evaluate_quorum (map if_hash infl) (sc_quorum (gc_scheduler cfg));
              tl = attempt_tally n infl fl sl; frac = aa_job_consensus_fraction (gc_antiabuse cfg) in
          if split outcome then Stop (QuorumDisagreement (agreement outcome) (quorum outcome)) True
          else (case agreed_hash outcome of
            Some h \<Rightarrow> Agreed h True
          | None \<Rightarrow>
              if fault_attribution_active (gc_antiabuse cfg) \<and> is_consensus_infeasible frac tl
              then Stop (AInfeasible (with_detail (case consensus_reason frac tl of
                     Some r \<Rightarrow> r | None \<Rightarrow> ''consensus-infeasible query'') fl)) True
              else if fault_attribution_active (gc_antiabuse cfg) \<and> is_consensus_resource_exceeded frac tl
              then Stop (AResourceExceeded (oomed fl) (max_tried_capacity bids fl)
                     (with_detail (case resource_exceeded_reason frac tl of
                        Some r \<Rightarrow> r | None \<Rightarrow> ''consensus resource-exceeded query'') fl)) True
              else if sc_quorum (gc_scheduler cfg) \<le> length infl
              then Stop (QuorumDisagreement (agreement outcome) (quorum outcome)) True
              else Stop (AInconclusive (failed_or_silent fl sl)) False))
     | Fast \<Rightarrow> (case fastest_of infl of
         None \<Rightarrow> Stop (AInconclusive (failed_or_silent fl sl)) False
       | Some f \<Rightarrow> Agreed (if_hash f) (reached (evaluate_quorum (map if_hash infl) (sc_quorum (gc_scheduler cfg))))))"
proof -
  have "filter (\<lambda>f. \<not> on_snapshot pin f) infl = []" "filter (on_snapshot pin) infl = infl"
    using assms(2) by (simp_all add: filter_empty_conv filter_id_conv)
  then have d: "drifted (evaluate_quorum_on_commits (commit_keys infl) pin (sc_quorum (gc_scheduler cfg))) = 0"
    and p: "pinned (evaluate_quorum_on_commits (commit_keys infl) pin (sc_quorum (gc_scheduler cfg))) =
      evaluate_quorum (map if_hash infl) (sc_quorum (gc_scheduler cfg))"
    by (simp_all add: quorum_on_commits)
  show ?thesis
    unfolding decide_def Let_def assms(1) d p by (simp only: less_irrefl simp_thms if_False option.case)
qed

lemma decide_drifted:
  assumes "canary_expected env (jb_query_hash j) = None" "f \<in> set infl" "\<not> on_snapshot pin f"
  shows "\<exists>why. decide cfg env j pin np n bids infl fl sl = Stop (InputDrift why) True"
proof -
  have "filter (\<lambda>f. \<not> on_snapshot pin f) infl \<noteq> []" using assms(2,3) by (auto simp: filter_empty_conv)
  then show ?thesis using assms(1) by (simp add: decide_def Let_def quorum_on_commits)
qed

lemma decide_Agreed:
  assumes "decide cfg env j pin np n bids infl fl sl = Agreed h ver" "canary_expected env (jb_query_hash j) = None"
  shows "\<forall>f\<in>set infl. on_snapshot pin f"
    and "ver \<Longrightarrow> \<not> non_verifiable cfg env j np"
    and "sc_verify_mode (gc_scheduler cfg) = Quorum \<Longrightarrow> ver \<Longrightarrow> sole_quorum (sc_quorum (gc_scheduler cfg)) infl h"
proof -
  show on: "\<forall>f\<in>set infl. on_snapshot pin f"
  proof (rule ballI, rule ccontr)
    fix f assume "f \<in> set infl" "\<not> on_snapshot pin f"
    from decide_drifted [OF assms(2) this, of cfg np n bids fl sl] assms(1) show False by simp
  qed
  note eq = decide_undrifted [OF assms(2) on, of cfg np n bids fl sl, unfolded assms(1)]
  show nv: "\<not> non_verifiable cfg env j np" if ver
    using eq that by (cases "non_verifiable cfg env j np"; cases "fastest_of infl") simp_all
  show "sole_quorum (sc_quorum (gc_scheduler cfg)) infl h" if q: "sc_verify_mode (gc_scheduler cfg) = Quorum" and ver
  proof -
    let ?o = "evaluate_quorum (map if_hash infl) (sc_quorum (gc_scheduler cfg))"
    have "agreed_hash ?o = Some h"
      using eq nv [OF \<open>ver\<close>] q
      by (cases "split ?o"; cases "agreed_hash ?o") (simp_all add: Let_def split: if_splits)
    then show ?thesis by (simp add: agreed_hash_sole_quorum)
  qed
qed

lemma winner_idx_Some:
  assumes "winner_idx h infl = Some i"
  shows "i < length infl" "if_hash (infl ! i) = h"
    "f \<in> set infl \<Longrightarrow> if_hash f = h \<Longrightarrow> if_latency_ms (infl ! i) \<le> if_latency_ms f"
proof -
  let ?xs = "filter (\<lambda>(i, f). if_hash f = h) (enumerate 0 infl)"
  obtain g rest where s: "sort_key (\<lambda>(i, f). if_latency_ms f) ?xs = (i, g) # rest"
    using assms by (auto simp: winner_idx_def split: list.splits)
  then have "(i, g) \<in> set ?xs" by (metis list.set_intros(1) set_sort)
  then have i: "i < length infl" "infl ! i = g" "if_hash g = h" by (auto simp: in_set_enumerate_eq)
  then show "i < length infl" "if_hash (infl ! i) = h" by simp_all
  have "sorted (map (\<lambda>(i, f). if_latency_ms f) ((i, g) # rest))" using s by (metis sorted_sort_key)
  then have min: "\<forall>(k, f)\<in>set ((i, g) # rest). if_latency_ms g \<le> if_latency_ms f" by auto
  show "if_latency_ms (infl ! i) \<le> if_latency_ms f" if "f \<in> set infl" "if_hash f = h"
  proof -
    from that obtain k where "k < length infl" "f = infl ! k" by (auto simp: in_set_conv_nth)
    with that have "(k, f) \<in> set ?xs" by (auto simp: in_set_enumerate_eq)
    then have "(k, f) \<in> set ((i, g) # rest)" using s by (metis set_sort)
    with min i(2) show ?thesis by auto
  qed
qed

lemma swap_remove_mset: "i < length xs \<Longrightarrow> swap_remove i xs = (x, ys) \<Longrightarrow> mset xs = add_mset x (mset ys) \<and> x = xs ! i"
proof -
  assume i: "i < length xs" and "swap_remove i xs = (x, ys)"
  then have x: "x = xs ! i" "ys = butlast (xs[i := last xs])" by (simp_all add: swap_remove_def)
  have ne: "xs[i := last xs] \<noteq> []" using i by auto
  have "xs \<noteq> []" using i by auto
  then have l: "last (xs[i := last xs]) = last xs" using i by (simp add: last_list_update not_le)
  have "mset (butlast (xs[i := last xs])) + {#last xs#} = mset (xs[i := last xs])"
    using append_butlast_last_id [OF ne] l by (metis mset.simps(1) mset.simps(2) mset_append)
  also have "\<dots> = mset xs - {#xs ! i#} + {#last xs#}" using i by (simp add: mset_update)
  finally have "mset ys = mset xs - {#xs ! i#}" using x by simp
  then show ?thesis using i x by simp
qed

lemma conclude_Done:
  assumes "conclude cfg env j pin nv bids h ver outcome wi infl fl sl co = Some (Done out, co')"
  shows "qo_verified out = ver \<and> qo_agreed_hash out = Some h \<and> qo_winner out = Some (if_worker (infl ! wi)) \<and>
    qo_participants out = map if_worker infl \<and> transfer_of env (if_worker (infl ! wi)) = Some (qo_result out)"
  using assms by (cases "transfer_of env (if_worker (infl ! wi))") (auto simp: conclude_def swap_remove_def Let_def bind_eq_Some_conv)

lemma judge_Done:
  assumes "judge cfg env j pin np n bids infl fl sl co = Some (Done out, co')"
  obtains h ver wi where "decide cfg env j pin np n bids infl fl sl = Agreed h ver" "winner_idx h infl = Some wi"
    "conclude cfg env j pin (non_verifiable cfg env j np) bids h ver
       (pinned (evaluate_quorum_on_commits (commit_keys infl) pin (sc_quorum (gc_scheduler cfg)))) wi infl fl sl co = Some (Done out, co')"
proof (cases "decide cfg env j pin np n bids infl fl sl")
  case (Stop res b)
  have "res \<noteq> Done out"
    using Stop by (auto simp: decide_def Let_def split: if_splits option.splits verify_mode.splits)
  with assms Stop show thesis by (simp add: judge_def split: if_splits)
next
  case (Agreed h ver)
  with assms that show thesis by (cases "winner_idx h infl") (simp_all add: judge_def Let_def)
qed

text \<open>The stages an attempt that returned a result went through.\<close>

definition collected_by ::
    "grid_config \<Rightarrow> ('s, 'a) dispatch_env \<Rightarrow> job \<Rightarrow> string option \<Rightarrow> (string, wire_bid) hmap \<Rightarrow> (string \<times> real \<times> nat) list \<Rightarrow> collected list" where
  "collected_by cfg env j pin bids scored =
     map snd (map (\<lambda>(i, w, _, _). collect_one env i w (job_dispatch cfg j pin (cap_ms_of bids w))) (enumerate 0 scored))"

lemma run_attempt_Done:
  assumes "run_attempt cfg env j ex cap_floor co = Some ((ps, Inr (Done out)), co')"
  obtains pin np bids scored co1 where "pin_inputs env j = Inr (pin, np)"
    "shortlist cfg env j pin ex cap_floor co = Some (bids, scored, co1)"
    "sc_quorum (gc_scheduler cfg) \<le> length scored"
    "judge cfg env j pin np (length scored) bids (inflight_of (collected_by cfg env j pin bids scored))
       (failed_of (collected_by cfg env j pin bids scored)) (silent_of (collected_by cfg env j pin bids scored)) co1 = Some (Done out, co')"
proof (cases "pin_inputs env j")
  case (Inl why)
  with assms show thesis by (simp add: run_attempt_def)
next
  case (Inr pn)
  obtain pin np where p: "pn = (pin, np)" by (cases pn)
  show thesis
  proof (cases "shortlist cfg env j pin ex cap_floor co")
    case None
    with assms Inr p show thesis by (simp add: run_attempt_def)
  next
    case (Some x)
    obtain bids scored co1 where x: "x = (bids, scored, co1)" by (cases x)
    have q: "\<not> length scored < sc_quorum (gc_scheduler cfg)" and e: "escrow_preflight cfg env j bids scored = None"
      using assms Inr p Some x by (auto simp: run_attempt_def Let_def split: if_splits option.splits)
    show thesis
      by (rule that [of pin np bids scored co1])
        (use assms Inr p Some x q e in \<open>auto simp: run_attempt_def Let_def collected_by_def\<close>)
  qed
qed

text \<open>A commit was read from a stream of its worker.\<close>

definition commit_read :: "('s, 'a) dispatch_env \<Rightarrow> inflight \<Rightarrow> bool" where
  "commit_read env f \<longleftrightarrow> (\<exists>i d fs c. frames_of env i (if_worker f) d = Some fs \<and> FCommit c \<in> set fs \<and>
     commit_key.result_hash c = if_hash f \<and> commit_key.input_fingerprint c = if_fingerprint f \<and> rc_latency_ms c = if_latency_ms f)"

lemma collect_frames_Committed:
  "snd (collect_frames w fs) = Committed f \<Longrightarrow> if_worker f = w \<and> (\<exists>c. FCommit c \<in> set fs \<and>
     commit_key.result_hash c = if_hash f \<and> commit_key.input_fingerprint c = if_fingerprint f \<and> rc_latency_ms c = if_latency_ms f)"
  by (induction w fs rule: collect_frames.induct) (auto split: prod.splits if_splits)

lemma collect_frames_worker:
  "snd (collect_frames w fs) = Failed v d \<Longrightarrow> v = w" "snd (collect_frames w fs) = Silent v \<Longrightarrow> v = w"
  by (induction w fs rule: collect_frames.induct) (auto split: prod.splits if_splits)

lemma collect_one_worker:
  "snd (collect_one env i w d) = Committed f \<Longrightarrow> if_worker f = w \<and> commit_read env f"
  "snd (collect_one env i w d) = Failed v e \<Longrightarrow> v = w" "snd (collect_one env i w d) = Silent v \<Longrightarrow> v = w"
proof -
  show "if_worker f = w \<and> commit_read env f" if c: "snd (collect_one env i w d) = Committed f"
  proof (cases "frames_of env i w d")
    case None
    with c show ?thesis by (simp add: collect_one_def)
  next
    case (Some fs)
    with c have "snd (collect_frames w fs) = Committed f" by (simp add: collect_one_def)
    from collect_frames_Committed [OF this] Some show ?thesis unfolding commit_read_def by metis
  qed
  show "snd (collect_one env i w d) = Failed v e \<Longrightarrow> v = w" "snd (collect_one env i w d) = Silent v \<Longrightarrow> v = w"
    using collect_frames_worker [of w] by (auto simp: collect_one_def split: option.splits)
qed

lemma set_map_filter: "set (List.map_filter g xs) = {y. \<exists>x\<in>set xs. g x = Some y}"
  by (force simp: List.map_filter_def)

lemma in_collected:
  "f \<in> set (inflight_of cs) \<longleftrightarrow> Committed f \<in> set cs" "w \<in> set (silent_of cs) \<longleftrightarrow> Silent w \<in> set cs"
  "(w, v, e) \<in> set (failed_of cs) \<longleftrightarrow> v = classify_failure e \<and> Failed w e \<in> set cs"
proof -
  have "(case c of Committed f \<Rightarrow> Some f | _ \<Rightarrow> None) = Some f \<longleftrightarrow> c = Committed f"
    "(case c of Silent w \<Rightarrow> Some w | _ \<Rightarrow> None) = Some w \<longleftrightarrow> c = Silent w"
    "(case c of Failed w d \<Rightarrow> Some (w, classify_failure d, d) | _ \<Rightarrow> None) = Some (w, v, e) \<longleftrightarrow>
       v = classify_failure e \<and> c = Failed w e" for c
    by (cases c; auto)+
  then show "f \<in> set (inflight_of cs) \<longleftrightarrow> Committed f \<in> set cs" "w \<in> set (silent_of cs) \<longleftrightarrow> Silent w \<in> set cs"
    "(w, v, e) \<in> set (failed_of cs) \<longleftrightarrow> v = classify_failure e \<and> Failed w e \<in> set cs"
    unfolding inflight_of_def silent_of_def failed_of_def set_map_filter by auto
qed

lemma in_collected_by:
  "c \<in> set (collected_by cfg env j pin bids scored) \<longleftrightarrow>
     (\<exists>i w s e. (i, w, s, e) \<in> set (enumerate 0 scored) \<and> c = snd (collect_one env i w (job_dispatch cfg j pin (cap_ms_of bids w))))"
  by (force simp: collected_by_def)

lemma enumerate_fst: "(i, w, s, e) \<in> set (enumerate 0 scored) \<Longrightarrow> w \<in> fst ` set scored"
  by (auto simp: in_set_enumerate_eq) (metis fst_conv image_eqI nth_mem)

lemma inflight_of_collected:
  assumes "f \<in> set (inflight_of (collected_by cfg env j pin bids scored))"
  shows "if_worker f \<in> fst ` set scored" "commit_read env f"
proof -
  from assms obtain i w s e where "(i, w, s, e) \<in> set (enumerate 0 scored)"
    "snd (collect_one env i w (job_dispatch cfg j pin (cap_ms_of bids w))) = Committed f"
    unfolding in_collected in_collected_by by metis
  then show "if_worker f \<in> fst ` set scored" "commit_read env f"
    using enumerate_fst [of i w s e scored] collect_one_worker(1) [of env i w "job_dispatch cfg j pin (cap_ms_of bids w)" f] by simp_all
qed

text \<open>Everything an attempt that returned a result established.\<close>

lemma attempt_facts:
  assumes "run_attempt cfg env j ex cap_floor co = Some ((ps, Inr (Done out)), co')"
  obtains pin np bids scored co1 infl fl sl h wi where "pin_inputs env j = Inr (pin, np)"
    "shortlist cfg env j pin ex cap_floor co = Some (bids, scored, co1)"
    "infl = inflight_of (collected_by cfg env j pin bids scored)" "fl = failed_of (collected_by cfg env j pin bids scored)"
    "sl = silent_of (collected_by cfg env j pin bids scored)"
    "decide cfg env j pin np (length scored) bids infl fl sl = Agreed h (qo_verified out)"
    "winner_idx h infl = Some wi" "qo_agreed_hash out = Some h" "qo_winner out = Some (if_worker (infl ! wi))"
    "qo_participants out = map if_worker infl" "transfer_of env (if_worker (infl ! wi)) = Some (qo_result out)"
    "conclude cfg env j pin (non_verifiable cfg env j np) bids h (qo_verified out)
       (pinned (evaluate_quorum_on_commits (commit_keys infl) pin (sc_quorum (gc_scheduler cfg)))) wi infl fl sl co1 = Some (Done out, co')"
proof -
  obtain pin np bids scored co1 where p: "pin_inputs env j = Inr (pin, np)" "shortlist cfg env j pin ex cap_floor co = Some (bids, scored, co1)" and
    jd: "judge cfg env j pin np (length scored) bids (inflight_of (collected_by cfg env j pin bids scored))
       (failed_of (collected_by cfg env j pin bids scored)) (silent_of (collected_by cfg env j pin bids scored)) co1 = Some (Done out, co')"
    by (rule run_attempt_Done [OF assms])
  obtain h ver wi where d: "decide cfg env j pin np (length scored) bids (inflight_of (collected_by cfg env j pin bids scored))
      (failed_of (collected_by cfg env j pin bids scored)) (silent_of (collected_by cfg env j pin bids scored)) = Agreed h ver"
    and w: "winner_idx h (inflight_of (collected_by cfg env j pin bids scored)) = Some wi"
    and c: "conclude cfg env j pin (non_verifiable cfg env j np) bids h ver
       (pinned (evaluate_quorum_on_commits (commit_keys (inflight_of (collected_by cfg env j pin bids scored))) pin (sc_quorum (gc_scheduler cfg)))) wi
       (inflight_of (collected_by cfg env j pin bids scored))
       (failed_of (collected_by cfg env j pin bids scored)) (silent_of (collected_by cfg env j pin bids scored)) co1 = Some (Done out, co')"
    by (rule judge_Done [OF jd])
  have "ver = qo_verified out" using conclude_Done [OF c] by simp
  then show thesis
    using that [OF p refl refl refl] conclude_Done [OF c] d w c by blast
qed

section \<open>Who is blamed\<close>

definition commit_receipt :: "('s, 'a) dispatch_env \<Rightarrow> job \<Rightarrow> ruling \<Rightarrow> observed_size \<Rightarrow> bool \<Rightarrow> inflight \<Rightarrow> receipt" where
  "commit_receipt env j ru obs is_winner f =
     make_receipt env j (if_worker f) (if_hash f) (commit_verdict (ru_nv ru) (ru_delivered ru) is_winner (ru_agreed ru) (ru_pin ru) f)
       (if_latency_ms f) (if is_winner then obs else observed_default) (if_fingerprint f)"

lemma book_commits:
  "ac_receipts (fold (book_commit env j ru obs False) fs ac) = ac_receipts ac @ map (commit_receipt env j ru obs False) fs"
  "ac_failers (fold (book_commit env j ru obs False) fs ac) = ac_failers ac @ map if_worker (filter (\<lambda>f. ru_verified ru \<and>
     commit_verdict (ru_nv ru) (ru_delivered ru) False (ru_agreed ru) (ru_pin ru) f = Incorrect) fs)"
  by (induction fs arbitrary: ac) (simp_all add: book_commit_def commit_receipt_def Let_def)

lemma book_silents:
  "ac_receipts (fold (book_silent env j ru) ws ac) = ac_receipts ac @
     map (\<lambda>w. make_receipt env j w [] Timeout 0 observed_default (pin_text (ru_pin ru))) ws"
  "ac_failers (fold (book_silent env j ru) ws ac) = ac_failers ac @ ws"
  by (induction ws arbitrary: ac) (simp_all add: book_silent_def)

lemma book_faileds:
  "ac_receipts (fold (book_failed env j ru) fl ac) = ac_receipts ac @
     map (\<lambda>(w, v, d). make_receipt env j w [] v 0 observed_default (pin_text (ru_pin ru))) fl"
  "ac_failers (fold (book_failed env j ru) fl ac) = ac_failers ac @ map fst (filter (\<lambda>(w, v, d). is_provider_fault v) fl)"
  by (induction fl arbitrary: ac) (auto simp: book_failed_def Let_def)

lemma make_receipt_fields [simp]:
  "worker_id (make_receipt env j w h v l obs fp) = w" "verdict (make_receipt env j w h v l obs fp) = v"
  "job_id (make_receipt env j w h v l obs fp) = jb_job_id j" "receipt_draft.result_hash (make_receipt env j w h v l obs fp) = h"
  by (simp_all add: make_receipt_def sign_receipt_def receipt_draft.defs Let_def)

lemma winner_not_Incorrect: "if_hash f = h \<Longrightarrow> \<not> is_provider_fault (commit_verdict nv dl True h pin f)"
  by (simp add: commit_verdict_def)

text \<open>A commit that is provably wrong: another hash than the agreed one, on the pinned inputs or with none pinned.\<close>

definition provably_wrong :: "string option \<Rightarrow> string \<Rightarrow> inflight \<Rightarrow> bool" where
  "provably_wrong pin h f \<longleftrightarrow> if_hash f \<noteq> h \<and> (pin = None \<or> pin = Some (if_fingerprint f))"

lemma commit_verdict_fault:
  "is_provider_fault (commit_verdict nv dl False h pin f) \<Longrightarrow> provably_wrong pin h f"
  "commit_verdict nv dl False h pin f = Incorrect \<Longrightarrow> provably_wrong pin h f"
  by (auto simp: commit_verdict_def provably_wrong_def split: if_splits option.splits)

lemma classified_not_fault: "\<not> is_provider_fault (classify_failure d)"
  using classify_failure_cases [of d] by auto

lemma book_all_blames:
  assumes "if_hash win = ru_agreed ru" "\<forall>(w, v, d)\<in>set fl. \<not> is_provider_fault v"
  shows "r \<in> set (ac_receipts (book_all env j ru obs win losers fl sl s)) \<Longrightarrow> is_provider_fault (verdict r) \<Longrightarrow>
      (\<exists>f\<in>set losers. worker_id r = if_worker f \<and> provably_wrong (ru_pin ru) (ru_agreed ru) f) \<or>
      ru_verified ru \<and> worker_id r \<in> set sl"
    and "w \<in> set (ac_failers (book_all env j ru obs win losers fl sl s)) \<Longrightarrow>
      (\<exists>f\<in>set losers. w = if_worker f \<and> provably_wrong (ru_pin ru) (ru_agreed ru) f) \<or> ru_verified ru \<and> w \<in> set sl"
proof -
  let ?w = "book_commit env j ru obs True win \<lparr>ac_trust = s, ac_receipts = [], ac_agreeing = [], ac_failers = []\<rparr>"
  have w: "ac_receipts ?w = [commit_receipt env j ru obs True win]" "ac_failers ?w = []"
    using assms(1) by (simp_all add: book_commit_def commit_receipt_def Let_def commit_verdict_def)
  have nf: "filter (\<lambda>(w, v, d). is_provider_fault v) fl = []" using assms(2) by (auto simp: filter_empty_conv)
  define tl where "tl = (if ru_verified ru then map (\<lambda>w. make_receipt env j w [] Timeout 0 observed_default (pin_text (ru_pin ru))) sl @
      map (\<lambda>(w, v, d). make_receipt env j w [] v 0 observed_default (pin_text (ru_pin ru))) fl else [])"
  have rc: "ac_receipts (book_all env j ru obs win losers fl sl s) =
      commit_receipt env j ru obs True win # map (commit_receipt env j ru obs False) losers @ tl"
    by (simp add: tl_def book_all_def Let_def book_commits book_silents book_faileds w)
  have fr: "ac_failers (book_all env j ru obs win losers fl sl s) = map if_worker (filter (\<lambda>f. ru_verified ru \<and>
     commit_verdict (ru_nv ru) (ru_delivered ru) False (ru_agreed ru) (ru_pin ru) f = Incorrect) losers) @ (if ru_verified ru then sl else [])"
    by (simp add: book_all_def Let_def book_commits book_silents book_faileds w nf)
  show "(\<exists>f\<in>set losers. worker_id r = if_worker f \<and> provably_wrong (ru_pin ru) (ru_agreed ru) f) \<or> ru_verified ru \<and> worker_id r \<in> set sl"
    if r: "r \<in> set (ac_receipts (book_all env j ru obs win losers fl sl s))" and f: "is_provider_fault (verdict r)"
  proof -
    consider "r = commit_receipt env j ru obs True win" | f where "f \<in> set losers" "r = commit_receipt env j ru obs False f" | "r \<in> set tl"
      using r unfolding rc by auto
    then show ?thesis
    proof cases
      case 1
      with f winner_not_Incorrect [OF assms(1)] show ?thesis by (simp add: commit_receipt_def)
    next
      case 2
      with f commit_verdict_fault(1) show ?thesis by (auto simp: commit_receipt_def)
    next
      case 3
      with f assms(2) show ?thesis unfolding tl_def by (auto split: if_splits)
    qed
  qed
  show "(\<exists>f\<in>set losers. w = if_worker f \<and> provably_wrong (ru_pin ru) (ru_agreed ru) f) \<or> ru_verified ru \<and> w \<in> set sl"
    if "w \<in> set (ac_failers (book_all env j ru obs win losers fl sl s))"
    using that commit_verdict_fault(2) unfolding fr by (auto split: if_splits)
qed

lemma slash_other:
  "slash w r a s = Some (x, s') \<Longrightarrow> n \<noteq> w \<Longrightarrow> hget (stakes s') n = hget (stakes s) n"
  by (auto simp: slash_def Let_def update_conv' split: option.splits if_splits)

lemma fine_failed_commitment_other:
  "fine_failed_commitment cfg w s = Some s' \<Longrightarrow> n \<noteq> w \<Longrightarrow> hget (stakes s') n = hget (stakes s) n"
  by (auto simp: fine_failed_commitment_def Let_def slash_other split: if_splits)

lemma fine_all_other: "fine_all cfg ws s = Some s' \<Longrightarrow> n \<notin> set ws \<Longrightarrow> hget (stakes s') n = hget (stakes s) n"
  by (induction ws arbitrary: s) (auto simp: fine_failed_commitment_other split: option.splits)

lemma trust_floor_frame: "snd (trust_floor cfg env paid wbs co) = co\<lparr>co_blocklist := co_blocklist (snd (trust_floor cfg env paid wbs co))\<rparr>"
proof (induction cfg env paid wbs co rule: trust_floor.induct)
  case (2 cfg env paid w b wbs co)
  let ?t = "effective_trust (gc_rank cfg) (rank_view_of env co) w (dv_now env) paid"
  let ?co = "if auto_block cfg \<and> ?t < aa_auto_block_trust_floor (gc_antiabuse cfg)
    then co\<lparr>co_blocklist := map_option (block (blocklist_io env) (dv_now env) w NodeIdKind
      ''auto-block: trust below floor'' ''auto'') (co_blocklist co)\<rparr> else co"
  have "snd (trust_floor cfg env paid ((w, b) # wbs) co) = snd (trust_floor cfg env paid wbs ?co)"
    by (simp add: Let_def case_prod_beta)
  moreover have "snd (trust_floor cfg env paid wbs ?co) = ?co\<lparr>co_blocklist := co_blocklist (snd (trust_floor cfg env paid wbs ?co))\<rparr>"
    by (rule 2 [OF refl refl])
  moreover have "?co\<lparr>co_blocklist := x\<rparr> = co\<lparr>co_blocklist := x\<rparr>" for x by simp
  ultimately show ?case by metis
qed simp

lemma shortlist_frame:
  "shortlist cfg env j pin ex cap_floor co = Some (bids, scored, co1) \<Longrightarrow> co1 = co\<lparr>co_blocklist := co_blocklist co1\<rparr>"
  using trust_floor_frame [of cfg env "jb_paid j" "filter (\<lambda>(w, b). passes_floors cfg env j cap_floor w b)
      (accepted_bids env (job_offer env j pin) (kept_candidates cfg env j ex co))" co]
  by (auto simp: shortlist_def Let_def case_prod_beta split: if_splits)

lemma conclude_blames:
  assumes "conclude cfg env j pin nv bids h ver outcome wi infl fl sl co = Some (Done out, co')"
    and "wi < length infl" "if_hash (infl ! wi) = h" "\<forall>(w, v, d)\<in>set fl. \<not> is_provider_fault v"
  defines "blamed w \<equiv> (\<exists>f\<in>set infl. w = if_worker f \<and> provably_wrong pin h f) \<or> ver \<and> w \<in> set sl"
  shows "r \<in> set (qo_receipts out) \<Longrightarrow> is_provider_fault (verdict r) \<Longrightarrow> blamed (worker_id r)"
    and "co_stake_registry co = Some reg \<Longrightarrow> \<exists>reg'. co_stake_registry co' = Some reg' \<and>
      (\<forall>n. hget (stakes reg') n \<noteq> hget (stakes reg) n \<longrightarrow> blamed n \<and> ver \<and> jb_paid j \<and> enabled (gc_economics cfg))"
proof -
  obtain win losers where sr: "swap_remove wi infl = (win, losers)" by (cases "swap_remove wi infl")
  have m: "mset infl = add_mset win (mset losers)" "win = infl ! wi" using swap_remove_mset [OF assms(2) sr] by simp_all
  then have sub: "set losers \<subseteq> set infl" by (metis insert_iff set_mset_add_mset_insert set_mset_mset subsetI)
  obtain rs where rs: "transfer_of env (if_worker win) = Some rs"
    using conclude_Done [OF assms(1)] m(2) by simp
  define ru where "ru = \<lparr>ru_agreed = h, ru_verified = ver, ru_nv = nv, ru_delivered = (Some rs \<noteq> None), ru_pin = pin,
    ru_penalty = penalty_amount cfg (negative_weight cfg env (co_trust co))\<rparr>"
  define obs where "obs = \<lparr>os_input_bytes = (case jb_input_bytes j of Some b \<Rightarrow> b | None \<Rightarrow> 0),
    os_result_rows = length (rows rs), os_result_bytes = (case result_len env rs of Some n \<Rightarrow> n | None \<Rightarrow> 0)\<rparr>"
  define ac where "ac = book_all env j ru obs win losers fl sl (co_trust co)"
  have c: "qo_receipts out = ac_receipts ac" and st: "(if ver \<and> jb_paid j \<and> enabled (gc_economics cfg)
      then (case co_stake_registry co of None \<Rightarrow> Some None | Some st \<Rightarrow> map_option Some (fine_all cfg (ac_failers ac) st))
      else Some (co_stake_registry co)) = Some (co_stake_registry co')"
    using assms(1) [unfolded conclude_def sr prod.case Let_def rs option.case, folded ru_def obs_def, folded ac_def]
    by (auto simp: bind_eq_Some_conv)
  have ag: "if_hash win = ru_agreed ru" using m(2) assms(3) by (simp add: ru_def)
  note bl = book_all_blames [OF ag assms(4), of _ env j obs losers sl "co_trust co", folded ac_def]
  show "blamed (worker_id r)" if "r \<in> set (qo_receipts out)" "is_provider_fault (verdict r)"
    using bl(1) [of r] that sub unfolding c by (auto simp: blamed_def ru_def)
  show "\<exists>reg'. co_stake_registry co' = Some reg' \<and>
      (\<forall>n. hget (stakes reg') n \<noteq> hget (stakes reg) n \<longrightarrow> blamed n \<and> ver \<and> jb_paid j \<and> enabled (gc_economics cfg))"
    if reg: "co_stake_registry co = Some reg"
  proof (cases "ver \<and> jb_paid j \<and> enabled (gc_economics cfg)")
    case False
    with st have "co_stake_registry co' = co_stake_registry co" by auto
    with reg show ?thesis by simp
  next
    case True
    with st reg have "map_option Some (fine_all cfg (ac_failers ac) reg) = Some (co_stake_registry co')" by simp
    then obtain reg' where r: "co_stake_registry co' = Some reg'" "fine_all cfg (ac_failers ac) reg = Some reg'"
      by (metis map_option_eq_Some)
    have "blamed n" if "hget (stakes reg') n \<noteq> hget (stakes reg) n" for n
    proof -
      have "n \<in> set (ac_failers ac)" using fine_all_other [OF r(2), of n] that by blast
      from bl(2) [OF this] sub show ?thesis by (auto simp: blamed_def ru_def)
    qed
    with True r(1) show ?thesis by auto
  qed
qed

section \<open>Who takes part\<close>

lemma trust_floor_bids:
  "(w, b, t) \<in> set (fst (trust_floor cfg env paid wbs co)) \<Longrightarrow> (w, b) \<in> set wbs \<and> gc_min_trust cfg \<le> t \<and>
     t = effective_trust (gc_rank cfg) (rank_view_of env co) w (dv_now env) paid"
proof (induction cfg env paid wbs co rule: trust_floor.induct)
  case (2 cfg env paid w' b' wbs co)
  let ?t = "effective_trust (gc_rank cfg) (rank_view_of env co) w' (dv_now env) paid"
  let ?co = "if auto_block cfg \<and> ?t < aa_auto_block_trust_floor (gc_antiabuse cfg)
    then co\<lparr>co_blocklist := map_option (block (blocklist_io env) (dv_now env) w' NodeIdKind
      ''auto-block: trust below floor'' ''auto'') (co_blocklist co)\<rparr> else co"
  have v: "rank_view_of env ?co = rank_view_of env co" by (simp add: rank_view_of_def)
  have "fst (trust_floor cfg env paid ((w', b') # wbs) co) =
      (if ?t < gc_min_trust cfg then fst (trust_floor cfg env paid wbs ?co) else (w', b', ?t) # fst (trust_floor cfg env paid wbs ?co))"
    by (simp add: Let_def case_prod_beta)
  with 2(2) consider "(w, b, t) = (w', b', ?t)" "\<not> ?t < gc_min_trust cfg" | "(w, b, t) \<in> set (fst (trust_floor cfg env paid wbs ?co))"
    by (metis (no_types) set_ConsD)
  then show ?case
  proof cases
    case 1
    then show ?thesis by simp
  next
    case 2
    from "2.IH" [OF refl refl this] show ?thesis unfolding v by simp
  qed
qed simp

text \<open>The gates a worker passed: as a candidate, with its bid, and against the trust floor.\<close>

definition cleared ::
    "grid_config \<Rightarrow> ('s, 'a) dispatch_env \<Rightarrow> job \<Rightarrow> string option \<Rightarrow> string set \<Rightarrow> nat \<Rightarrow> ('s, 'a) coordinator \<Rightarrow> candidate \<Rightarrow> string \<Rightarrow> bool" where
  "cleared cfg env j pin ex cap_floor co c w \<longleftrightarrow> c \<in> set (kept_candidates cfg env j ex co) \<and>
     (\<exists>b. offer_to env c (job_offer env j pin) = Some (w, b) \<and> wb_decision b = Accept \<and> passes_floors cfg env j cap_floor w b) \<and>
     gc_min_trust cfg \<le> effective_trust (gc_rank cfg) (rank_view_of env co) w (dv_now env) (jb_paid j)"

lemma score_bids_sub: "fst ` set (score_bids cfg env co paid el) \<subseteq> fst ` set el" "length (score_bids cfg env co paid el) \<le> replicas (gc_scheduler cfg)"
  by (auto simp: score_bids_def Let_def dest!: in_set_takeD) force

lemma shortlist_cleared:
  assumes "shortlist cfg env j pin ex cap_floor co = Some (bids, scored, co1)" "w \<in> fst ` set scored"
  shows "\<exists>c. cleared cfg env j pin ex cap_floor co c w"
proof -
  define acc where "acc = filter (\<lambda>(w, b). passes_floors cfg env j cap_floor w b) (accepted_bids env (job_offer env j pin) (kept_candidates cfg env j ex co))"
  have sc: "scored = score_bids cfg env co1 (jb_paid j) (fst (trust_floor cfg env (jb_paid j) acc co))"
    using assms(1) by (auto simp: shortlist_def Let_def case_prod_beta acc_def split: if_splits)
  have "w \<in> fst ` set (fst (trust_floor cfg env (jb_paid j) acc co))"
    by (rule subsetD [OF score_bids_sub(1)]) (rule assms(2) [unfolded sc])
  then obtain b t where el: "(w, b, t) \<in> set (fst (trust_floor cfg env (jb_paid j) acc co))" by (auto simp: image_iff)
  note tf = trust_floor_bids [OF el]
  then obtain c where "c \<in> set (kept_candidates cfg env j ex co)" "offer_to env c (job_offer env j pin) = Some (w, b)"
    "wb_decision b = Accept" "passes_floors cfg env j cap_floor w b"
    by (auto simp: acc_def accepted_bids_def set_map_filter)
  with tf show ?thesis unfolding cleared_def by (intro exI [of _ c] conjI exI [of _ b]) simp_all
qed

lemma shortlist_length:
  "shortlist cfg env j pin ex cap_floor co = Some (bids, scored, co1) \<Longrightarrow> length scored \<le> replicas (gc_scheduler cfg)"
  by (auto simp: shortlist_def Let_def case_prod_beta score_bids_sub(2) split: if_splits)

lemma length_inflight: "length (inflight_of (collected_by cfg env j pin bids scored)) \<le> length scored"
  by (simp add: inflight_of_def List.map_filter_def collected_by_def length_filter_le [THEN order_trans])

lemma kept_candidate_gates:
  assumes "c \<in> set (kept_candidates cfg env j ex co)"
  shows "admits_labels (job_filter cfg j) c"
    and "require_staked_hosts (gc_scheduler cfg) \<or> 0 < gc_sybil_min_stake cfg \<Longrightarrow> \<exists>i. ca_node_id c = Some i"
    and "ca_node_id c = Some i \<Longrightarrow> i \<notin> ex \<and>
      (\<forall>bl. aa_enabled (gc_antiabuse cfg) \<longrightarrow> co_blocklist co = Some bl \<longrightarrow> \<not> is_blocked i bl) \<and>
      (\<forall>reg. require_staked_hosts (gc_scheduler cfg) \<longrightarrow> co_stake_registry co = Some reg \<longrightarrow> 0 < stake_of reg i) \<and>
      (\<forall>reg. co_stake_registry co = Some reg \<longrightarrow> gc_sybil_min_stake cfg * TON_NANOTON \<le> stake_of reg i)"
  using assms by (auto simp: kept_candidates_def Let_def keep_candidate_def not_less split: if_splits option.splits)

text \<open>
  C29: Every participant of a job passed every gate. Each worker whose commit is judged was returned by
  discovery for a candidate that passed the label filter and the candidate gates, answered this job's
  offer with an accepting bid, passed the attestation, region and capacity floors, and has at least the
  minimum trust; at most the configured number of replicas takes part. When the connection
  authenticates the announced id, a worker with an announced id is not excluded, not on the deny-list
  and has the required stake; when staking is required every candidate has announced an id.
\<close>

theorem participants_cleared:
  assumes "run_attempt cfg env j ex cap_floor co = Some ((ps, Inr (Done out)), co')"
    and auth: "\<forall>c ofr i w b. ca_node_id c = Some i \<longrightarrow> offer_to env c ofr = Some (w, b) \<longrightarrow> w = i"
  shows "length (qo_participants out) \<le> replicas (gc_scheduler cfg) \<and>
    (\<forall>w\<in>set (qo_participants out). \<exists>pin c. cleared cfg env j pin ex cap_floor co c w \<and> admits_labels (job_filter cfg j) c \<and>
      (require_staked_hosts (gc_scheduler cfg) \<or> 0 < gc_sybil_min_stake cfg \<longrightarrow> ca_node_id c = Some w) \<and>
      (ca_node_id c \<noteq> None \<longrightarrow> w \<notin> ex \<and>
        (\<forall>bl. aa_enabled (gc_antiabuse cfg) \<longrightarrow> co_blocklist co = Some bl \<longrightarrow> \<not> is_blocked w bl) \<and>
        (\<forall>reg. require_staked_hosts (gc_scheduler cfg) \<longrightarrow> co_stake_registry co = Some reg \<longrightarrow> 0 < stake_of reg w) \<and>
        (\<forall>reg. co_stake_registry co = Some reg \<longrightarrow> gc_sybil_min_stake cfg * TON_NANOTON \<le> stake_of reg w)))"
proof -
  obtain pin np bids scored co1 infl fl sl h wi where a: "shortlist cfg env j pin ex cap_floor co = Some (bids, scored, co1)"
    "infl = inflight_of (collected_by cfg env j pin bids scored)" "qo_participants out = map if_worker infl"
    by (rule attempt_facts [OF assms(1)]) (rule that, assumption+)
  show ?thesis
  proof (intro conjI ballI)
    show "length (qo_participants out) \<le> replicas (gc_scheduler cfg)"
      using a length_inflight [of cfg env j pin bids scored] shortlist_length [OF a(1)] by simp
    fix w
    assume "w \<in> set (qo_participants out)"
    then have "w \<in> fst ` set scored" unfolding a(2,3) by (auto dest: inflight_of_collected(1))
    then obtain c where c: "cleared cfg env j pin ex cap_floor co c w" using shortlist_cleared [OF a(1)] by blast
    then have k: "c \<in> set (kept_candidates cfg env j ex co)" by (simp add: cleared_def)
    from c obtain b where "offer_to env c (job_offer env j pin) = Some (w, b)" unfolding cleared_def by blast
    with auth have i: "i = w" if "ca_node_id c = Some i" for i using that by blast
    then have id: "ca_node_id c = Some w" if "ca_node_id c \<noteq> None" using that by auto
    note g = kept_candidate_gates [OF k]
    have st: "ca_node_id c = Some w" if "require_staked_hosts (gc_scheduler cfg) \<or> 0 < gc_sybil_min_stake cfg"
      using g(2) [OF that] id by auto
    show "\<exists>pin c. cleared cfg env j pin ex cap_floor co c w \<and> admits_labels (job_filter cfg j) c \<and>
      (require_staked_hosts (gc_scheduler cfg) \<or> 0 < gc_sybil_min_stake cfg \<longrightarrow> ca_node_id c = Some w) \<and>
      (ca_node_id c \<noteq> None \<longrightarrow> w \<notin> ex \<and>
        (\<forall>bl. aa_enabled (gc_antiabuse cfg) \<longrightarrow> co_blocklist co = Some bl \<longrightarrow> \<not> is_blocked w bl) \<and>
        (\<forall>reg. require_staked_hosts (gc_scheduler cfg) \<longrightarrow> co_stake_registry co = Some reg \<longrightarrow> 0 < stake_of reg w) \<and>
        (\<forall>reg. co_stake_registry co = Some reg \<longrightarrow> gc_sybil_min_stake cfg * TON_NANOTON \<le> stake_of reg w))"
      by (rule exI [of _ pin], rule exI [of _ c], rule conjI [OF c], rule conjI [OF g(1)], rule conjI)
        (rule impI, erule st, rule impI, rule g(3), erule id)
  qed
qed

section \<open>Verified results\<close>

lemma quorum_decision:
  assumes "run_attempt cfg env j ex cap_floor co = Some ((ps, Inr (Done out)), co')" "qo_verified out"
    and "sc_verify_mode (gc_scheduler cfg) = Quorum" "canary_expected env (jb_query_hash j) = None"
  obtains pin infl h wi where "pin_inputs env j = Inr (pin, False)" "qo_participants out = map if_worker infl"
    "\<forall>f\<in>set infl. commit_read env f \<and> on_snapshot pin f" "qo_agreed_hash out = Some h"
    "sole_quorum (sc_quorum (gc_scheduler cfg)) infl h" "winner_idx h infl = Some wi" "qo_winner out = Some (if_worker (infl ! wi))"
proof -
  obtain pin np bids scored co1 infl fl sl h wi where a: "pin_inputs env j = Inr (pin, np)"
    "infl = inflight_of (collected_by cfg env j pin bids scored)"
    "decide cfg env j pin np (length scored) bids infl fl sl = Agreed h True" "winner_idx h infl = Some wi"
    "qo_agreed_hash out = Some h" "qo_winner out = Some (if_worker (infl ! wi))" "qo_participants out = map if_worker infl"
    using assms(2) by - (rule attempt_facts [OF assms(1)], rule that, simp_all)
  note da = decide_Agreed [OF a(3) assms(4)]
  have np: "\<not> np" using da(2) by (simp add: non_verifiable_def)
  show thesis
    by (rule that [OF _ a(7) _ a(5) _ a(4) a(6)])
      (use a(1) np da(1) da(3) [OF assms(3)] inflight_of_collected(2) a(2) in auto)
qed

text \<open>
  C3: A result of the quorum mode that is reported verified is the value of a unique quorum: the
  participants are the workers whose commits were read, none of them on a snapshot known to
  differ from the pinned one; the agreed hash has at least the configured number of commits
  and every other hash has fewer; the winner committed to the agreed hash, and nobody who did reports
  a smaller latency.
\<close>

theorem verified_by_quorum:
  assumes "run_attempt cfg env j ex cap_floor co = Some ((ps, Inr (Done out)), co')" "qo_verified out"
    and "sc_verify_mode (gc_scheduler cfg) = Quorum" "canary_expected env (jb_query_hash j) = None"
  shows "\<exists>pin infl h win. pin_inputs env j = Inr (pin, False) \<and> qo_participants out = map if_worker infl \<and>
    (\<forall>f\<in>set infl. commit_read env f \<and> on_snapshot pin f) \<and>
    qo_agreed_hash out = Some h \<and> sole_quorum (sc_quorum (gc_scheduler cfg)) infl h \<and>
    win \<in> set infl \<and> qo_winner out = Some (if_worker win) \<and> if_hash win = h \<and>
    (\<forall>f\<in>set infl. if_hash f = h \<longrightarrow> if_latency_ms win \<le> if_latency_ms f)"
proof -
  obtain pin infl h wi where q: "pin_inputs env j = Inr (pin, False)" "qo_participants out = map if_worker infl"
    "\<forall>f\<in>set infl. commit_read env f \<and> on_snapshot pin f" "qo_agreed_hash out = Some h"
    "sole_quorum (sc_quorum (gc_scheduler cfg)) infl h" "winner_idx h infl = Some wi" "qo_winner out = Some (if_worker (infl ! wi))"
    by (rule quorum_decision [OF assms])
  note wi = winner_idx_Some [OF q(6)]
  show ?thesis
  proof (intro exI [of _ pin] exI [of _ infl] exI [of _ h] exI [of _ "infl ! wi"] conjI)
    show "\<forall>f\<in>set infl. if_hash f = h \<longrightarrow> if_latency_ms (infl ! wi) \<le> if_latency_ms f" using wi(3) by blast
  qed (use q wi in simp_all)
qed

text \<open>A worker was offered the stream of the job and ended it without a commit and without an error.\<close>

definition fell_silent :: "('s, 'a) dispatch_env \<Rightarrow> string \<Rightarrow> bool" where
  "fell_silent env w \<longleftrightarrow> (\<exists>i d. snd (collect_one env i w d) = Silent w)"

definition at_fault :: "('s, 'a) dispatch_env \<Rightarrow> string option \<Rightarrow> string \<Rightarrow> bool \<Rightarrow> string \<Rightarrow> bool" where
  "at_fault env pin h ver w \<longleftrightarrow> (\<exists>f. commit_read env f \<and> if_worker f = w \<and> provably_wrong pin h f) \<or> ver \<and> fell_silent env w"

lemma silent_of_collected: "w \<in> set (silent_of (collected_by cfg env j pin bids scored)) \<Longrightarrow> fell_silent env w"
  unfolding in_collected in_collected_by fell_silent_def by (metis collect_one_worker(3))

lemma failed_of_collected: "\<forall>(w, v, d)\<in>set (failed_of cs). \<not> is_provider_fault v"
proof (clarify)
  fix w v d
  assume "(w, v, d) \<in> set (failed_of cs)" "is_provider_fault v"
  then show False using classified_not_fault [of d] unfolding in_collected by simp
qed

lemma attempt_blames:
  assumes "run_attempt cfg env j ex cap_floor co = Some ((ps, Inr (Done out)), co')"
  obtains pin np h where "pin_inputs env j = Inr (pin, np)" "qo_agreed_hash out = Some h"
    "\<And>r. r \<in> set (qo_receipts out) \<Longrightarrow> is_provider_fault (verdict r) \<Longrightarrow> at_fault env pin h (qo_verified out) (worker_id r)"
    "\<And>reg. co_stake_registry co = Some reg \<Longrightarrow> \<exists>reg'. co_stake_registry co' = Some reg' \<and>
      (\<forall>n. hget (stakes reg') n \<noteq> hget (stakes reg) n \<longrightarrow>
         at_fault env pin h (qo_verified out) n \<and> qo_verified out \<and> jb_paid j \<and> enabled (gc_economics cfg))"
proof -
  obtain pin np bids scored co1 infl fl sl h wi where a: "pin_inputs env j = Inr (pin, np)"
    "shortlist cfg env j pin ex cap_floor co = Some (bids, scored, co1)"
    "infl = inflight_of (collected_by cfg env j pin bids scored)" "fl = failed_of (collected_by cfg env j pin bids scored)"
    "sl = silent_of (collected_by cfg env j pin bids scored)" "winner_idx h infl = Some wi" "qo_agreed_hash out = Some h"
    "conclude cfg env j pin (non_verifiable cfg env j np) bids h (qo_verified out)
       (pinned (evaluate_quorum_on_commits (commit_keys infl) pin (sc_quorum (gc_scheduler cfg)))) wi infl fl sl co1 = Some (Done out, co')"
    by (rule attempt_facts [OF assms]) (rule that, assumption+)
  note wi = winner_idx_Some [OF a(6)]
  have fl: "\<forall>(w, v, d)\<in>set fl. \<not> is_provider_fault v" unfolding a(4) by (rule failed_of_collected)
  have af: "at_fault env pin h (qo_verified out) w"
    if "(\<exists>f\<in>set infl. w = if_worker f \<and> provably_wrong pin h f) \<or> qo_verified out \<and> w \<in> set sl" for w
    using that inflight_of_collected(2) [of _ cfg env j pin bids scored] silent_of_collected [of w cfg env j pin bids scored]
    unfolding at_fault_def a(3,5) by metis
  note cb = conclude_blames [OF a(8) wi(1) wi(2) fl]
  have st: "co_stake_registry co1 = co_stake_registry co"
    using shortlist_frame [OF a(2)] by (metis coordinator.select_convs(3) coordinator.surjective coordinator.update_convs(2))
  show thesis
  proof (rule that [OF a(1,7)])
    show "at_fault env pin h (qo_verified out) (worker_id r)" if "r \<in> set (qo_receipts out)" "is_provider_fault (verdict r)" for r
      by (rule af, rule cb(1) [OF that])
    fix reg
    assume "co_stake_registry co = Some reg"
    then have "co_stake_registry co1 = Some reg" by (simp add: st)
    from cb(2) [OF this] af show "\<exists>reg'. co_stake_registry co' = Some reg' \<and>
      (\<forall>n. hget (stakes reg') n \<noteq> hget (stakes reg) n \<longrightarrow>
         at_fault env pin h (qo_verified out) n \<and> qo_verified out \<and> jb_paid j \<and> enabled (gc_economics cfg))" by blast
  qed
qed


text \<open>Honest workers commit to the true hash whenever they commit, and do not fall silent.\<close>

definition honest :: "('s, 'a) dispatch_env \<Rightarrow> string set \<Rightarrow> string \<Rightarrow> bool" where
  "honest env H t \<longleftrightarrow> (\<forall>f. commit_read env f \<and> if_worker f \<in> H \<longrightarrow> if_hash f = t) \<and> (\<forall>w\<in>H. \<not> fell_silent env w)"

lemma quorum_has_honest:
  assumes "sole_quorum q infl h" "length (filter (\<lambda>f. if_worker f \<notin> H) infl) < q"
  shows "\<exists>f\<in>set infl. if_hash f = h \<and> if_worker f \<in> H"
proof (rule ccontr)
  assume "\<not> (\<exists>f\<in>set infl. if_hash f = h \<and> if_worker f \<in> H)"
  then have "filter (\<lambda>f. if_hash f = h) infl = filter (\<lambda>f. if_hash f = h) (filter (\<lambda>f. if_worker f \<notin> H) infl)"
    by (auto intro!: filter_cong simp: filter_filter)
  then have "length (filter (\<lambda>f. if_hash f = h) infl) \<le> length (filter (\<lambda>f. if_worker f \<notin> H) infl)"
    by (metis length_filter_le)
  with assms show False by (simp add: sole_quorum_def)
qed


text \<open>
  C30: Nothing is paid for nothing. An attempt that does not return a result, whatever the reason, leaves the
  payment rail, the anchor and every stake as they were.
\<close>

theorem no_result_no_money:
  assumes "run_attempt cfg env j ex cap_floor co = Some ((ps, res), co')" "\<forall>out. res \<noteq> Inr (Done out)"
  shows "co_pay co' = co_pay co \<and> co_stake_registry co' = co_stake_registry co"
proof -
  have fr: "co_pay c1 = co_pay co \<and> co_stake_registry c1 = co_stake_registry co"
    if "shortlist cfg env j pin ex cap_floor co = Some (bids, scored, c1)" for pin bids scored c1
    using shortlist_frame [OF that]
    by (metis coordinator.select_convs(3,4) coordinator.surjective coordinator.update_convs(2))
  have cc: "co_pay c2 = co_pay c1 \<and> co_stake_registry c2 = co_stake_registry c1"
    if "conclude cfg env j pin nv bids h ver oc wi infl fl sl c1 = Some (r, c2)" "\<forall>out. r \<noteq> Done out"
    for pin nv bids h ver oc wi infl fl sl c1 r c2
    using that by (auto simp: conclude_def Let_def bind_eq_Some_conv case_prod_beta split: option.splits)
  have jj: "co_pay c2 = co_pay c1 \<and> co_stake_registry c2 = co_stake_registry c1"
    if "judge cfg env j pin np n bids infl fl sl c1 = Some (r, c2)" "\<forall>out. r \<noteq> Done out"
    for pin np n bids infl fl sl c1 r c2
    using that by (auto simp: judge_def Let_def dest: cc split: option.splits decision.splits if_splits)
  show ?thesis
    using assms by (auto simp: run_attempt_def Let_def dest!: fr jj split: sum.splits option.splits if_splits prod.splits)
qed

section \<open>A small grid\<close>

text \<open>Three workers with the shipped scheduler and ranking: two commit to \<open>''t''\<close>, the fastest one to \<open>''x''\<close>.\<close>

definition grid_example :: grid_config where
  "grid_example = \<lparr>gc_scheduler = scheduler_default, gc_rank = paid_config, gc_economics = example_economics,
     gc_antiabuse = \<lparr>aa_enabled = False, aa_auto_block_enabled = False, aa_auto_block_trust_floor = 0,
       aa_fault_attribution_enabled = False, aa_job_consensus_fraction = 1, aa_nondeterminism_enabled = False,
       aa_requester_trust_enabled = False, aa_age_saturation = 20, aa_negative_floor_weight = 0\<rparr>,
     gc_private = False, gc_min_trust = 0, base_incorrect_penalty = 1 / 2, gc_sybil_min_stake = 0, gc_region_attested = False,
     gc_region_issuers = [], gc_spill_tolerance_bytes = 0, gc_metering_tolerance = 3 / 2, slash_failed_commitment_pct = 1 / 10,
     candidate_sample_size = 8, gc_per_job_memory_bytes = 1, gc_per_job_threads = 1, gc_max_spill_bytes = 0\<rparr>"

definition bid_example :: "string \<Rightarrow> nat \<Rightarrow> wire_bid" where
  "bid_example w eta = \<lparr>bid_price = 1, bid_rate_per_second = 0, bid_rate_per_gb = 0, bid_cap_seconds = 0,
     wb_job_id = ''j'', wb_worker_id = w, wb_decision = Accept, wb_eta_ms = eta, wb_attestation = stub_l0,
     wb_recent_receipts = [], wb_free_mem_bytes = 0, wb_free_threads = 1, wb_region_proof = None, wb_estimated_seconds = 0\<rparr>"

definition candidate_example :: "string \<Rightarrow> candidate" where
  "candidate_example w = \<lparr>ca_node_id = Some w, ca_provenance = Pinned, ca_addr = w, ca_networks = [], ca_groups = [], ca_region = None\<rparr>"

definition commit_example :: "string \<Rightarrow> string \<Rightarrow> nat \<Rightarrow> result_commit" where
  "commit_example w h ms = \<lparr>commit_key.input_fingerprint = [], result_hash = h, rc_job_id = ''j'', rc_worker_id = w,
     rc_row_count = 0, rc_latency_ms = ms\<rparr>"

definition env_example :: "(settlement_event list, anchor_state) dispatch_env" where
  "env_example = \<lparr>dv_crypto = hex_crypto, dv_identity = toy_signer, dv_json = \<lparr>ev_to_vec = (\<lambda>_. []), ev_from_slice = (\<lambda>_. None)\<rparr>,
     token_of_json = (\<lambda>_. None), dv_verifier = None, dv_payment = example_env, dv_bindings = None, resolve_inputs = None,
     find_candidates = (\<lambda>n f. [candidate_example ''a'', candidate_example ''b'', candidate_example ''c'']),
     proven_capacity = (\<lambda>_. None), liveness_excluded = None, offer_nonce = 1,
     offer_to = (\<lambda>c ofr. case ca_node_id c of Some w \<Rightarrow> Some (w, bid_example w 9) | None \<Rightarrow> None),
     frames_of = (\<lambda>n w d. Some [FCommit (commit_example w (if w = ''c'' then ''x'' else ''t'') (if w = ''c'' then 1 else 5))]),
     transfer_of = (\<lambda>w. Some \<lparr>columns = [], rows = []\<rparr>), result_len = (\<lambda>_. Some 0), canary_expected = (\<lambda>_. None),
     dv_now = 100, blocklist_io = True, fmt_f64 = (\<lambda>_. [])\<rparr>"

definition job_example :: job where
  "job_example = \<lparr>jb_sql = ''SELECT 1'', jb_job_id = ''j'', jb_query_hash = ''q'', jb_paid = False, jb_min_level = L0,
     jb_class = JobPublic, jb_scope = \<lparr>sc_network = None, sc_groups = [], sc_regions = [], sc_group_proof = None, sc_nodes = []\<rparr>,
     jb_input_bytes = None, jb_peak_bytes = None\<rparr>"

definition co_example :: "(settlement_event list, anchor_state) coordinator" where
  "co_example = \<lparr>co_trust = trust_new 604800 256 4096, co_blocklist = None, co_stake_registry = None, co_pay = ([], [])\<rparr>"

lemma example_fields:
  "gc_scheduler grid_example = scheduler_default" "gc_rank grid_example = paid_config" "jb_paid job_example = False"
  "aa_nondeterminism_enabled (gc_antiabuse grid_example) = False" "canary_expected env_example h = None"
  "resolve_inputs env_example = None" "transfer_of env_example w = Some \<lparr>columns = [], rows = []\<rparr>"
  by (simp_all add: grid_example_def job_example_def env_example_def)

lemma example_trust:
  "effective_trust paid_config (rank_view_of env_example co_example) w t False = 7 / 100"
  "selection_score paid_config (rank_view_of env_example co_example) w x p t False = clamp01 ((12 * x + 3 + 5 * p) / 29)"
proof -
  have rep: "wallet_reputation paid_config (rank_view_of env_example co_example) w t = (1 / 10, 0)"
    by (simp add: wallet_reputation_def paid_config_def rank_view_of_def co_example_def env_example_def trust_new_def Let_def
        wallet_siblings_def confident_reputation_def reputation_def observation_count_def)
  show "effective_trust paid_config (rank_view_of env_example co_example) w t False = 7 / 100"
    unfolding effective_trust_def rep
    by (simp add: paid_config_def rank_view_of_def co_example_def trust_new_def Let_def ranking_default_def voucher_trust_of_def
        penalty_of_def reputation_weights_default_def age_factor_def exploration_bonus_def capability_confidence_def
        proven_capability_of_def soft_trust_score_def clamp01_def)
  show "selection_score paid_config (rank_view_of env_example co_example) w x p t False = clamp01 ((12 * x + 3 + 5 * p) / 29)"
    unfolding selection_score_def rep
    by (simp add: paid_config_def rank_view_of_def co_example_def trust_new_def ranking_default_def perf_sample_def perf_aggregate_of_def
        stake_factor_for_def blend_selection_score_def stake_reliability_factor_def)
      (rule arg_cong [of _ _ clamp01], simp add: field_simps)
qed

lemma example_kept: "kept_candidates grid_example env_example job_example {} co_example =
    [candidate_example ''a'', candidate_example ''b'', candidate_example ''c'']"
  by (simp add: kept_candidates_def keep_candidate_def admits_labels_def job_filter_def grid_example_def env_example_def
      job_example_def co_example_def candidate_example_def scheduler_default_def)

lemma example_accepted: "accepted_bids env_example ofr [candidate_example ''a'', candidate_example ''b'', candidate_example ''c''] =
    [(''a'', bid_example ''a'' 9), (''b'', bid_example ''b'' 9), (''c'', bid_example ''c'' 9)]"
  by (simp add: accepted_bids_def env_example_def candidate_example_def bid_example_def List.map_filter_def)

lemma example_floors: "passes_floors grid_example env_example job_example 0 w (bid_example v 9)"
  by (simp add: passes_floors_def verified_attestation_level_def bid_example_def stub_l0_def attestation_gate_def
      job_example_def grid_example_def)

lemma example_shortlist:
  obtains bids scored where "shortlist grid_example env_example job_example None {} 0 co_example = Some (bids, scored, co_example)"
    "map fst scored = [''a'', ''b'', ''c'']" "\<And>w b. hget bids w = Some b \<Longrightarrow> from_bid (bid_of b) = None"
proof -
  let ?el = "map (\<lambda>w. (w, bid_example w 9, 7 / 100 :: real)) [''a'', ''b'', ''c'']"
  have tf: "trust_floor grid_example env_example False [(''a'', bid_example ''a'' 9), (''b'', bid_example ''b'' 9), (''c'', bid_example ''c'' 9)] co_example
      = (?el, co_example)"
    by (simp add: auto_block_def grid_example_def example_trust Let_def)
  have hint: "cap_hint grid_example env_example w = 0" for w by (simp add: cap_hint_def env_example_def)
  have sc: "map fst (score_bids grid_example env_example co_example False ?el) = [''a'', ''b'', ''c'']"
    by (simp add: score_bids_def example_fields scheduler_default_def example_trust Let_def bid_example_def bid_of_def bid.defs
        bid_price_signal_def normalize_price_def hint u64_max_def)
  have bd: "from_bid (bid_of b) = None" if "hget (bid_by_node ?el) w = Some b" for w b
    using that by (auto simp: bid_by_node_def from_bid_def bid_of_def bid.defs bid_example_def split: if_splits)
  have "shortlist grid_example env_example job_example None {} 0 co_example =
      Some (bid_by_node ?el, score_bids grid_example env_example co_example False ?el, co_example)"
    by (simp add: shortlist_def example_kept example_accepted example_floors tf example_fields del: trust_floor.simps)
  from that [OF this sc] bd show thesis by blast
qed

lemma example_collected:
  assumes "map fst scored = [''a'', ''b'', ''c'']"
  shows "collected_by grid_example env_example job_example None bids scored =
    [Committed \<lparr>if_worker = ''a'', if_hash = ''t'', if_latency_ms = 5, if_fingerprint = []\<rparr>,
     Committed \<lparr>if_worker = ''b'', if_hash = ''t'', if_latency_ms = 5, if_fingerprint = []\<rparr>,
     Committed \<lparr>if_worker = ''c'', if_hash = ''x'', if_latency_ms = 1, if_fingerprint = []\<rparr>]"
proof -
  obtain x y z where "scored = [(''a'', x), (''b'', y), (''c'', z)]" using assms by (auto simp: map_eq_Cons_conv)
  then show ?thesis by (cases x; cases y; cases z) (simp add: collected_by_def collect_one_def env_example_def commit_example_def)
qed

lemma free_conclude:
  assumes "\<not> jb_paid j" "transfer_of env (if_worker (fst (swap_remove wi infl))) = Some rs"
    and "\<And>b. hget bids (if_worker (fst (swap_remove wi infl))) = Some b \<Longrightarrow> from_bid (bid_of b) = None"
  shows "\<exists>out co'. conclude cfg env j pin nv bids h ver oc wi infl fl sl co = Some (Done out, co') \<and> qo_verified out = ver \<and>
    qo_agreed_hash out = Some h \<and> qo_participants out = map if_worker infl"
  using assms by (auto simp: conclude_def Let_def case_prod_beta settle_paid_job_def split: option.split)

lemma example_attempt:
  obtains ps out co' where "run_attempt grid_example env_example job_example {} 0 co_example = Some ((ps, Inr (Done out)), co')"
    "qo_verified out" "qo_agreed_hash out = Some ''t''" "qo_participants out = [''a'', ''b'', ''c'']"
proof -
  obtain bids scored where sl: "shortlist grid_example env_example job_example None {} 0 co_example = Some (bids, scored, co_example)"
    "map fst scored = [''a'', ''b'', ''c'']" "\<And>w b. hget bids w = Some b \<Longrightarrow> from_bid (bid_of b) = None"
    by (rule example_shortlist) (rule that)
  note cl = example_collected [OF sl(2), of bids]
  let ?infl = "inflight_of (collected_by grid_example env_example job_example None bids scored)"
  have infl: "?infl = [\<lparr>if_worker = ''a'', if_hash = ''t'', if_latency_ms = 5, if_fingerprint = []\<rparr>,
      \<lparr>if_worker = ''b'', if_hash = ''t'', if_latency_ms = 5, if_fingerprint = []\<rparr>,
      \<lparr>if_worker = ''c'', if_hash = ''x'', if_latency_ms = 1, if_fingerprint = []\<rparr>]"
    unfolding cl by (simp add: inflight_of_def List.map_filter_def)
  have nv: "\<not> non_verifiable grid_example env_example job_example False"
    by (simp add: non_verifiable_def nondeterminism_active_def example_fields)
  have sq: "sole_quorum 2 ?infl ''t''" unfolding infl by (auto simp: sole_quorum_def)
  have "agreed_hash (evaluate_quorum (map if_hash ?infl) 2) = Some ''t''" using sq by (simp only: agreed_hash_sole_quorum)
  moreover have "\<not> split (evaluate_quorum (map if_hash ?infl) 2)" unfolding infl by code_simp
  ultimately have d: "decide grid_example env_example job_example None False (length scored) bids ?infl fl sl = Agreed ''t'' True" for fl sl
    by (subst decide_undrifted) (simp_all add: example_fields nv scheduler_default_def on_snapshot_def)
  have wi: "winner_idx ''t'' ?infl = Some 0" unfolding infl by (simp add: winner_idx_def)
  have len: "length scored = 3" using arg_cong [OF sl(2), of length] by simp
  let ?fl = "failed_of (collected_by grid_example env_example job_example None bids scored)"
  let ?sl = "silent_of (collected_by grid_example env_example job_example None bids scored)"
  let ?oc = "pinned (evaluate_quorum_on_commits (commit_keys ?infl) None (sc_quorum (gc_scheduler grid_example)))"
  obtain out co' where c: "conclude grid_example env_example job_example None False bids ''t'' True ?oc 0 ?infl ?fl ?sl co_example = Some (Done out, co')"
    "qo_verified out" "qo_agreed_hash out = Some ''t''" "qo_participants out = map if_worker ?infl"
    using free_conclude [of job_example env_example 0 ?infl _ bids grid_example None False "''t''" True ?oc ?fl ?sl co_example] sl(3)
    by (auto simp: example_fields)
  have j: "judge grid_example env_example job_example None False (length scored) bids ?infl ?fl ?sl co_example = Some (Done out, co')"
    using c(1) by (simp add: judge_def Let_def d wi nv)
  have pre: "escrow_preflight grid_example env_example job_example bids scored = None" by (simp add: escrow_preflight_def example_fields Let_def)
  have pin: "pin_inputs env_example job_example = Inr (None, False)" by (simp add: pin_inputs_def example_fields)
  have "\<exists>ps. run_attempt grid_example env_example job_example {} 0 co_example = Some ((ps, Inr (Done out)), co')"
    using j unfolding run_attempt_def collected_by_def
    by (simp add: pin sl(1) pre len example_fields scheduler_default_def Let_def)
  with c(2-4) show thesis using that unfolding infl by auto
qed

lemma example_honest: "honest env_example {''a'', ''b''} ''t''"
  by (auto simp: honest_def commit_read_def fell_silent_def collect_one_def env_example_def commit_example_def)

text \<open>The witnesses of the properties: the attempt of the small grid.\<close>

theorem participants_cleared_witness:
  "\<exists>ps out co'. run_attempt grid_example env_example job_example {} 0 co_example = Some ((ps, Inr (Done out)), co') \<and>
     qo_participants out = [''a'', ''b'', ''c''] \<and> (\<exists>pin c. cleared grid_example env_example job_example pin {} 0 co_example c ''a'')"
proof -
  obtain ps out co' where e: "run_attempt grid_example env_example job_example {} 0 co_example = Some ((ps, Inr (Done out)), co')"
    "qo_participants out = [''a'', ''b'', ''c'']"
    by (rule example_attempt) (rule that)
  have "\<forall>c ofr i w b. ca_node_id c = Some i \<longrightarrow> offer_to env_example c ofr = Some (w, b) \<longrightarrow> w = i" by (simp add: env_example_def)
  note pc = conjunct2 [OF participants_cleared [OF e(1) this]]
  have "''a'' \<in> set (qo_participants out)" by (simp add: e)
  from bspec [OF pc this] obtain pin c where "cleared grid_example env_example job_example pin {} 0 co_example c ''a''"
    by (elim exE conjE) (rule that)
  with e show ?thesis by blast
qed

theorem verified_by_quorum_witness:
  "\<exists>ps out co' infl. run_attempt grid_example env_example job_example {} 0 co_example = Some ((ps, Inr (Done out)), co') \<and>
     qo_verified out \<and> qo_agreed_hash out = Some ''t'' \<and> sole_quorum 2 infl ''t'' \<and> map if_worker infl = [''a'', ''b'', ''c'']"
proof -
  obtain ps out co' where e: "run_attempt grid_example env_example job_example {} 0 co_example = Some ((ps, Inr (Done out)), co')"
    "qo_verified out" "qo_agreed_hash out = Some ''t''" "qo_participants out = [''a'', ''b'', ''c'']"
    by (rule example_attempt)
  have m: "sc_verify_mode (gc_scheduler grid_example) = Quorum" "sc_quorum (gc_scheduler grid_example) = 2"
    by (simp_all add: example_fields scheduler_default_def)
  obtain infl h where "qo_participants out = map if_worker infl" "qo_agreed_hash out = Some h" "sole_quorum 2 infl h"
    using verified_by_quorum [OF e(1,2) m(1) example_fields(5)] unfolding m(2) by blast
  with e show ?thesis by auto
qed



theorem no_result_no_money_witness:
  "run_attempt grid_example (env_example\<lparr>find_candidates := \<lambda>n f. []\<rparr>) job_example {} 0 co_example = Some (([], Inr NoCandidates), co_example) \<and>
   co_pay co_example = ([], [])"
proof -
  have "run_attempt grid_example (env_example\<lparr>find_candidates := \<lambda>n f. []\<rparr>) job_example {} 0 co_example = Some (([], Inr NoCandidates), co_example)"
    by (simp add: run_attempt_def pin_inputs_def example_fields shortlist_def kept_candidates_def Let_def)
  with no_result_no_money [OF this] show ?thesis by (simp add: co_example_def)
qed

section \<open>Limits\<close>

text \<open>
  Fast mode judges by the fastest commit and calls the result verified when any hash reached a quorum. A
  single fast liar against an honest majority: the liar's hash is the agreed one, the result counts as
  verified, and both honest commits get the verdict \<open>Incorrect\<close>.
\<close>

lemma fast_mode_blames_majority:
  fixes env :: "('s, 'a) dispatch_env"
  assumes "canary_expected env (jb_query_hash j) = None" "\<not> non_verifiable cfg env j np"
    and "sc_verify_mode (gc_scheduler cfg) = Fast" "sc_quorum (gc_scheduler cfg) = 2"
  defines "liar \<equiv> \<lparr>if_worker = ''c'', if_hash = ''x'', if_latency_ms = 1, if_fingerprint = []\<rparr>"
    and "h1 \<equiv> \<lparr>if_worker = ''a'', if_hash = ''t'', if_latency_ms = 5, if_fingerprint = []\<rparr>"
    and "h2 \<equiv> \<lparr>if_worker = ''b'', if_hash = ''t'', if_latency_ms = 5, if_fingerprint = []\<rparr>"
  shows "decide cfg env j None np 3 bids [h1, h2, liar] [] [] = Agreed ''x'' True"
    and "commit_verdict False True False ''x'' None h1 = Incorrect" "commit_verdict False True False ''x'' None h2 = Incorrect"
proof -
  have "reached (evaluate_quorum [''t'', ''t'', ''x''] 2)" by code_simp
  then show "decide cfg env j None np 3 bids [h1, h2, liar] [] [] = Agreed ''x'' True"
    by (subst decide_undrifted [OF assms(1)]) (simp_all add: assms fastest_of_def on_snapshot_def)
qed (simp_all add: commit_verdict_def h1_def h2_def)

text \<open>
  The decision never looks at who committed: two commits of one worker reached through two candidate
  entries are a quorum of two.
\<close>

lemma one_worker_makes_quorum: "sole_quorum 2 [\<lparr>if_worker = w, if_hash = h, if_latency_ms = 1, if_fingerprint = []\<rparr>,
    \<lparr>if_worker = w, if_hash = h, if_latency_ms = 2, if_fingerprint = []\<rparr>] h"
  by (simp add: sole_quorum_def)

text \<open>A candidate without an announced id skips the deny-list and the exclusion set, whoever answers.\<close>

lemma anonymous_candidate_unchecked:
  assumes "admits_labels flt c" "ca_node_id c = None" "\<not> require_staked_hosts (gc_scheduler cfg)" "gc_sybil_min_stake cfg = 0"
  shows "keep_candidate cfg env co flt ex scanned c"
  using assms by (simp add: keep_candidate_def)

text \<open>The result delivered is whatever the winner streams; no hash of it is compared with the agreed one.\<close>

lemma delivered_result_unchecked:
  assumes "run_attempt cfg env j ex cap_floor co = Some ((ps, Inr (Done out)), co')"
  shows "\<exists>w. qo_winner out = Some w \<and> transfer_of env w = Some (qo_result out)"
proof -
  obtain w where "qo_winner out = Some w" "transfer_of env w = Some (qo_result out)"
    by (rule attempt_facts [OF assms]) (rule that, assumption+)
  then show ?thesis by blast
qed

section \<open>Credentials\<close>

lemma common_prefix_prefix: "prefix (common_prefix xs ys) xs" "prefix (common_prefix xs ys) ys"
  by (induction xs ys rule: common_prefix.induct) auto

lemma common_prefix_greatest: "prefix p xs \<Longrightarrow> prefix p ys \<Longrightarrow> prefix p (common_prefix xs ys)"
  by (induction xs ys arbitrary: p rule: common_prefix.induct) (auto simp: prefix_Cons)

lemma fold_common_prefix:
  "prefix (fold (\<lambda>u p. common_prefix p u) us p) p"
  "u \<in> set us \<Longrightarrow> prefix (fold (\<lambda>u p. common_prefix p u) us p) u"
proof (induction us arbitrary: p)
  case (Cons v us)
  {
    case 1
    show ?case using Cons(1) [of "common_prefix p v"] common_prefix_prefix(1) [of p v] by (auto intro: prefix_order.trans)
  next
    case 2
    then show ?case using Cons(1,2) [of "common_prefix p v"] common_prefix_prefix(2) [of p v] by (auto intro: prefix_order.trans)
  }
qed simp_all

lemma fold_common_prefix_greatest:
  "prefix q p \<Longrightarrow> \<forall>u\<in>set us. prefix q u \<Longrightarrow> prefix q (fold (\<lambda>u p. common_prefix p u) us p)"
  by (induction us arbitrary: p) (auto intro: common_prefix_greatest)

lemma up_to_last_slash_prefix: "prefix (up_to_last_slash p) p"
  using suffix_dropWhile [of "\<lambda>c. c \<noteq> CHR ''/''" "rev p"] by (simp add: up_to_last_slash_def suffix_to_prefix)

lemma up_to_last_slash_greatest:
  assumes "prefix (q @ ''/'') p"
  shows "prefix (q @ ''/'') (up_to_last_slash p)"
proof -
  obtain r where p: "p = q @ ''/'' @ r" using assms by (auto simp: prefix_def)
  have "rev p = rev r @ CHR ''/'' # rev q" by (simp add: p)
  then have "dropWhile (\<lambda>c. c \<noteq> CHR ''/'') (rev p) = dropWhile (\<lambda>c. c \<noteq> CHR ''/'') (rev r) @ CHR ''/'' # rev q \<or>
      dropWhile (\<lambda>c. c \<noteq> CHR ''/'') (rev p) = CHR ''/'' # rev q"
    by (auto simp: dropWhile_append)
  moreover have "CHR ''/'' \<in> set p" by (simp add: p)
  ultimately show ?thesis unfolding up_to_last_slash_def by (auto simp: p)
qed

text \<open>
  A storage credential is handed out only with a non-empty scope, the scope contains every pinned
  object, and it is the narrowest directory that does: any directory containing all of them
  contains the scope.
\<close>

theorem credential_narrowest:
  assumes "job_access mode presign issuer snap = (Some pre, urls)"
  shows "\<exists>s. snap = Some s \<and> pre \<noteq> [] \<and> objects s \<noteq> [] \<and> (\<forall>ob\<in>set (objects s). prefix pre (po_uri ob)) \<and>
    (\<forall>d. (\<forall>ob\<in>set (objects s). prefix (d @ ''/'') (po_uri ob)) \<longrightarrow> prefix (d @ ''/'') pre)"
proof -
  obtain s where s: "snap = Some s" "pre = credential_prefix s" "pre \<noteq> []"
    using assms by (auto simp: job_access_def Let_def split: credential_mode.splits if_splits option.splits)
  then obtain ob obs where ob: "objects s = ob # obs" by (cases "objects s") (auto simp: credential_prefix_def)
  define p where "p = fold (\<lambda>u p. common_prefix p u) (map po_uri obs) (po_uri ob)"
  have pre: "pre = up_to_last_slash p" using s(2) ob by (simp add: credential_prefix_def p_def)
  have "prefix pre (po_uri ob')" if "ob' \<in> set (objects s)" for ob'
    using that up_to_last_slash_prefix [of p] fold_common_prefix(1) [of "map po_uri obs" "po_uri ob"]
      fold_common_prefix(2) [of "po_uri ob'" "map po_uri obs" "po_uri ob"]
    unfolding pre ob p_def by (auto intro: prefix_order.trans)
  moreover have "prefix (d @ ''/'') pre" if "\<forall>ob\<in>set (objects s). prefix (d @ ''/'') (po_uri ob)" for d
    unfolding pre p_def
    by (rule up_to_last_slash_greatest, rule fold_common_prefix_greatest) (use that ob in auto)
  ultimately show ?thesis using s ob by auto
qed

definition snapshot_example :: "string list \<Rightarrow> input_snapshot" where
  "snapshot_example us = \<lparr>fingerprint = [], objects = map (\<lambda>u. \<lparr>po_uri = u, po_provider = ''s3'', po_version = Gcs (Some 1)\<rparr>) us\<rparr>"

theorem credential_narrowest_witness:
  "job_access ScopedSecret None True (Some (snapshot_example [''s3://b/d/x'', ''s3://b/d/yz''])) = (Some ''s3://b/d/'', []) \<and>
   prefix ''s3://b/'' ''s3://b/d/''"
proof -
  have j: "job_access ScopedSecret None True (Some (snapshot_example [''s3://b/d/x'', ''s3://b/d/yz''])) = (Some ''s3://b/d/'', [])"
    by (simp add: job_access_def snapshot_example_def credential_prefix_def up_to_last_slash_def)
  obtain s where "Some (snapshot_example [''s3://b/d/x'', ''s3://b/d/yz'']) = Some s"
    "\<forall>d. (\<forall>ob\<in>set (objects s). prefix (d @ ''/'') (po_uri ob)) \<longrightarrow> prefix (d @ ''/'') ''s3://b/d/''"
    using credential_narrowest [OF j] by (elim exE conjE) (rule that)
  then have "prefix (''s3://b'' @ ''/'') ''s3://b/d/''" by (auto simp: snapshot_example_def)
  with j show ?thesis by simp
qed

text \<open>Two objects in different buckets: the scope is the provider's root.\<close>

lemma credential_root_scope:
  "job_access ScopedSecret None True (Some (snapshot_example [''s3://a/x'', ''s3://b/x''])) = (Some ''s3://'', [])"
  by (simp add: job_access_def snapshot_example_def credential_prefix_def up_to_last_slash_def)

end
