(* ===== verification/Tvm.thy ===== *)
theory Tvm
  imports Settlement
begin

text \<open>
  How the contracts of \<open>ton/contracts\<close> run: the exit codes and constants of \<open>common.tolk\<close>, and the part
  of a TON transaction the contracts rely on. A handler either throws, which leaves everything as it was,
  or yields new storage and a list of actions; the action phase performs the actions in order, and when
  one of them cannot be paid for the transaction has no effect. Fees are amounts the chain chooses. A
  message in flight is delivered or bounces; a bounced message returns to the sender with what is left of
  its value.
\<close>

section \<open>Shared codes and constants\<close>

text \<open>\<open>ErrCode\<close>; the last one is the machine's own, thrown when a value does not fit its field.\<close>

datatype (plugins only: code) err_code =
    NOT_OWNER | NOT_FROM_MASTER | NOT_VALID_WALLET | UNAUTHORIZED_BURN | BALANCE_NEGATIVE | NOT_ENOUGH_GAS
    | RECEIPT_LOCKED | INVALID_OP | NOT_SLASHER | NOTHING_TO_UNBOND | UNBOND_IN_PROGRESS | COOLDOWN_NOT_ELAPSED
    | NO_UNBONDING | KEEPER_TOO_EARLY | SLASH_EXCEEDS_STAKE | INVALID_SPLIT | NO_PENDING_UPGRADE
    | UPGRADE_TIMELOCK_ACTIVE | UPGRADE_CODE_MISMATCH | ESCROW_NOT_FUNDED | NOT_REQUESTER | NOT_ARBITER
    | HASH_MISMATCH | ALREADY_SETTLED | TIMEOUT_NOT_REACHED | PAYOUT_EXCEEDS_ESCROW | BAD_PREV_ROOT | EPOCH_REGRESSION
    | INSUFFICIENT_ANCHOR_STAKE | BAD_INCLUSION_PROOF | DISPUTE_BOND_TOO_LOW | NO_SUCH_DISPUTE | NOT_VERDICT_AUTHORITY
    | DISPUTE_NOT_OPEN | UNKNOWN_EPOCH | PROOF_TOO_DEEP | NOT_ANCHOR_KEEPER | ZERO_ROOT | BOND_FLOOR_TOO_LOW
    | NOT_ADMIN | PARAMS_OUT_OF_BOUNDS | NOT_OWNER_SIG | SETTLE_POLICY_MISMATCH | TOO_MANY_PARTICIPANTS
    | UPGRADE_NOT_AUTHORITY | BAD_BOUNTY_BPS | FEE_MISMATCH | COMMISSION_MISMATCH | RANGE_CHECK

text \<open>The numbers are part of the contracts' interface.\<close>

primrec exit_code :: "err_code \<Rightarrow> int" where
  "exit_code NOT_OWNER = 132"
| "exit_code NOT_FROM_MASTER = 133"
| "exit_code NOT_VALID_WALLET = 134"
| "exit_code UNAUTHORIZED_BURN = 135"
| "exit_code BALANCE_NEGATIVE = 136"
| "exit_code NOT_ENOUGH_GAS = 137"
| "exit_code RECEIPT_LOCKED = 138"
| "exit_code INVALID_OP = 0xffff"
| "exit_code NOT_SLASHER = 200"
| "exit_code NOTHING_TO_UNBOND = 201"
| "exit_code UNBOND_IN_PROGRESS = 202"
| "exit_code COOLDOWN_NOT_ELAPSED = 203"
| "exit_code NO_UNBONDING = 204"
| "exit_code KEEPER_TOO_EARLY = 205"
| "exit_code SLASH_EXCEEDS_STAKE = 206"
| "exit_code INVALID_SPLIT = 207"
| "exit_code NO_PENDING_UPGRADE = 208"
| "exit_code UPGRADE_TIMELOCK_ACTIVE = 209"
| "exit_code UPGRADE_CODE_MISMATCH = 210"
| "exit_code ESCROW_NOT_FUNDED = 220"
| "exit_code NOT_REQUESTER = 221"
| "exit_code NOT_ARBITER = 222"
| "exit_code HASH_MISMATCH = 223"
| "exit_code ALREADY_SETTLED = 224"
| "exit_code TIMEOUT_NOT_REACHED = 225"
| "exit_code PAYOUT_EXCEEDS_ESCROW = 226"
| "exit_code BAD_PREV_ROOT = 240"
| "exit_code EPOCH_REGRESSION = 241"
| "exit_code INSUFFICIENT_ANCHOR_STAKE = 242"
| "exit_code BAD_INCLUSION_PROOF = 243"
| "exit_code DISPUTE_BOND_TOO_LOW = 244"
| "exit_code NO_SUCH_DISPUTE = 245"
| "exit_code NOT_VERDICT_AUTHORITY = 246"
| "exit_code DISPUTE_NOT_OPEN = 247"
| "exit_code UNKNOWN_EPOCH = 248"
| "exit_code PROOF_TOO_DEEP = 249"
| "exit_code NOT_ANCHOR_KEEPER = 250"
| "exit_code ZERO_ROOT = 251"
| "exit_code BOND_FLOOR_TOO_LOW = 252"
| "exit_code NOT_ADMIN = 260"
| "exit_code PARAMS_OUT_OF_BOUNDS = 261"
| "exit_code NOT_OWNER_SIG = 280"
| "exit_code SETTLE_POLICY_MISMATCH = 281"
| "exit_code TOO_MANY_PARTICIPANTS = 282"
| "exit_code UPGRADE_NOT_AUTHORITY = 283"
| "exit_code BAD_BOUNTY_BPS = 284"
| "exit_code FEE_MISMATCH = 285"
| "exit_code COMMISSION_MISMATCH = 286"
| "exit_code RANGE_CHECK = 5"

definition MIN_TONS_FOR_STORAGE :: nat where "MIN_TONS_FOR_STORAGE = 50000000"
definition MAX_MERKLE_PROOF_DEPTH :: nat where "MAX_MERKLE_PROOF_DEPTH = 32"
definition MIN_DISPUTE_BOND_FLOOR :: nat where "MIN_DISPUTE_BOND_FLOOR = 10000000"
definition MAX_SETTLE_PARTICIPANTS :: nat where "MAX_SETTLE_PARTICIPANTS = 32"

section \<open>Messages, actions and transactions\<close>

text \<open>
  Amounts are serialised as \<open>VarUInteger 16\<close>, times and versions as \<open>uint32\<close>; a value out of range throws.
  A hash of zero means there is none.
\<close>

definition NO_HASH :: hash32 where "NO_HASH = replicate 32 0"
definition fits_coins :: "nat \<Rightarrow> bool" where "fits_coins n \<longleftrightarrow> n < 2 ^ 120"
definition fits_u32 :: "nat \<Rightarrow> bool" where "fits_u32 n \<longleftrightarrow> n < 2 ^ 32"

record in_message =
  in_sender :: wallet_address
  in_value :: nat
  in_now :: nat

datatype send_mode = PayFees | PayFeesIgnoreErrors | CarryAllBalance | CarryMessageIgnoreErrors

datatype 'b action =
    Reserve nat
  | Send send_mode wallet_address nat bool 'b
  | EmitLog 'b
  | SetCode hash32

record 'b out_msg =
  om_dest :: wallet_address
  om_value :: nat
  om_bounce :: bool
  om_body :: 'b

text \<open>
  The action phase. \<open>fwd\<close> is the forwarding fee of a message, \<open>inb\<close> what is left of the incoming value,
  \<open>bal\<close> the balance not set aside. A reserved amount is back on the balance at the end.
\<close>

fun do_actions :: "nat \<Rightarrow> nat \<Rightarrow> nat \<Rightarrow> 'b action list \<Rightarrow> ('b out_msg list \<times> nat) option" where
  "do_actions fwd inb bal [] = Some ([], bal)"
| "do_actions fwd inb bal (Reserve a # acts) =
     (if bal < a then None else map_option (\<lambda>(out, b). (out, b + a)) (do_actions fwd inb (bal - a) acts))"
| "do_actions fwd inb bal (Send mode d v bn body # acts) =
     (case mode of
        PayFees \<Rightarrow>
          if bal < v + fwd then None
          else map_option (\<lambda>(out, b). (\<lparr>om_dest = d, om_value = v, om_bounce = bn, om_body = body\<rparr> # out, b))
                 (do_actions fwd inb (bal - (v + fwd)) acts)
      | PayFeesIgnoreErrors \<Rightarrow>
          if bal < v + fwd then do_actions fwd inb bal acts
          else map_option (\<lambda>(out, b). (\<lparr>om_dest = d, om_value = v, om_bounce = bn, om_body = body\<rparr> # out, b))
                 (do_actions fwd inb (bal - (v + fwd)) acts)
      | CarryAllBalance \<Rightarrow>
          if bal < fwd then None
          else map_option (\<lambda>(out, b). (\<lparr>om_dest = d, om_value = bal - fwd, om_bounce = bn, om_body = body\<rparr> # out, b))
                 (do_actions fwd inb 0 acts)
      | CarryMessageIgnoreErrors \<Rightarrow>
          if bal < inb \<or> inb < fwd then do_actions fwd inb bal acts
          else map_option (\<lambda>(out, b). (\<lparr>om_dest = d, om_value = inb - fwd, om_bounce = bn, om_body = body\<rparr> # out, b))
                 (do_actions fwd 0 (bal - inb) acts))"
| "do_actions fwd inb bal (EmitLog body # acts) =
     (if bal < fwd then None else do_actions fwd inb (bal - fwd) acts)"
| "do_actions fwd inb bal (SetCode c # acts) = do_actions fwd inb bal acts"

text \<open>
  One transaction with value \<open>v\<close> and gas fee \<open>gas\<close> on a contract with balance \<open>bal\<close>: the new storage, the
  new balance and the messages sent. \<open>None\<close> when the handler throws or an action cannot be paid for.
\<close>

definition run_tx :: "nat \<Rightarrow> nat \<Rightarrow> nat \<Rightarrow> nat \<Rightarrow> err_code + 's \<times> 'b action list \<Rightarrow> ('s \<times> nat \<times> 'b out_msg list) option" where
  "run_tx gas fwd v bal r =
     (case r of
        Inl e \<Rightarrow> None
      | Inr (s, acts) \<Rightarrow>
          if bal + v < gas then None
          else map_option (\<lambda>(out, b). (s, b, out)) (do_actions fwd (v - gas) (bal + v - gas) acts))"

section \<open>A contract on the chain\<close>

text \<open>
  Storage and balance, the messages sent and not yet processed, those processed by their destination, and
  the fees and rent charged so far. A bounced message whose handler cannot run, for lack of gas say, only
  leaves money on the balance; its value counts as a fee too. The time of a block is never zero.
\<close>

record ('s, 'b) chain =
  ch_store :: 's
  ch_balance :: nat
  ch_flight :: "'b out_msg list"
  ch_done :: "'b out_msg list"
  ch_fees :: nat

definition sent :: "'b out_msg list \<Rightarrow> nat" where
  "sent out = sum_list (map om_value out)"

inductive chain_step ::
    "(in_message \<Rightarrow> 'm \<Rightarrow> 's \<Rightarrow> err_code + 's \<times> 'b action list) \<Rightarrow>
     (in_message \<Rightarrow> 'b \<Rightarrow> 's \<Rightarrow> err_code + 's \<times> 'b action list) \<Rightarrow> ('s, 'b) chain \<Rightarrow> ('s, 'b) chain \<Rightarrow> bool"
  for recv :: "in_message \<Rightarrow> 'm \<Rightarrow> 's \<Rightarrow> err_code + 's \<times> 'b action list"
    and bounced :: "in_message \<Rightarrow> 'b \<Rightarrow> 's \<Rightarrow> err_code + 's \<times> 'b action list"
where
  receive: "0 < in_now i \<Longrightarrow> run_tx gas fwd (in_value i) (ch_balance c) (recv i m (ch_store c)) = Some (s, b, out) \<Longrightarrow>
    chain_step recv bounced c (c\<lparr>ch_store := s, ch_balance := b, ch_flight := ch_flight c @ out,
      ch_fees := ch_fees c + (ch_balance c + in_value i - (b + sent out))\<rparr>)"
| refuse: "run_tx gas fwd (in_value i) (ch_balance c) (recv i m (ch_store c)) = None \<Longrightarrow> kept \<le> in_value i \<Longrightarrow>
    chain_step recv bounced c (c\<lparr>ch_balance := ch_balance c + kept\<rparr>)"
| deliver: "ch_flight c = xs @ o1 # ys \<Longrightarrow>
    chain_step recv bounced c (c\<lparr>ch_flight := xs @ ys, ch_done := ch_done c @ [o1]\<rparr>)"
| bounce: "ch_flight c = xs @ o1 # ys \<Longrightarrow> om_bounce o1 \<Longrightarrow> in_sender i = om_dest o1 \<Longrightarrow> in_value i \<le> om_value o1 \<Longrightarrow>
    run_tx gas fwd (in_value i) (ch_balance c) (bounced i (om_body o1) (ch_store c)) = Some (s, b, out) \<Longrightarrow>
    chain_step recv bounced c (c\<lparr>ch_store := s, ch_balance := b, ch_flight := xs @ ys @ out,
      ch_fees := ch_fees c + (om_value o1 - in_value i) + (ch_balance c + in_value i - (b + sent out))\<rparr>)"
| bounce_skipped: "ch_flight c = xs @ o1 # ys \<Longrightarrow> om_bounce o1 \<Longrightarrow> in_sender i = om_dest o1 \<Longrightarrow> in_value i \<le> om_value o1 \<Longrightarrow>
    run_tx gas fwd (in_value i) (ch_balance c) (bounced i (om_body o1) (ch_store c)) = None \<Longrightarrow> kept \<le> in_value i \<Longrightarrow>
    chain_step recv bounced c (c\<lparr>ch_balance := ch_balance c + kept, ch_flight := xs @ ys, ch_fees := ch_fees c + om_value o1\<rparr>)"
| rent: "r \<le> ch_balance c \<Longrightarrow>
    chain_step recv bounced c (c\<lparr>ch_balance := ch_balance c - r, ch_fees := ch_fees c + r\<rparr>)"

section \<open>The action phase\<close>

lemma sent_simps [simp]: "sent [] = 0" "sent (x # xs) = om_value x + sent xs" "sent (xs @ ys) = sent xs + sent ys"
  by (simp_all add: sent_def)

text \<open>No transaction creates money: what was there is the new balance, what was sent, and fees.\<close>

lemma do_actions_conserves: "do_actions fwd inb bal acts = Some (out, b) \<Longrightarrow> b + sent out \<le> bal"
proof (induction fwd inb bal acts arbitrary: out b rule: do_actions.induct)
  case (3 fwd inb bal mode d v bn body acts)
  then show ?case by (cases mode) (fastforce split: if_splits)+
qed (fastforce split: if_splits)+

lemma run_tx_Some:
  assumes "run_tx gas fwd v bal r = Some (s, b, out)"
  obtains acts where "r = Inr (s, acts)" "gas \<le> bal + v" "do_actions fwd (v - gas) (bal + v - gas) acts = Some (out, b)"
  using assms by (auto simp: run_tx_def split: sum.splits if_splits)

lemma run_tx_conserves: "run_tx gas fwd v bal r = Some (s, b, out) \<Longrightarrow> b + sent out \<le> bal + v"
  by (erule run_tx_Some) (drule do_actions_conserves, simp)

text \<open>The payouts to a list of recipients are made in full or not at all.\<close>

lemma do_actions_PayFees:
  "do_actions fwd inb bal (Send PayFees d v bn body # acts) = Some (out, b) \<Longrightarrow>
     \<exists>out'. out = \<lparr>om_dest = d, om_value = v, om_bounce = bn, om_body = body\<rparr> # out' \<and> v + fwd \<le> bal \<and>
       do_actions fwd inb (bal - (v + fwd)) acts = Some (out', b)"
  by (auto split: if_splits)

lemma do_actions_payouts:
  assumes "do_actions fwd inb bal (map (\<lambda>(d, v). Send PayFees d v True body) ps @ acts) = Some (out, b)"
  shows "\<exists>out'. out = map (\<lambda>(d, v). \<lparr>om_dest = d, om_value = v, om_bounce = True, om_body = body\<rparr>) ps @ out' \<and>
    (\<exists>bal'. bal' + sum_list (map snd ps) + fwd * length ps = bal \<and> do_actions fwd inb bal' acts = Some (out', b))"
  using assms
proof (induction ps arbitrary: bal out)
  case Nil
  then show ?case by auto
next
  case (Cons p ps)
  obtain d v where p: "p = (d, v)" by (cases p)
  from Cons.prems obtain out1 where o: "out = \<lparr>om_dest = d, om_value = v, om_bounce = True, om_body = body\<rparr> # out1" "v + fwd \<le> bal"
    "do_actions fwd inb (bal - (v + fwd)) (map (\<lambda>(d, v). Send PayFees d v True body) ps @ acts) = Some (out1, b)"
    using do_actions_PayFees [of fwd inb bal d v True body "map (\<lambda>(d, v). Send PayFees d v True body) ps @ acts" out b]
    by (auto simp: p simp del: do_actions.simps)
  from Cons.IH [OF o(3)] obtain out' bal' where
    "out1 = map (\<lambda>(d, v). \<lparr>om_dest = d, om_value = v, om_bounce = True, om_body = body\<rparr>) ps @ out'"
    "bal' + sum_list (map snd ps) + fwd * length ps = bal - (v + fwd)" "do_actions fwd inb bal' acts = Some (out', b)" by blast
  with o show ?case by (intro exI [of _ out'] conjI exI [of _ bal']) (simp_all add: p)
qed

section \<open>Pull ledgers\<close>

text \<open>The ledger of bounced payouts: a map from recipients to amounts, with one entry for a recipient.\<close>

type_synonym ledger = "(wallet_address, nat) hmap"

definition owed :: "ledger \<Rightarrow> wallet_address \<Rightarrow> nat" where
  "owed m a = (case hget m a of None \<Rightarrow> 0 | Some v \<Rightarrow> v)"

definition ledger_total :: "ledger \<Rightarrow> nat" where
  "ledger_total m = sum_list (map snd m)"

lemma owed_hput: "owed (hput k v m) a = (if a = k then v else owed m a)"
  by (simp add: owed_def update_conv')

lemma owed_hdel: "owed (hdel k m) a = (if a = k then 0 else owed m a)"
  by (simp add: owed_def delete_conv')

lemma ledger_total_hput: "distinct (hkeys m) \<Longrightarrow> ledger_total (hput k v m) + owed m k = ledger_total m + v"
  by (induction m) (auto simp: ledger_total_def owed_def map_of_eq_None_iff [symmetric] split: option.splits)

lemma ledger_total_hdel: "distinct (hkeys m) \<Longrightarrow> ledger_total (hdel k m) + owed m k = ledger_total m"
proof (induction m)
  case (Cons x m)
  then show ?case
    using map_of_eq_None_iff [of m k]
    by (cases "fst x = k") (auto simp: ledger_total_def owed_def AList.delete_eq split: option.splits)
qed (simp add: ledger_total_def owed_def)

end
