(* ===== verification/Vault.thy ===== *)
theory Vault
  imports Tvm
begin

text \<open>
  The stake of a node: \<open>ton/contracts/StakeVault.tolk\<close>, its receipt jetton \<open>StakeReceiptWallet.tolk\<close> and the
  types of \<open>stake_types.tolk\<close>. A code cell stands for its hash; the address of a state init, a cell hash, is
  the argument \<open>vx_address_of\<close>. A number that does not fit its field when the storage is saved throws.
\<close>

section \<open>Storage and messages\<close>

record slash_config =
  sc_treasury :: wallet_address
  sc_redundancy_pool :: wallet_address
  sc_challenger_bps :: nat
  sc_redundancy_bps :: nat
  sc_burn_bps :: nat
  sc_treasury_bps :: nat

record vault_config =
  vc_min_stake :: nat
  vc_unbonding_period :: nat
  vc_challenge_window :: nat
  vc_keeper_grace :: nat
  vc_keeper_bounty_bps :: nat
  vc_slasher :: wallet_address
  vc_upgrade_authority :: wallet_address
  vc_receipt_wallet_code :: hash32
  vc_slash :: slash_config

text \<open>The announcement of new code, shared by the vault and the anchor; the hash is zero when there is none.\<close>

record upgrade_state =
  up_version :: nat
  up_hash :: hash32
  up_at :: nat

record vault_storage =
  vs_owner :: wallet_address
  vs_staked :: nat
  vs_unbonding :: nat
  vs_unbonding_at :: nat
  vs_total_supply :: nat
  vs_binding_hash :: hash32
  vs_config :: vault_config
  vs_upgrade :: upgrade_state
  vs_pending :: ledger

record receipt_wallet =
  rw_status :: nat
  rw_balance :: nat
  rw_owner :: wallet_address
  rw_master :: wallet_address

datatype vault_msg =
    StakeDeposit nat nat
  | StakeRequestUnbond nat nat
  | StakeWithdraw nat
  | StakeKeeperWithdraw nat
  | StakeSlash nat nat nat wallet_address
  | StakeClaim nat wallet_address
  | ProvideWalletAddress nat wallet_address bool
  | ReceiptTopUp nat
  | StakeAnnounceUpgrade nat hash32
  | StakeApplyUpgrade nat hash32
  | StakeCancelUpgrade nat
  | VaultOther bool

text \<open>The bodies of outgoing messages; the forward payload of a mint is empty.\<close>

datatype vault_body =
    JettonInternalTransfer nat nat wallet_address wallet_address nat
  | ReceiptBurn nat nat
  | StakePayout nat
  | TakeWalletAddress nat wallet_address "wallet_address option"

record vault_context =
  vx_self :: wallet_address
  vx_address_of :: "hash32 \<Rightarrow> receipt_wallet \<Rightarrow> wallet_address"

definition RECEIPT_STATUS_LOCKED :: nat where "RECEIPT_STATUS_LOCKED = 1"

definition freshVaultUpgrade :: upgrade_state where
  "freshVaultUpgrade = \<lparr>up_version = 0, up_hash = NO_HASH, up_at = 0\<rparr>"

definition mulDivFloor :: "nat \<Rightarrow> nat \<Rightarrow> nat \<Rightarrow> nat" where
  "mulDivFloor x y z = x * y div z"

section \<open>Handlers of the vault\<close>

definition split_sum :: "slash_config \<Rightarrow> nat" where
  "split_sum sc = sc_challenger_bps sc + sc_redundancy_bps sc + sc_burn_bps sc + sc_treasury_bps sc"

definition validateVaultConfig :: "vault_config \<Rightarrow> err_code option" where
  "validateVaultConfig cfg =
     (if BPS_DENOM < vc_keeper_bounty_bps cfg then Some BAD_BOUNTY_BPS
      else if vc_unbonding_period cfg < vc_challenge_window cfg then Some PARAMS_OUT_OF_BOUNDS
      else if split_sum (vc_slash cfg) \<noteq> BPS_DENOM then Some INVALID_SPLIT
      else None)"

definition calcDeployedReceiptWallet :: "wallet_address \<Rightarrow> wallet_address \<Rightarrow> receipt_wallet" where
  "calcDeployedReceiptWallet owner master =
     \<lparr>rw_status = RECEIPT_STATUS_LOCKED, rw_balance = 0, rw_owner = owner, rw_master = master\<rparr>"

definition calcReceiptWalletAddress :: "vault_context \<Rightarrow> wallet_address \<Rightarrow> hash32 \<Rightarrow> wallet_address" where
  "calcReceiptWalletAddress x owner code = vx_address_of x code (calcDeployedReceiptWallet owner (vx_self x))"

definition mintReceipt :: "vault_context \<Rightarrow> vault_storage \<Rightarrow> nat \<Rightarrow> nat \<Rightarrow> vault_body action" where
  "mintReceipt x s amt q = Send PayFees (calcReceiptWalletAddress x (vs_owner s) (vc_receipt_wallet_code (vs_config s)))
     MIN_TONS_FOR_STORAGE True (JettonInternalTransfer q amt (vx_self x) (vx_self x) 0)"

definition burnReceipt :: "vault_context \<Rightarrow> vault_storage \<Rightarrow> nat \<Rightarrow> nat \<Rightarrow> vault_body action" where
  "burnReceipt x s amt q = Send PayFeesIgnoreErrors
     (calcReceiptWalletAddress x (vs_owner s) (vc_receipt_wallet_code (vs_config s))) 20000000 False (ReceiptBurn q amt)"

definition vault_payout :: "wallet_address \<Rightarrow> nat \<Rightarrow> nat \<Rightarrow> vault_body action" where
  "vault_payout d amt q = Send PayFees d amt True (StakePayout q)"

definition payoutRemainderNoReserve :: "wallet_address \<Rightarrow> nat \<Rightarrow> vault_body action" where
  "payoutRemainderNoReserve d q = Send CarryAllBalance d 0 True (StakePayout q)"

definition payoutLiquidRemainder :: "wallet_address \<Rightarrow> nat \<Rightarrow> nat \<Rightarrow> vault_body action list" where
  "payoutLiquidRemainder d keep q = [Reserve (keep + MIN_TONS_FOR_STORAGE), payoutRemainderNoReserve d q]"

text \<open>The shares of a slashed amount that are paid out; the rest is the share to burn.\<close>

definition slash_legs :: "slash_config \<Rightarrow> nat \<Rightarrow> wallet_address \<Rightarrow> (wallet_address \<times> nat) list" where
  "slash_legs sc amt challenger = filter (\<lambda>(d, a). 0 < a)
     [(challenger, mulDivFloor amt (sc_challenger_bps sc) BPS_DENOM),
      (sc_redundancy_pool sc, mulDivFloor amt (sc_redundancy_bps sc) BPS_DENOM),
      (sc_treasury sc, mulDivFloor amt (sc_treasury_bps sc) BPS_DENOM)]"

definition applySlashSplit :: "slash_config \<Rightarrow> nat \<Rightarrow> wallet_address \<Rightarrow> nat \<Rightarrow> err_code + vault_body action list" where
  "applySlashSplit sc amt challenger q =
     (if split_sum sc \<noteq> BPS_DENOM then Inl INVALID_SPLIT
      else Inr (map (\<lambda>(d, a). vault_payout d a q) (slash_legs sc amt challenger)))"

definition vault_fits :: "vault_storage \<Rightarrow> bool" where
  "vault_fits s \<longleftrightarrow> fits_coins (vs_staked s) \<and> fits_coins (vs_unbonding s) \<and> fits_u32 (vs_unbonding_at s) \<and>
     fits_coins (vs_total_supply s) \<and> fits_u32 (up_version (vs_upgrade s)) \<and> fits_u32 (up_at (vs_upgrade s)) \<and>
     (\<forall>a\<in>set (map snd (vs_pending s)). fits_coins a)"

definition save_vault :: "vault_storage \<Rightarrow> vault_body action list \<Rightarrow> err_code + vault_storage \<times> vault_body action list" where
  "save_vault s acts = (if vault_fits s then Inr (s, acts) else Inl RANGE_CHECK)"

text \<open>A subtraction whose result would be negative cannot be stored.\<close>

definition less_supply :: "nat \<Rightarrow> vault_storage \<Rightarrow> (vault_storage \<Rightarrow> err_code + vault_storage \<times> vault_body action list) \<Rightarrow>
    err_code + vault_storage \<times> vault_body action list" where
  "less_supply amt s k = (if vs_total_supply s < amt then Inl RANGE_CHECK
     else k (s\<lparr>vs_total_supply := vs_total_supply s - amt\<rparr>))"

definition vault_deposit ::
    "vault_context \<Rightarrow> in_message \<Rightarrow> nat \<Rightarrow> nat \<Rightarrow> vault_storage \<Rightarrow> err_code + vault_storage \<times> vault_body action list" where
  "vault_deposit x i q amt s =
     (if in_sender i \<noteq> vs_owner s then Inl NOT_OWNER
      else if in_value i < amt + MIN_TONS_FOR_STORAGE then Inl NOT_ENOUGH_GAS
      else case validateVaultConfig (vs_config s) of
        Some e \<Rightarrow> Inl e
      | None \<Rightarrow> save_vault (s\<lparr>vs_staked := vs_staked s + amt, vs_total_supply := vs_total_supply s + amt\<rparr>)
                 [mintReceipt x s amt q])"

definition vault_unbond ::
    "in_message \<Rightarrow> nat \<Rightarrow> vault_storage \<Rightarrow> err_code + vault_storage \<times> vault_body action list" where
  "vault_unbond i amt s =
     (if in_sender i \<noteq> vs_owner s then Inl NOT_OWNER
      else if vs_unbonding_at s \<noteq> 0 then Inl UNBOND_IN_PROGRESS
      else if \<not> (0 < amt \<and> amt \<le> vs_staked s) then Inl NOTHING_TO_UNBOND
      else save_vault (s\<lparr>vs_staked := vs_staked s - amt, vs_unbonding := amt, vs_unbonding_at := in_now i\<rparr>) [])"

definition vault_withdraw ::
    "vault_context \<Rightarrow> in_message \<Rightarrow> nat \<Rightarrow> vault_storage \<Rightarrow> err_code + vault_storage \<times> vault_body action list" where
  "vault_withdraw x i q s =
     (if in_sender i \<noteq> vs_owner s then Inl NOT_OWNER
      else if vs_unbonding s = 0 then Inl NO_UNBONDING
      else if in_now i < vs_unbonding_at s + vc_unbonding_period (vs_config s) then Inl COOLDOWN_NOT_ELAPSED
      else less_supply (vs_unbonding s) s (\<lambda>s1. save_vault (s1\<lparr>vs_unbonding := 0, vs_unbonding_at := 0\<rparr>)
        (burnReceipt x s (vs_unbonding s) q # payoutLiquidRemainder (vs_owner s) (vs_staked s) q)))"

definition vault_keeper ::
    "vault_context \<Rightarrow> in_message \<Rightarrow> nat \<Rightarrow> vault_storage \<Rightarrow> err_code + vault_storage \<times> vault_body action list" where
  "vault_keeper x i q s =
     (let cfg = vs_config s; bounty = mulDivFloor (vs_unbonding s) (vc_keeper_bounty_bps cfg) BPS_DENOM in
      if vs_unbonding s = 0 then Inl NO_UNBONDING
      else if in_now i < vs_unbonding_at s + vc_unbonding_period cfg + vc_keeper_grace cfg then Inl KEEPER_TOO_EARLY
      else less_supply (vs_unbonding s) s (\<lambda>s1. save_vault (s1\<lparr>vs_unbonding := 0, vs_unbonding_at := 0\<rparr>)
        ([burnReceipt x s (vs_unbonding s) q, Reserve (vs_staked s + MIN_TONS_FOR_STORAGE)] @
         (if 0 < bounty then [vault_payout (in_sender i) bounty q] else []) @
         [payoutRemainderNoReserve (vs_owner s) q])))"

definition vault_slash ::
    "vault_context \<Rightarrow> in_message \<Rightarrow> nat \<Rightarrow> nat \<Rightarrow> wallet_address \<Rightarrow> vault_storage \<Rightarrow>
      err_code + vault_storage \<times> vault_body action list" where
  "vault_slash x i q amt challenger s =
     (let cfg = vs_config s; from_staked = min amt (vs_staked s) in
      if in_sender i \<noteq> vc_slasher cfg then Inl NOT_SLASHER
      else if \<not> (0 < amt \<and> amt \<le> vs_staked s + vs_unbonding s) then Inl SLASH_EXCEEDS_STAKE
      else less_supply amt s (\<lambda>s1. case applySlashSplit (vc_slash cfg) amt challenger q of
          Inl e \<Rightarrow> Inl e
        | Inr legs \<Rightarrow> save_vault (s1\<lparr>vs_staked := vs_staked s - from_staked,
              vs_unbonding := vs_unbonding s - (amt - from_staked)\<rparr>) (burnReceipt x s amt q # legs)))"

definition vault_claim ::
    "nat \<Rightarrow> wallet_address \<Rightarrow> vault_storage \<Rightarrow> err_code + vault_storage \<times> vault_body action list" where
  "vault_claim q recipient s =
     (case hget (vs_pending s) recipient of
        None \<Rightarrow> Inl NO_UNBONDING
      | Some amt \<Rightarrow> if amt = 0 then Inl NO_UNBONDING
          else save_vault (s\<lparr>vs_pending := hdel recipient (vs_pending s)\<rparr>) [vault_payout recipient amt q])"

text \<open>The upgrade in two steps: announce a hash, apply that code once the unbonding period has passed.\<close>

definition vault_announce ::
    "in_message \<Rightarrow> hash32 \<Rightarrow> vault_storage \<Rightarrow> err_code + vault_storage \<times> vault_body action list" where
  "vault_announce i h s =
     (if in_sender i \<noteq> vc_upgrade_authority (vs_config s) then Inl UPGRADE_NOT_AUTHORITY
      else save_vault (s\<lparr>vs_upgrade := (vs_upgrade s)\<lparr>up_hash := h, up_at := in_now i\<rparr>\<rparr>) [])"

definition vault_apply ::
    "in_message \<Rightarrow> hash32 \<Rightarrow> vault_storage \<Rightarrow> err_code + vault_storage \<times> vault_body action list" where
  "vault_apply i code s =
     (let up = vs_upgrade s in
      if in_sender i \<noteq> vc_upgrade_authority (vs_config s) then Inl UPGRADE_NOT_AUTHORITY
      else if up_hash up = NO_HASH then Inl NO_PENDING_UPGRADE
      else if code \<noteq> up_hash up then Inl UPGRADE_CODE_MISMATCH
      else if in_now i < up_at up + vc_unbonding_period (vs_config s) then Inl UPGRADE_TIMELOCK_ACTIVE
      else save_vault (s\<lparr>vs_upgrade := \<lparr>up_version = up_version up + 1, up_hash = NO_HASH, up_at = 0\<rparr>\<rparr>) [SetCode code])"

definition vault_cancel :: "in_message \<Rightarrow> vault_storage \<Rightarrow> err_code + vault_storage \<times> vault_body action list" where
  "vault_cancel i s =
     (if in_sender i \<noteq> vc_upgrade_authority (vs_config s) then Inl UPGRADE_NOT_AUTHORITY
      else if up_hash (vs_upgrade s) = NO_HASH then Inl NO_PENDING_UPGRADE
      else save_vault (s\<lparr>vs_upgrade := (vs_upgrade s)\<lparr>up_hash := NO_HASH, up_at := 0\<rparr>\<rparr>) [])"

definition vault_recv ::
    "vault_context \<Rightarrow> in_message \<Rightarrow> vault_msg \<Rightarrow> vault_storage \<Rightarrow> err_code + vault_storage \<times> vault_body action list" where
  "vault_recv x i m s =
     (case m of
        StakeDeposit q amt \<Rightarrow> vault_deposit x i q amt s
      | StakeRequestUnbond q amt \<Rightarrow> vault_unbond i amt s
      | StakeWithdraw q \<Rightarrow> vault_withdraw x i q s
      | StakeKeeperWithdraw q \<Rightarrow> vault_keeper x i q s
      | StakeSlash q amt reason challenger \<Rightarrow> vault_slash x i q amt challenger s
      | StakeClaim q recipient \<Rightarrow> vault_claim q recipient s
      | ProvideWalletAddress q owner include \<Rightarrow>
          Inr (s, [Send CarryMessageIgnoreErrors (in_sender i) 0 False (TakeWalletAddress q
            (calcReceiptWalletAddress x owner (vc_receipt_wallet_code (vs_config s))) (if include then Some owner else None))])
      | ReceiptTopUp q \<Rightarrow> Inr (s, [])
      | StakeAnnounceUpgrade q h \<Rightarrow> vault_announce i h s
      | StakeApplyUpgrade q code \<Rightarrow> vault_apply i code s
      | StakeCancelUpgrade q \<Rightarrow> vault_cancel i s
      | VaultOther no_body \<Rightarrow> if no_body then Inr (s, []) else Inl INVALID_OP)"

text \<open>A bounced mint takes the deposit back out of the buckets, a bounced payout becomes a credit.\<close>

definition vault_bounced ::
    "in_message \<Rightarrow> vault_body \<Rightarrow> vault_storage \<Rightarrow> err_code + vault_storage \<times> vault_body action list" where
  "vault_bounced i body s =
     (case body of
        JettonInternalTransfer q amt src resp fwd \<Rightarrow>
          (let from_staked = min amt (vs_staked s); from_unbonding = min (amt - from_staked) (vs_unbonding s) in
           less_supply (from_staked + from_unbonding) s (\<lambda>s1. save_vault (s1\<lparr>vs_staked := vs_staked s - from_staked,
             vs_unbonding := vs_unbonding s - from_unbonding\<rparr>) []))
      | StakePayout q \<Rightarrow>
          save_vault (s\<lparr>vs_pending := hput (in_sender i) (owed (vs_pending s) (in_sender i) + in_value i) (vs_pending s)\<rparr>) []
      | _ \<Rightarrow> Inr (s, []))"

definition vault_is_eligible :: "vault_storage \<Rightarrow> bool" where
  "vault_is_eligible s \<longleftrightarrow> vc_min_stake (vs_config s) \<le> vs_staked s \<and> vs_unbonding_at s = 0"

text \<open>\<open>get_pending_upgrade\<close>: version, hash, announcement, and when the code may be applied.\<close>

definition get_pending_upgrade :: "vault_storage \<Rightarrow> nat \<times> hash32 \<times> nat \<times> nat" where
  "get_pending_upgrade s = (let up = vs_upgrade s in
     (up_version up, up_hash up, up_at up, if up_at up = 0 then 0 else up_at up + vc_unbonding_period (vs_config s)))"

abbreviation vault_step ::
    "vault_context \<Rightarrow> (vault_storage, vault_body) chain \<Rightarrow> (vault_storage, vault_body) chain \<Rightarrow> bool" where
  "vault_step x \<equiv> chain_step (vault_recv x) vault_bounced"

section \<open>Handlers of the receipt wallet\<close>

datatype wallet_msg =
    WalletCredit nat nat wallet_address wallet_address nat
  | JettonTransfer nat nat wallet_address
  | WalletBurn nat nat
  | WalletTopUp nat
  | WalletOther bool

datatype wallet_body = JettonTransferNotification nat nat wallet_address

definition wallet_recv ::
    "in_message \<Rightarrow> wallet_msg \<Rightarrow> receipt_wallet \<Rightarrow> err_code + receipt_wallet \<times> wallet_body action list" where
  "wallet_recv i m w =
     (case m of
        WalletCredit q amt src resp fwd \<Rightarrow>
          if in_sender i \<noteq> rw_master w then Inl NOT_FROM_MASTER
          else if \<not> fits_coins (rw_balance w + amt) then Inl RANGE_CHECK
          else Inr (w\<lparr>rw_balance := rw_balance w + amt\<rparr>,
            if 0 < fwd then [Send PayFees (rw_owner w) fwd False (JettonTransferNotification q amt (rw_master w))] else [])
      | JettonTransfer q amt d \<Rightarrow> Inl RECEIPT_LOCKED
      | WalletBurn q amt \<Rightarrow>
          if in_sender i \<noteq> rw_master w then Inl NOT_FROM_MASTER
          else if rw_balance w < amt then Inl BALANCE_NEGATIVE
          else Inr (w\<lparr>rw_balance := rw_balance w - amt\<rparr>, [])
      | WalletTopUp q \<Rightarrow> Inr (w, [])
      | WalletOther no_body \<Rightarrow> if no_body then Inr (w, []) else Inl INVALID_OP)"

definition is_transfer_locked :: "receipt_wallet \<Rightarrow> bool" where
  "is_transfer_locked w \<longleftrightarrow> rw_status w AND RECEIPT_STATUS_LOCKED = RECEIPT_STATUS_LOCKED"

section \<open>Storage stays well formed\<close>

text \<open>
  The receipts in circulation are the bonded and the cooling stake, stake cools only while the clock of the
  cooldown is set, and every field fits its width.
\<close>

definition vault_wf :: "vault_storage \<Rightarrow> bool" where
  "vault_wf s \<longleftrightarrow> vs_total_supply s = vs_staked s + vs_unbonding s \<and> (vs_unbonding_at s = 0 \<longrightarrow> vs_unbonding s = 0) \<and>
     distinct (hkeys (vs_pending s)) \<and> vault_fits s"

lemmas vault_handlers = vault_deposit_def vault_unbond_def vault_withdraw_def vault_keeper_def vault_slash_def
  vault_claim_def vault_announce_def vault_apply_def vault_cancel_def

lemma save_vault_Inr [simp]: "save_vault s acts = Inr (s', acts') \<longleftrightarrow> vault_fits s \<and> s' = s \<and> acts' = acts"
  by (auto simp: save_vault_def)

lemma less_supply_Inr [simp]:
  "less_supply amt s k = Inr r \<longleftrightarrow> amt \<le> vs_total_supply s \<and> k (s\<lparr>vs_total_supply := vs_total_supply s - amt\<rparr>) = Inr r"
  by (auto simp: less_supply_def)

lemma vault_deposit_wf: "vault_deposit x i q amt s = Inr (s', acts) \<Longrightarrow> vault_wf s \<Longrightarrow> vault_wf s'"
  by (auto simp: vault_deposit_def vault_wf_def split: if_splits option.splits)

lemma vault_unbond_wf: "vault_unbond i amt s = Inr (s', acts) \<Longrightarrow> 0 < in_now i \<Longrightarrow> vault_wf s \<Longrightarrow> vault_wf s'"
  by (auto simp: vault_unbond_def vault_wf_def split: if_splits)

lemma vault_withdraw_wf: "vault_withdraw x i q s = Inr (s', acts) \<Longrightarrow> vault_wf s \<Longrightarrow> vault_wf s'"
  by (auto simp: vault_withdraw_def vault_wf_def split: if_splits)

lemma vault_keeper_wf: "vault_keeper x i q s = Inr (s', acts) \<Longrightarrow> vault_wf s \<Longrightarrow> vault_wf s'"
  by (auto simp: vault_keeper_def vault_wf_def Let_def split: if_splits)

lemma vault_slash_wf: "vault_slash x i q amt ch s = Inr (s', acts) \<Longrightarrow> vault_wf s \<Longrightarrow> vault_wf s'"
  by (auto simp: vault_slash_def vault_wf_def Let_def split: if_splits sum.splits)

lemma vault_claim_wf: "vault_claim q d s = Inr (s', acts) \<Longrightarrow> vault_wf s \<Longrightarrow> vault_wf s'"
  by (auto simp: vault_claim_def vault_wf_def distinct_delete split: if_splits option.splits)

lemma vault_upgrade_wf:
  "vault_announce i h s = Inr (s', acts) \<Longrightarrow> vault_wf s \<Longrightarrow> vault_wf s'"
  "vault_apply i h s = Inr (s', acts) \<Longrightarrow> vault_wf s \<Longrightarrow> vault_wf s'"
  "vault_cancel i s = Inr (s', acts) \<Longrightarrow> vault_wf s \<Longrightarrow> vault_wf s'"
  by (auto simp: vault_announce_def vault_apply_def vault_cancel_def vault_wf_def Let_def split: if_splits)

lemma vault_recv_wf:
  assumes "vault_recv x i m s = Inr (s', acts)" "0 < in_now i" "vault_wf s"
  shows "vault_wf s'"
  using assms unfolding vault_recv_def
  by (cases m) (auto split: if_splits dest: vault_deposit_wf vault_unbond_wf vault_withdraw_wf vault_keeper_wf
      vault_slash_wf vault_claim_wf vault_upgrade_wf)

lemma vault_bounced_wf:
  assumes "vault_bounced i body s = Inr (s', acts)" "vault_wf s"
  shows "vault_wf s'"
  using assms by (cases body) (auto simp: vault_bounced_def vault_wf_def Let_def distinct_update)

lemma vault_config_kept:
  assumes "vault_recv x i m s = Inr (s', acts)"
  shows "vs_config s' = vs_config s \<and> vs_owner s' = vs_owner s"
  using assms by (cases m) (auto simp: vault_recv_def vault_handlers Let_def split: if_splits option.splits sum.splits)

lemma vault_bounced_config_kept:
  assumes "vault_bounced i body s = Inr (s', acts)"
  shows "vs_config s' = vs_config s \<and> vs_owner s' = vs_owner s"
  using assms by (cases body) (auto simp: vault_bounced_def Let_def)

lemma vault_step_wf:
  assumes "vault_step x c c'" "vault_wf (ch_store c)"
  shows "vault_wf (ch_store c') \<and> vs_config (ch_store c') = vs_config (ch_store c) \<and> vs_owner (ch_store c') = vs_owner (ch_store c)"
  using assms
proof (cases rule: chain_step.cases)
  case (receive i gas fwd m s b out)
  from receive(3) obtain acts where "vault_recv x i m (ch_store c) = Inr (s, acts)" by (rule run_tx_Some)
  with receive(1,2) assms(2) show ?thesis using vault_recv_wf vault_config_kept by simp
next
  case (bounce xs o1 ys i gas fwd s b out)
  from bounce(6) obtain acts where "vault_bounced i (om_body o1) (ch_store c) = Inr (s, acts)" by (rule run_tx_Some)
  with bounce(1) assms(2) show ?thesis using vault_bounced_wf vault_bounced_config_kept by simp
qed simp_all

lemma vault_wf_reachable:
  assumes "(vault_step x)\<^sup>*\<^sup>* c c'" "vault_wf (ch_store c)"
  shows "vault_wf (ch_store c') \<and> vs_config (ch_store c') = vs_config (ch_store c) \<and> vs_owner (ch_store c') = vs_owner (ch_store c)"
  using assms by (induction rule: rtranclp_induct) (auto dest: vault_step_wf)

section \<open>What the handlers do\<close>

text \<open>A slash is accepted from the slasher for any amount still on the books, cooling or not, bonded stake first.\<close>

lemma vault_slash_Inr:
  assumes "vault_wf s"
  shows "vault_slash x i q amt ch s = Inr (s', acts) \<longleftrightarrow>
    in_sender i = vc_slasher (vs_config s) \<and> 0 < amt \<and> amt \<le> vs_total_supply s \<and>
    split_sum (vc_slash (vs_config s)) = BPS_DENOM \<and>
    s' = s\<lparr>vs_total_supply := vs_total_supply s - amt, vs_staked := vs_staked s - min amt (vs_staked s),
      vs_unbonding := vs_unbonding s - (amt - min amt (vs_staked s))\<rparr> \<and>
    acts = burnReceipt x s amt q # map (\<lambda>(d, a). vault_payout d a q) (slash_legs (vc_slash (vs_config s)) amt ch)"
proof -
  define u where "u = vs_unbonding s - (amt - min amt (vs_staked s))"
  define v where "v = vs_staked s - min amt (vs_staked s)"
  have "u \<le> vs_unbonding s" "v \<le> vs_staked s" by (simp_all add: u_def v_def)
  with assms have "vault_fits (s\<lparr>vs_total_supply := vs_total_supply s - amt, vs_staked := v, vs_unbonding := u\<rparr>)"
    by (auto simp: vault_wf_def vault_fits_def fits_coins_def)
  with assms show ?thesis
    unfolding vault_slash_def Let_def u_def [symmetric] v_def [symmetric] by (auto simp: applySlashSplit_def vault_wf_def)
qed

text \<open>The shares never exceed the slashed amount; what stays is the share to burn and less than three units of rounding.\<close>

lemma mulDivFloor_bounds:
  "mulDivFloor a b BPS_DENOM * BPS_DENOM \<le> a * b" "a * b < (mulDivFloor a b BPS_DENOM + 1) * BPS_DENOM"
proof -
  have "a * b div BPS_DENOM * BPS_DENOM + a * b mod BPS_DENOM = a * b" by (rule div_mult_mod_eq)
  moreover have "a * b mod BPS_DENOM < BPS_DENOM" by (simp add: BPS_DENOM_def)
  ultimately show "mulDivFloor a b BPS_DENOM * BPS_DENOM \<le> a * b" "a * b < (mulDivFloor a b BPS_DENOM + 1) * BPS_DENOM"
    unfolding mulDivFloor_def distrib_right mult_1 by linarith+
qed

lemma slash_legs_sum:
  "sum_list (map snd (slash_legs sc amt ch)) = mulDivFloor amt (sc_challenger_bps sc) BPS_DENOM +
     mulDivFloor amt (sc_redundancy_bps sc) BPS_DENOM + mulDivFloor amt (sc_treasury_bps sc) BPS_DENOM"
  by (simp add: slash_legs_def)

lemma slash_legs_bounds:
  assumes "split_sum sc = BPS_DENOM"
    and paid_def: "paid = sum_list (map snd (slash_legs sc amt ch))"
  shows "paid \<le> amt" "amt * sc_burn_bps sc \<le> (amt - paid) * BPS_DENOM" "(amt - paid) * BPS_DENOM < amt * sc_burn_bps sc + 3 * BPS_DENOM"
proof -
  let ?c = "mulDivFloor amt (sc_challenger_bps sc) BPS_DENOM" and ?r = "mulDivFloor amt (sc_redundancy_bps sc) BPS_DENOM"
    and ?t = "mulDivFloor amt (sc_treasury_bps sc) BPS_DENOM"
  have p: "paid = ?c + ?r + ?t" by (simp add: paid_def slash_legs_sum)
  have s: "amt * sc_challenger_bps sc + amt * sc_redundancy_bps sc + amt * sc_treasury_bps sc + amt * sc_burn_bps sc = amt * BPS_DENOM"
    unfolding assms(1) [symmetric] split_sum_def by (simp add: algebra_simps)
  have lo: "paid * BPS_DENOM + amt * sc_burn_bps sc \<le> amt * BPS_DENOM"
    using mulDivFloor_bounds(1) [of amt "sc_challenger_bps sc"] mulDivFloor_bounds(1) [of amt "sc_redundancy_bps sc"]
      mulDivFloor_bounds(1) [of amt "sc_treasury_bps sc"] s unfolding p distrib_right by linarith
  then have pb: "paid * BPS_DENOM \<le> amt * BPS_DENOM" by linarith
  then show le: "paid \<le> amt" by (simp add: BPS_DENOM_def)
  show "amt * sc_burn_bps sc \<le> (amt - paid) * BPS_DENOM" using lo unfolding diff_mult_distrib by linarith
  have "amt * BPS_DENOM < paid * BPS_DENOM + 3 * BPS_DENOM + amt * sc_burn_bps sc"
    using mulDivFloor_bounds(2) [of amt "sc_challenger_bps sc"] mulDivFloor_bounds(2) [of amt "sc_redundancy_bps sc"]
      mulDivFloor_bounds(2) [of amt "sc_treasury_bps sc"] s unfolding p distrib_right by linarith
  with pb show "(amt - paid) * BPS_DENOM < amt * sc_burn_bps sc + 3 * BPS_DENOM" unfolding diff_mult_distrib by linarith
qed

text \<open>Stake leaves the books by a slash, or after the cooldown.\<close>

lemma vault_recv_supply:
  assumes "vault_recv x i m s = Inr (s', acts)" "vault_wf s" "vs_total_supply s' < vs_total_supply s"
  shows "(\<exists>q amt r ch. m = StakeSlash q amt r ch \<and> in_sender i = vc_slasher (vs_config s) \<and>
        vs_total_supply s' + amt = vs_total_supply s) \<or>
     ((\<exists>q. m = StakeWithdraw q \<and> in_sender i = vs_owner s \<or> m = StakeKeeperWithdraw q) \<and> 0 < vs_unbonding s \<and>
        vs_unbonding_at s + vc_unbonding_period (vs_config s) \<le> in_now i \<and> vs_staked s' = vs_staked s \<and> vs_unbonding s' = 0)"
proof (cases m)
  case (StakeSlash q amt r ch)
  with assms show ?thesis by (simp add: vault_recv_def vault_slash_Inr)
qed (use assms in \<open>auto simp: vault_recv_def vault_handlers Let_def split: if_splits option.splits\<close>)

section \<open>The vault and the receipt wallet together\<close>

text \<open>What a wallet makes of a message of the vault.\<close>

primrec to_wallet_msg :: "vault_body \<Rightarrow> wallet_msg" where
  "to_wallet_msg (JettonInternalTransfer q amt src resp fwd) = WalletCredit q amt src resp fwd"
| "to_wallet_msg (ReceiptBurn q amt) = WalletBurn q amt"
| "to_wallet_msg (StakePayout q) = WalletOther False"
| "to_wallet_msg (TakeWalletAddress q a b) = WalletOther False"

primrec mint_amount :: "vault_body \<Rightarrow> nat" where
  "mint_amount (JettonInternalTransfer q amt src resp fwd) = amt"
| "mint_amount (ReceiptBurn q amt) = 0"
| "mint_amount (StakePayout q) = 0"
| "mint_amount (TakeWalletAddress q a b) = 0"

primrec burn_amount :: "vault_body \<Rightarrow> nat" where
  "burn_amount (JettonInternalTransfer q amt src resp fwd) = 0"
| "burn_amount (ReceiptBurn q amt) = amt"
| "burn_amount (StakePayout q) = 0"
| "burn_amount (TakeWalletAddress q a b) = 0"

definition weight :: "('b \<Rightarrow> nat) \<Rightarrow> 'b out_msg list \<Rightarrow> nat" where
  "weight f out = sum_list (map (\<lambda>o1. f (om_body o1)) out)"

fun action_weight :: "('b \<Rightarrow> nat) \<Rightarrow> 'b action list \<Rightarrow> nat" where
  "action_weight f [] = 0"
| "action_weight f (Send mode d v bn body # acts) = f body + action_weight f acts"
| "action_weight f (a # acts) = action_weight f acts"

text \<open>A mint is a bounceable message to the wallet of the owner that is sent or fails the transaction.\<close>

fun mint_action :: "wallet_address \<Rightarrow> vault_body action \<Rightarrow> bool" where
  "mint_action wa (Send mode d v bn body) \<longleftrightarrow> 0 < mint_amount body \<longrightarrow> mode = PayFees \<and> d = wa \<and> bn"
| "mint_action wa a \<longleftrightarrow> True"

lemma weight_simps [simp]:
  "weight f [] = 0" "weight f (x # xs) = f (om_body x) + weight f xs" "weight f (xs @ ys) = weight f xs + weight f ys"
  by (simp_all add: weight_def)

lemma do_actions_weight_le: "do_actions fwd inb bal acts = Some (out, b) \<Longrightarrow> weight f out \<le> action_weight f acts"
proof (induction fwd inb bal acts arbitrary: out b rule: do_actions.induct)
  case (3 fwd inb bal mode d v bn body acts)
  then show ?case by (cases mode) (fastforce split: if_splits)+
qed (fastforce split: if_splits)+

lemma do_actions_mints:
  "do_actions fwd inb bal acts = Some (out, b) \<Longrightarrow> list_all (mint_action wa) acts \<Longrightarrow>
     weight mint_amount out = action_weight mint_amount acts \<and>
     list_all (\<lambda>o1. 0 < mint_amount (om_body o1) \<longrightarrow> om_dest o1 = wa \<and> om_bounce o1) out"
proof (induction fwd inb bal acts arbitrary: out b rule: do_actions.induct)
  case (3 fwd inb bal mode d v bn body acts)
  then show ?case by (cases mode) (fastforce split: if_splits)+
qed (fastforce split: if_splits)+

lemma slash_legs_weight [simp]:
  "action_weight mint_amount (map (\<lambda>(d, a). vault_payout d a q) ls) = 0"
  "action_weight burn_amount (map (\<lambda>(d, a). vault_payout d a q) ls) = 0"
  "list_all (mint_action wa) (map (\<lambda>(d, a). vault_payout d a q) ls)"
  by (induction ls) (auto simp: vault_payout_def)

lemmas vault_sends = mintReceipt_def burnReceipt_def vault_payout_def payoutLiquidRemainder_def payoutRemainderNoReserve_def

lemma vault_recv_receipts:
  assumes "vault_recv x i m s = Inr (s', acts)" "vault_wf s"
  shows "vs_total_supply s' + action_weight burn_amount acts \<le> vs_total_supply s + action_weight mint_amount acts \<and>
     list_all (mint_action (calcReceiptWalletAddress x (vs_owner s) (vc_receipt_wallet_code (vs_config s)))) acts"
proof (cases m)
  case (StakeSlash q amt r ch)
  with assms show ?thesis by (simp add: vault_recv_def vault_slash_Inr) (simp add: burnReceipt_def)
qed (use assms in \<open>auto simp: vault_recv_def vault_handlers vault_sends Let_def split: if_splits option.splits\<close>)

text \<open>
  Both contracts on the chain. The wallet lives at the address the vault computes; a message of the vault to
  it is accepted, or bounces, or is lost when it does not bounce; anybody may write to the wallet. A bounced
  mint reaches the vault with its storage deposit, so its handler runs, and, as the comment on the handler
  has it, before the stake it was minted for is gone.
\<close>

inductive bond_step ::
    "vault_context \<Rightarrow> wallet_address \<Rightarrow> (vault_storage, vault_body) chain \<times> receipt_wallet \<Rightarrow>
      (vault_storage, vault_body) chain \<times> receipt_wallet \<Rightarrow> bool"
  for x :: vault_context and wa :: wallet_address
where
  bond_receive: "0 < in_now i \<Longrightarrow> run_tx gas fwd (in_value i) (ch_balance c) (vault_recv x i m (ch_store c)) = Some (s, b, out) \<Longrightarrow>
    bond_step x wa (c, w) (c\<lparr>ch_store := s, ch_balance := b, ch_flight := ch_flight c @ out\<rparr>, w)"
| bond_bounce: "ch_flight c = xs @ o1 # ys \<Longrightarrow> om_bounce o1 \<Longrightarrow> in_sender i = om_dest o1 \<Longrightarrow> in_value i \<le> om_value o1 \<Longrightarrow>
    mint_amount (om_body o1) \<le> vs_total_supply (ch_store c) \<Longrightarrow>
    run_tx gas fwd (in_value i) (ch_balance c) (vault_bounced i (om_body o1) (ch_store c)) = Some (s, b, out) \<Longrightarrow>
    bond_step x wa (c, w) (c\<lparr>ch_store := s, ch_balance := b, ch_flight := xs @ ys @ out\<rparr>, w)"
| bond_elsewhere: "ch_flight c = xs @ o1 # ys \<Longrightarrow> om_dest o1 \<noteq> wa \<Longrightarrow>
    bond_step x wa (c, w) (c\<lparr>ch_flight := xs @ ys, ch_done := ch_done c @ [o1]\<rparr>, w)"
| bond_accepted: "ch_flight c = xs @ o1 # ys \<Longrightarrow> om_dest o1 = wa \<Longrightarrow> in_sender i = vx_self x \<Longrightarrow>
    wallet_recv i (to_wallet_msg (om_body o1)) w = Inr (w', acts) \<Longrightarrow>
    bond_step x wa (c, w) (c\<lparr>ch_flight := xs @ ys, ch_done := ch_done c @ [o1]\<rparr>, w')"
| bond_lost: "ch_flight c = xs @ o1 # ys \<Longrightarrow> \<not> om_bounce o1 \<Longrightarrow>
    bond_step x wa (c, w) (c\<lparr>ch_flight := xs @ ys, ch_done := ch_done c @ [o1]\<rparr>, w)"
| bond_stranger: "in_sender i \<noteq> vx_self x \<Longrightarrow> wallet_recv i m w = Inr (w', acts) \<Longrightarrow> bond_step x wa (c, w) (c, w')"
| bond_balance: "bond_step x wa (c, w) (c\<lparr>ch_balance := b\<rparr>, w)"

text \<open>Receipts cover the stake: what the wallet holds and is about to get, against the supply and the burns under way.\<close>

definition receipts_cover :: "vault_context \<Rightarrow> wallet_address \<Rightarrow> (vault_storage, vault_body) chain \<Rightarrow> receipt_wallet \<Rightarrow> bool" where
  "receipts_cover x wa c w \<longleftrightarrow> vault_wf (ch_store c) \<and> rw_master w = vx_self x \<and>
     calcReceiptWalletAddress x (vs_owner (ch_store c)) (vc_receipt_wallet_code (vs_config (ch_store c))) = wa \<and>
     list_all (\<lambda>o1. 0 < mint_amount (om_body o1) \<longrightarrow> om_dest o1 = wa \<and> om_bounce o1) (ch_flight c) \<and>
     vs_total_supply (ch_store c) + weight burn_amount (ch_flight c) \<le> rw_balance w + weight mint_amount (ch_flight c)"

lemma cover_receive:
  assumes "receipts_cover x wa c w" "vault_recv x i m (ch_store c) = Inr (s, acts)" "0 < in_now i"
    "do_actions fwd inb bal acts = Some (out, b')"
  shows "receipts_cover x wa (c\<lparr>ch_store := s, ch_balance := b, ch_flight := ch_flight c @ out\<rparr>) w"
proof -
  from assms(1) have wf: "vault_wf (ch_store c)" and wa: "calcReceiptWalletAddress x (vs_owner (ch_store c)) (vc_receipt_wallet_code (vs_config (ch_store c))) = wa"
    by (simp_all add: receipts_cover_def)
  have r: "vs_total_supply s + action_weight burn_amount acts \<le> vs_total_supply (ch_store c) + action_weight mint_amount acts"
    "list_all (mint_action wa) acts" using vault_recv_receipts [OF assms(2) wf] by (simp_all add: wa)
  have b: "weight burn_amount out \<le> action_weight burn_amount acts" by (rule do_actions_weight_le [OF assms(4)])
  have m: "weight mint_amount out = action_weight mint_amount acts"
    "list_all (\<lambda>o1. 0 < mint_amount (om_body o1) \<longrightarrow> om_dest o1 = wa \<and> om_bounce o1) out"
    using do_actions_mints [OF assms(4) r(2)] by simp_all
  from assms(1) vault_recv_wf [OF assms(2,3) wf] vault_config_kept [OF assms(2)] r(1) b m show ?thesis
    by (simp add: receipts_cover_def)
qed

lemma vault_bounced_supply:
  assumes "vault_bounced i body s = Inr (s', acts)" "vault_wf s"
  shows "acts = []" "vs_total_supply s' = vs_total_supply s - mint_amount body"
proof -
  show "acts = []" using assms(1) by (cases body) (auto simp: vault_bounced_def Let_def)
  have "min a u + min (a - min a u) v = min a (u + v)" for a u v :: nat by (auto simp: min_def)
  then show "vs_total_supply s' = vs_total_supply s - mint_amount body"
    using assms by (cases body) (auto simp: vault_bounced_def vault_wf_def Let_def)
qed

lemma cover_bounce:
  assumes "receipts_cover x wa c w" "ch_flight c = xs @ o1 # ys" "vault_bounced i (om_body o1) (ch_store c) = Inr (s, acts)"
    "mint_amount (om_body o1) \<le> vs_total_supply (ch_store c)"
  shows "acts = []" "receipts_cover x wa (c\<lparr>ch_store := s, ch_balance := b, ch_flight := xs @ ys\<rparr>) w"
proof -
  from assms(1) have wf: "vault_wf (ch_store c)" by (simp add: receipts_cover_def)
  show "acts = []" by (rule vault_bounced_supply(1) [OF assms(3) wf])
  have "vs_total_supply s + weight burn_amount (xs @ ys) \<le> rw_balance w + weight mint_amount (xs @ ys)"
    using assms(1,2,4) unfolding vault_bounced_supply(2) [OF assms(3) wf]
    by (cases "om_body o1") (auto simp: receipts_cover_def)
  with assms(1,2) vault_bounced_wf [OF assms(3) wf] vault_bounced_config_kept [OF assms(3)]
  show "receipts_cover x wa (c\<lparr>ch_store := s, ch_balance := b, ch_flight := xs @ ys\<rparr>) w"
    by (simp add: receipts_cover_def)
qed

lemma cover_step:
  assumes "bond_step x wa p p'" "receipts_cover x wa (fst p) (snd p)"
  shows "receipts_cover x wa (fst p') (snd p')"
  using assms
proof (induction rule: bond_step.induct)
  case (bond_receive i gas fwd c m s b out w)
  from bond_receive(2) obtain acts where "vault_recv x i m (ch_store c) = Inr (s, acts)"
    "do_actions fwd (in_value i - gas) (ch_balance c + in_value i - gas) acts = Some (out, b)" by (rule run_tx_Some)
  with bond_receive(1,3) show ?case by (auto intro: cover_receive)
next
  case (bond_bounce c xs o1 ys i gas fwd s b out w)
  from bond_bounce(6) obtain acts where a: "vault_bounced i (om_body o1) (ch_store c) = Inr (s, acts)"
    "do_actions fwd (in_value i - gas) (ch_balance c + in_value i - gas) acts = Some (out, b)" by (rule run_tx_Some)
  from bond_bounce(7) have "receipts_cover x wa c w" by simp
  from cover_bounce [OF this bond_bounce(1) a(1) bond_bounce(5)] a(2) show ?case by simp
next
  case (bond_elsewhere c xs o1 ys w)
  then show ?case by (auto simp: receipts_cover_def)
next
  case (bond_accepted c xs o1 ys i w w' acts)
  then show ?case by (cases "om_body o1") (auto simp: receipts_cover_def wallet_recv_def split: if_splits)
next
  case (bond_lost c xs o1 ys w)
  then show ?case by (auto simp: receipts_cover_def)
next
  case (bond_stranger i m w w' acts c)
  then show ?case by (cases m) (auto simp: receipts_cover_def wallet_recv_def split: if_splits)
qed (simp add: receipts_cover_def)

section \<open>Transactions of the vault\<close>

lemma do_actions_burn:
  assumes "do_actions fwd inb bal (burnReceipt x s amt q # acts) = Some (out, b)"
  obtains bal' out' where "do_actions fwd inb bal' acts = Some (out', b)"
    "out = out' \<and> bal' = bal \<or> (\<exists>o1. out = o1 # out' \<and> om_body o1 = ReceiptBurn q amt \<and> bal' + om_value o1 + fwd = bal)"
  using assms by (auto simp: burnReceipt_def split: if_splits)

lemma do_actions_sweep:
  assumes "do_actions fwd inb bal (Reserve r # (if 0 < v then [vault_payout d v q] else []) @ [payoutRemainderNoReserve o1 q]) = Some (out, b)"
  shows "b = r \<and> (\<exists>rest. out = (if 0 < v then [\<lparr>om_dest = d, om_value = v, om_bounce = True, om_body = StakePayout q\<rparr>] else []) @
     [\<lparr>om_dest = o1, om_value = rest, om_bounce = True, om_body = StakePayout q\<rparr>] \<and> r + v + rest + fwd * length out = bal)"
  using assms by (auto simp: vault_payout_def payoutRemainderNoReserve_def split: if_splits)

text \<open>What a withdrawal leaves, takes and pays.\<close>

lemma withdrawal_sent:
  assumes "do_actions fwd inb bal (burnReceipt x s amt q # Reserve r #
      (if 0 < v then [vault_payout d v q] else []) @ [payoutRemainderNoReserve o1 q]) = Some (out, b)"
  shows "b = r \<and> b + sent out + fwd * length out = bal \<and> om_dest (last out) = o1 \<and> om_body (last out) = StakePayout q \<and>
     filter (\<lambda>m. om_body m = StakePayout q) (butlast out) =
       (if 0 < v then [\<lparr>om_dest = d, om_value = v, om_bounce = True, om_body = StakePayout q\<rparr>] else [])"
proof -
  from assms obtain bal' out' where a: "do_actions fwd inb bal' (Reserve r #
      (if 0 < v then [vault_payout d v q] else []) @ [payoutRemainderNoReserve o1 q]) = Some (out', b)"
    "out = out' \<and> bal' = bal \<or> (\<exists>o1. out = o1 # out' \<and> om_body o1 = ReceiptBurn q amt \<and> bal' + om_value o1 + fwd = bal)"
    by (rule do_actions_burn)
  from do_actions_sweep [OF a(1)] obtain rest where b: "b = r"
    "out' = (if 0 < v then [\<lparr>om_dest = d, om_value = v, om_bounce = True, om_body = StakePayout q\<rparr>] else []) @
     [\<lparr>om_dest = o1, om_value = rest, om_bounce = True, om_body = StakePayout q\<rparr>]" "r + v + rest + fwd * length out' = bal'" by blast
  show ?thesis using a(2) b by (auto split: if_splits)
qed

lemma vault_withdraw_Inr:
  assumes "vault_recv x i m s = Inr (s', acts)" "m = StakeWithdraw q \<or> m = StakeKeeperWithdraw q"
  defines "bounty \<equiv> if m = StakeWithdraw q then 0 else mulDivFloor (vs_unbonding s) (vc_keeper_bounty_bps (vs_config s)) BPS_DENOM"
  shows "0 < vs_unbonding s" "s' = s\<lparr>vs_total_supply := vs_total_supply s - vs_unbonding s, vs_unbonding := 0, vs_unbonding_at := 0\<rparr>"
    "(m = StakeWithdraw q \<longrightarrow> in_sender i = vs_owner s) \<and> vs_unbonding_at s + vc_unbonding_period (vs_config s) +
       (if m = StakeWithdraw q then 0 else vc_keeper_grace (vs_config s)) \<le> in_now i"
    "acts = burnReceipt x s (vs_unbonding s) q # Reserve (vs_staked s + MIN_TONS_FOR_STORAGE) #
       (if 0 < bounty then [vault_payout (in_sender i) bounty q] else []) @ [payoutRemainderNoReserve (vs_owner s) q]"
  using assms(1,2) by (auto simp: bounty_def vault_recv_def vault_withdraw_def vault_keeper_def payoutLiquidRemainder_def Let_def split: if_splits)



text \<open>
  C23: However messages reach the vault, whatever bounces and whatever rent is charged, the receipts in
  circulation are the bonded and the cooling stake, stake cools only while the cooldown's clock is set, every
  field fits its width, and configuration and owner never change.
\<close>

theorem vault_stays_well_typed:
  assumes "(vault_step x)\<^sup>*\<^sup>* c c'" and "vault_wf (ch_store c)"
  shows "vs_total_supply (ch_store c') = vs_staked (ch_store c') + vs_unbonding (ch_store c') \<and>
    (vs_unbonding_at (ch_store c') = 0 \<longrightarrow> vs_unbonding (ch_store c') = 0) \<and> vault_fits (ch_store c') \<and>
    vs_config (ch_store c') = vs_config (ch_store c) \<and> vs_owner (ch_store c') = vs_owner (ch_store c)"
  using vault_wf_reachable [OF assms] by (simp add: vault_wf_def)




section \<open>Examples\<close>

definition vad :: "u8 \<Rightarrow> wallet_address" where
  "vad n = \<lparr>workchain = 0, account = [n]\<rparr>"

definition vault_ctx :: vault_context where
  "vault_ctx = \<lparr>vx_self = vad 9, vx_address_of = \<lambda>code w. vad 8\<rparr>"

definition vault_cfg :: vault_config where
  "vault_cfg = \<lparr>vc_min_stake = 100, vc_unbonding_period = 1000, vc_challenge_window = 500, vc_keeper_grace = 100,
     vc_keeper_bounty_bps = 100, vc_slasher = vad 2, vc_upgrade_authority = vad 3, vc_receipt_wallet_code = [9],
     vc_slash = \<lparr>sc_treasury = vad 4, sc_redundancy_pool = vad 5, sc_challenger_bps = 5000, sc_redundancy_bps = 2000,
       sc_burn_bps = 2000, sc_treasury_bps = 1000\<rparr>\<rparr>"

definition vault_at :: "nat \<Rightarrow> nat \<Rightarrow> nat \<Rightarrow> vault_storage" where
  "vault_at bnd cooling t = \<lparr>vs_owner = vad 1, vs_staked = bnd, vs_unbonding = cooling, vs_unbonding_at = t,
     vs_total_supply = bnd + cooling, vs_binding_hash = [], vs_config = vault_cfg, vs_upgrade = freshVaultUpgrade, vs_pending = []\<rparr>"

definition from_at :: "u8 \<Rightarrow> nat \<Rightarrow> in_message" where
  "from_at n t = \<lparr>in_sender = vad n, in_value = 0, in_now = t\<rparr>"

lemmas vault_example_defs = vad_def vault_ctx_def vault_cfg_def vault_at_def from_at_def freshVaultUpgrade_def NO_HASH_def
  run_tx_def vault_recv_def vault_handlers vault_sends less_supply_def save_vault_def vault_fits_def fits_coins_def fits_u32_def
  slash_legs_def applySlashSplit_def split_sum_def mulDivFloor_def BPS_DENOM_def MIN_TONS_FOR_STORAGE_def
  calcReceiptWalletAddress_def validateVaultConfig_def Let_def

lemma vault_at_wf:
  assumes "bnd + cooling < 2 ^ 120" "t < 2 ^ 32" "t = 0 \<longrightarrow> cooling = 0"
  shows "vault_wf (vault_at bnd cooling t)"
  using assms by (simp add: vault_wf_def vault_fits_def fits_coins_def fits_u32_def vault_at_def freshVaultUpgrade_def)




definition deposit_msg :: in_message where
  "deposit_msg = \<lparr>in_sender = vad 1, in_value = 50001000, in_now = 9\<rparr>"

definition vault_chain :: "(vault_storage, vault_body) chain" where
  "vault_chain = \<lparr>ch_store = vault_at 0 0 0, ch_balance = 0, ch_flight = [], ch_done = [], ch_fees = 0\<rparr>"

lemma example_deposit:
  "run_tx 0 0 (in_value deposit_msg) (ch_balance vault_chain) (vault_recv vault_ctx deposit_msg (StakeDeposit 1 1000) (ch_store vault_chain)) =
     Some (vault_at 1000 0 0, 1000, [\<lparr>om_dest = vad 8, om_value = 50000000, om_bounce = True,
       om_body = JettonInternalTransfer 1 1000 (vad 9) (vad 9) 0\<rparr>])"
  by (simp add: vault_example_defs deposit_msg_def vault_chain_def)

theorem vault_stays_well_typed_witness:
  "\<exists>c. (vault_step vault_ctx)\<^sup>*\<^sup>* vault_chain c \<and> vault_wf (ch_store vault_chain) \<and> vs_staked (ch_store c) = 1000 \<and>
     vault_fits (ch_store c) \<and> vs_total_supply (ch_store c) = vs_staked (ch_store c) + vs_unbonding (ch_store c)"
proof -
  have "0 < in_now deposit_msg" by (simp add: deposit_msg_def)
  then obtain c where s: "vault_step vault_ctx vault_chain c" and c: "ch_store c = vault_at 1000 0 0"
    by (rule that [OF chain_step.receive [where recv = "vault_recv vault_ctx", OF _ example_deposit]]) simp
  have w: "vault_wf (ch_store vault_chain)" by (simp add: vault_chain_def vault_at_wf)
  from vault_stays_well_typed [OF r_into_rtranclp [where r = "vault_step vault_ctx", OF s] w] s w c show ?thesis
    by (intro exI [of _ c]) (auto simp: vault_at_def)
qed


definition vault_announced :: vault_storage where
  "vault_announced = (vault_at 1000 0 0)\<lparr>vs_upgrade := \<lparr>up_version = 0, up_hash = [7], up_at = 100\<rparr>\<rparr>"


section \<open>Where the code departs from its comments\<close>

text \<open>
  The burnt share of a slash is not locked: a withdrawal sends all but the bonded stake and the storage
  deposit to the owner. Of a stake of 1000, half is slashed, 400 of it paid out; the owner then withdraws 600.
\<close>

lemma burnt_share_is_withdrawn:
  "run_tx 0 0 0 90001000 (vault_recv vault_ctx (from_at 2 10) (StakeSlash 1 500 0 (vad 6)) (vault_at 1000 0 0)) =
     Some (vault_at 500 0 0, 70000600, map (\<lambda>(d, v, b, m). \<lparr>om_dest = vad d, om_value = v, om_bounce = b, om_body = m\<rparr>)
       [(8, 20000000, False, ReceiptBurn 1 500), (6, 250, True, StakePayout 1), (5, 100, True, StakePayout 1), (4, 50, True, StakePayout 1)])"
  "run_tx 0 0 0 70000600 (vault_recv vault_ctx (from_at 1 20) (StakeRequestUnbond 2 500) (vault_at 500 0 0)) =
     Some (vault_at 0 500 20, 70000600, [])"
  "run_tx 0 0 0 70000600 (vault_recv vault_ctx (from_at 1 1020) (StakeWithdraw 3) (vault_at 0 500 20)) =
     Some (vault_at 0 0 0, 50000000, map (\<lambda>(d, v, b, m). \<lparr>om_dest = vad d, om_value = v, om_bounce = b, om_body = m\<rparr>)
       [(8, 20000000, False, ReceiptBurn 3 500), (1, 600, True, StakePayout 3)])"
  by (simp_all add: vault_example_defs)

text \<open>Nor are the credits of bounced payouts: a withdrawal sweeps them to the owner, and the claim then fails.\<close>

definition vault_owing :: vault_storage where
  "vault_owing = (vault_at 0 400 50)\<lparr>vs_pending := [(vad 7, 60000000000)]\<rparr>"

lemma credits_are_withdrawn:
  "\<exists>s' out. run_tx 0 0 0 60070000400 (vault_recv vault_ctx (from_at 1 1050) (StakeWithdraw 1) vault_owing) = Some (s', 50000000, out) \<and>
     om_dest (last out) = vad 1 \<and> om_value (last out) = 60000000400 \<and> hget (vs_pending s') (vad 7) = Some 60000000000 \<and>
     run_tx 0 0 0 50000000 (vault_recv vault_ctx (from_at 7 1060) (StakeClaim 2 (vad 7)) s') = None"
  by (simp add: vault_example_defs vault_owing_def)

text \<open>An owner who starts to unbond after an announcement cannot be out before the new code may be applied.\<close>

lemma upgrade_outruns_exit:
  assumes "up_at (vs_upgrade s) \<le> vs_unbonding_at s" "0 < vs_unbonding s" "in_sender i = vs_owner s"
    "vault_withdraw x i q s = Inr r"
  shows "up_at (vs_upgrade s) + vc_unbonding_period (vs_config s) \<le> in_now i"
  using assms by (cases r) (auto simp: vault_withdraw_def split: if_splits)

text \<open>
  Slashing all of the cooling stake leaves the cooldown's clock running. From then on nothing can be unbonded
  or withdrawn, and later deposits are stuck.
\<close>

definition stuck :: "vault_storage \<Rightarrow> bool" where
  "stuck s \<longleftrightarrow> vs_unbonding s = 0 \<and> vs_unbonding_at s \<noteq> 0"

lemma stuck_refuses:
  assumes "stuck s"
  shows "vault_recv x i m s = Inr (s', acts) \<Longrightarrow> stuck s'"
    "\<exists>e. vault_unbond i amt s = Inl e" "\<exists>e. vault_withdraw x i q s = Inl e" "vault_keeper x i q s = Inl NO_UNBONDING"
proof -
  assume "vault_recv x i m s = Inr (s', acts)"
  with assms show "stuck s'"
    by (cases m) (auto simp: stuck_def vault_recv_def vault_handlers Let_def split: if_splits option.splits sum.splits)
qed (use assms in \<open>auto simp: stuck_def vault_unbond_def vault_withdraw_def vault_keeper_def\<close>)

lemma stuck_bounced: "vault_bounced i body s = Inr (s', acts) \<Longrightarrow> stuck s \<Longrightarrow> stuck s'"
  by (cases body) (auto simp: vault_bounced_def stuck_def Let_def)

lemma stuck_forever:
  assumes "(vault_step x)\<^sup>*\<^sup>* c c'" "stuck (ch_store c)"
  shows "stuck (ch_store c')"
  using assms
proof (induction rule: rtranclp_induct)
  case (step c1 c2)
  from step.hyps(2) show ?case
  proof (cases rule: chain_step.cases)
    case (receive i gas fwd m s b out)
    from receive(3) obtain acts where "vault_recv x i m (ch_store c1) = Inr (s, acts)" by (rule run_tx_Some)
    with receive(1) step show ?thesis using stuck_refuses(1) by simp
  next
    case (bounce xs o1 ys i gas fwd s b out)
    from bounce(6) obtain acts where "vault_bounced i (om_body o1) (ch_store c1) = Inr (s, acts)" by (rule run_tx_Some)
    with bounce(1) step show ?thesis using stuck_bounced by simp
  qed (use step in simp_all)
qed

lemma slashed_cooling_stake_sticks:
  "\<exists>s' acts. vault_recv vault_ctx (from_at 2 60) (StakeSlash 1 400 0 (vad 6)) (vault_at 0 400 50) = Inr (s', acts) \<and> stuck s'"
  by (simp add: vault_example_defs stuck_def)

text \<open>
  A mint that bounces after its stake was slashed takes a later deposit off the books instead.
\<close>

lemma bounced_mint_takes_later_deposit:
  "vault_slash vault_ctx (from_at 2 10) 1 1000 (vad 6) (vault_at 1000 0 0) = Inr (vault_at 0 0 0,
     burnReceipt vault_ctx (vault_at 1000 0 0) 1000 1 # map (\<lambda>(d, v). vault_payout (vad d) v 1) [(6, 500), (5, 200), (4, 100)])"
  "vault_deposit vault_ctx deposit_msg 2 1000 (vault_at 0 0 0) = Inr (vault_at 1000 0 0, [mintReceipt vault_ctx (vault_at 0 0 0) 1000 2])"
  "vault_bounced (from_at 8 11) (JettonInternalTransfer 1 1000 (vad 9) (vad 9) 0) (vault_at 1000 0 0) = Inr (vault_at 0 0 0, [])"
  by (simp_all add: vault_example_defs deposit_msg_def vault_bounced_def)

text \<open>The value demanded of a deposit covers the mint's storage deposit but no fee, so bonded stake may lack backing.\<close>

lemma deposit_underfunded:
  "\<exists>out. run_tx 1 0 (in_value deposit_msg) 0 (vault_recv vault_ctx deposit_msg (StakeDeposit 1 1000) (vault_at 0 0 0)) =
     Some (vault_at 1000 0 0, 999, out)"
  by (simp add: vault_example_defs deposit_msg_def)

end
