(* ===== verification/Params.thy ===== *)
theory Params
  imports Tvm Payment Resilience
begin

text \<open>
  The ecosystem's parameters: the contract \<open>ton/contracts/GlobalParams.tolk\<close> with the types and bounds of
  \<open>global_params_types.tolk\<close>, and its readers in \<open>crates/settlement/src/ton.rs\<close>: \<open>GlobalParams::validate\<close>,
  \<open>OnchainPolicy::apply_to\<close> and \<open>GlobalParamsClient\<close>. The transport of get-methods is an argument.
\<close>

section \<open>Storage and messages\<close>

record eco_params =
  ep_platform_fee_bps :: nat
  ep_surcharge_bps :: nat
  ep_commission_bps :: nat
  ep_slash_wrong_bps :: nat
  ep_slash_cheat_bps :: nat
  ep_slash_downtime_bps :: nat
  ep_slash_equivocation_bps :: nat
  ep_split_challenger_bps :: nat
  ep_split_redundancy_bps :: nat
  ep_split_burn_bps :: nat
  ep_split_treasury_bps :: nat
  ep_min_stake :: nat
  ep_min_stake_internal :: nat
  ep_min_stake_sensitive :: nat
  ep_stake_cap :: nat
  ep_unbonding_secs :: nat
  ep_challenge_window_secs :: nat
  ep_n_public :: nat
  ep_n_default :: nat
  ep_n_max :: nat
  ep_quorum :: nat
  ep_checksum_min :: nat
  ep_w_quality_bps :: nat
  ep_w_stake_bps :: nat
  ep_w_price_bps :: nat
  ep_slash_failed_commitment_bps :: nat
  ep_attempt_deadline_ms :: nat
  ep_progress_interval_ms :: nat
  ep_progress_stall_mult :: nat

record gp_storage =
  gp_admin :: wallet_address
  gp_fee_recipient :: wallet_address
  gp_params :: eco_params
  gp_blocklist :: "(hash32, bool) hmap"
  gp_version :: nat
  gp_code_version :: nat
  gp_upgrade_delay :: nat
  gp_pending_hash :: hash32
  gp_pending_at :: nat

datatype gp_msg =
    UpdateParams nat wallet_address eco_params
  | UpdateAdmin nat wallet_address
  | SetBlocklisted nat hash32 bool
  | AnnounceCode nat hash32
  | UpgradeCode nat hash32
  | CancelCode nat
  | GpOther bool

datatype gp_body = ParamsUpdated nat nat nat nat | CodeUpgraded nat nat hash32

section \<open>Bounds\<close>

definition validateEcoParams :: "eco_params \<Rightarrow> err_code option" where
  "validateEcoParams p =
     (if ep_platform_fee_bps p \<le> BPS_DENOM \<and> ep_surcharge_bps p \<le> BPS_DENOM \<and> ep_slash_wrong_bps p \<le> BPS_DENOM \<and>
         ep_slash_cheat_bps p \<le> BPS_DENOM \<and> ep_slash_downtime_bps p \<le> BPS_DENOM \<and>
         ep_slash_equivocation_bps p \<le> BPS_DENOM \<and> ep_w_quality_bps p \<le> BPS_DENOM \<and> ep_w_stake_bps p \<le> BPS_DENOM \<and>
         ep_w_price_bps p \<le> BPS_DENOM \<and> ep_slash_failed_commitment_bps p \<le> BPS_DENOM \<and>
         ep_commission_bps p \<le> 1000 \<and> 1 \<le> ep_progress_interval_ms p \<and> 1 \<le> ep_progress_stall_mult p \<and>
         ep_split_challenger_bps p + ep_split_redundancy_bps p + ep_split_burn_bps p + ep_split_treasury_bps p = BPS_DENOM \<and>
         ep_min_stake_internal p \<le> ep_min_stake_sensitive p \<and> ep_min_stake p \<le> ep_min_stake_internal p \<and>
         ep_min_stake p \<le> ep_stake_cap p \<and> ep_challenge_window_secs p \<le> ep_unbonding_secs p \<and>
         1 \<le> ep_checksum_min p \<and> ep_checksum_min p \<le> ep_n_public p \<and> ep_n_public p \<le> ep_n_default p \<and>
         ep_n_default p \<le> ep_n_max p \<and> 1 \<le> ep_quorum p \<and> ep_quorum p \<le> ep_n_default p
      then None else Some PARAMS_OUT_OF_BOUNDS)"

text \<open>The check of the node before it sends an update.\<close>

definition global_params_validate :: "eco_params \<Rightarrow> string option" where
  "global_params_validate p =
     (let split = ep_split_challenger_bps p + ep_split_redundancy_bps p + ep_split_burn_bps p + ep_split_treasury_bps p in
      if split \<noteq> 10000 then Some (''slash split bps must sum to 10000, got '' @ show_nat split)
      else if 1000 < ep_commission_bps p then Some ''participation_commission_bps must be <= 1000 (10%)''
      else if \<not> (ep_min_stake_internal p \<le> ep_min_stake_sensitive p \<and> ep_min_stake p \<le> ep_min_stake_internal p)
        then Some ''require min_stake_sensitive >= min_stake_internal >= min_stake''
      else if ep_stake_cap p < ep_min_stake p then Some ''stake_cap must be >= min_stake''
      else if ep_unbonding_secs p < ep_challenge_window_secs p then Some ''unbonding_secs must be >= challenge_window_secs''
      else if ep_checksum_min p < 1 \<or> ep_n_public p < ep_checksum_min p \<or> ep_n_default p < ep_n_public p \<or>
          ep_n_max p < ep_n_default p
        then Some ''require n_max >= n_default >= n_public >= checksum_min >= 1''
      else if ep_quorum p < 1 \<or> ep_n_default p < ep_quorum p then Some ''require 1 <= quorum <= n_default''
      else if 10000 < ep_slash_failed_commitment_bps p then Some ''slash_failed_commitment_bps must be <= 10000''
      else if ep_progress_interval_ms p < 1 then Some ''progress_interval_ms must be >= 1''
      else if ep_progress_stall_mult p < 1 then Some ''progress_stall_mult must be >= 1''
      else None)"

section \<open>Handlers\<close>

definition save_params :: "gp_storage \<Rightarrow> gp_body action list \<Rightarrow> err_code + gp_storage \<times> gp_body action list" where
  "save_params s acts =
     (if fits_u32 (gp_version s) \<and> fits_u32 (gp_code_version s) \<and> fits_u32 (gp_pending_at s) then Inr (s, acts) else Inl RANGE_CHECK)"

definition gp_recv :: "in_message \<Rightarrow> gp_msg \<Rightarrow> gp_storage \<Rightarrow> err_code + gp_storage \<times> gp_body action list" where
  "gp_recv i m s =
     (case m of
        UpdateParams q fee p \<Rightarrow>
          if in_sender i \<noteq> gp_admin s then Inl NOT_ADMIN
          else (case validateEcoParams p of
              Some e \<Rightarrow> Inl e
            | None \<Rightarrow> save_params (s\<lparr>gp_fee_recipient := fee, gp_params := p, gp_version := gp_version s + 1\<rparr>)
                [EmitLog (ParamsUpdated q (gp_version s + 1) (ep_platform_fee_bps p) (ep_min_stake p))])
      | UpdateAdmin q a \<Rightarrow>
          if in_sender i \<noteq> gp_admin s then Inl NOT_ADMIN else save_params (s\<lparr>gp_admin := a\<rparr>) []
      | SetBlocklisted q subject b \<Rightarrow>
          if in_sender i \<noteq> gp_admin s then Inl NOT_ADMIN
          else save_params (s\<lparr>gp_blocklist := hput subject b (gp_blocklist s)\<rparr>) []
      | AnnounceCode q h \<Rightarrow>
          if in_sender i \<noteq> gp_admin s then Inl NOT_ADMIN
          else save_params (s\<lparr>gp_pending_hash := h, gp_pending_at := in_now i\<rparr>) []
      | UpgradeCode q code \<Rightarrow>
          if in_sender i \<noteq> gp_admin s then Inl NOT_ADMIN
          else if gp_pending_hash s = NO_HASH then Inl NO_PENDING_UPGRADE
          else if code \<noteq> gp_pending_hash s then Inl UPGRADE_CODE_MISMATCH
          else if in_now i < gp_pending_at s + gp_upgrade_delay s then Inl UPGRADE_TIMELOCK_ACTIVE
          else save_params (s\<lparr>gp_code_version := gp_code_version s + 1, gp_pending_hash := NO_HASH, gp_pending_at := 0\<rparr>)
            [SetCode code, EmitLog (CodeUpgraded q (gp_code_version s + 1) code)]
      | CancelCode q \<Rightarrow>
          if in_sender i \<noteq> gp_admin s then Inl NOT_ADMIN
          else if gp_pending_hash s = NO_HASH then Inl NO_PENDING_UPGRADE
          else save_params (s\<lparr>gp_pending_hash := NO_HASH, gp_pending_at := 0\<rparr>) []
      | GpOther no_body \<Rightarrow> if no_body then Inr (s, []) else Inl INVALID_OP)"

definition gp_bounced :: "in_message \<Rightarrow> gp_body \<Rightarrow> gp_storage \<Rightarrow> err_code + gp_storage \<times> gp_body action list" where
  "gp_bounced i body s = Inr (s, [])"

definition get_blocklisted :: "gp_storage \<Rightarrow> hash32 \<Rightarrow> bool" where
  "get_blocklisted s subject = (case hget (gp_blocklist s) subject of None \<Rightarrow> False | Some b \<Rightarrow> b)"

abbreviation gp_step :: "(gp_storage, gp_body) chain \<Rightarrow> (gp_storage, gp_body) chain \<Rightarrow> bool" where
  "gp_step \<equiv> chain_step gp_recv gp_bounced"

text \<open>The get-methods that return a number, by name; none for a name the contract does not have.\<close>

definition gp_getters :: "gp_storage \<Rightarrow> (string \<times> nat) list" where
  "gp_getters s =
     [(''get_params_version'', gp_version s), (''get_code_version'', gp_code_version s),
      (''get_platform_fee_bps'', ep_platform_fee_bps (gp_params s)),
      (''get_participation_commission_bps'', ep_commission_bps (gp_params s)),
      (''get_slash_failed_commitment_bps'', ep_slash_failed_commitment_bps (gp_params s)),
      (''get_attempt_deadline_ms'', ep_attempt_deadline_ms (gp_params s)),
      (''get_progress_interval_ms'', ep_progress_interval_ms (gp_params s)),
      (''get_progress_stall_mult'', ep_progress_stall_mult (gp_params s))]"

text \<open>Those of \<open>GlobalParamsV2.tolk\<close>, the code it is upgraded to.\<close>

definition gp_v2_getters :: "gp_storage \<Rightarrow> (string \<times> nat) list" where
  "gp_v2_getters s =
     [(''get_params_version'', gp_version s), (''get_code_version'', gp_code_version s),
      (''get_surcharge_bps'', ep_surcharge_bps (gp_params s)),
      (''get_platform_fee_bps'', ep_platform_fee_bps (gp_params s)),
      (''get_participation_commission_bps'', ep_commission_bps (gp_params s))]"

section \<open>The client\<close>

record onchain_policy =
  op_version :: nat
  op_platform_fee_bps :: nat
  op_fee_recipient :: wallet_address
  op_commission_bps :: nat
  op_slash_failed_commitment_bps :: nat
  op_attempt_deadline_ms :: nat
  op_progress_interval_ms :: nat
  op_progress_stall_mult :: nat

text \<open>The two calls of \<open>TonRpc\<close> the client makes: a number, and an address if the transport can read one.\<close>

record get_rpc =
  run_get_int :: "wallet_address \<Rightarrow> string \<Rightarrow> settle_error + int"
  run_get_address :: "wallet_address \<Rightarrow> string \<Rightarrow> settle_error + wallet_address option"

definition clamp_to :: "nat \<Rightarrow> int \<Rightarrow> nat" where
  "clamp_to hi v = nat (min (int hi) (max 0 v))"

text \<open>Several numbers in order, up to the first error.\<close>

fun get_ints :: "get_rpc \<Rightarrow> wallet_address \<Rightarrow> (string \<times> nat) list \<Rightarrow> settle_error + nat list" where
  "get_ints r a [] = Inr []"
| "get_ints r a ((m, hi) # ms) =
     (case run_get_int r a m of
        Inl e \<Rightarrow> Inl e
      | Inr v \<Rightarrow> (case get_ints r a ms of Inl e \<Rightarrow> Inl e | Inr vs \<Rightarrow> Inr (clamp_to hi v # vs)))"

definition policy_methods :: "(string \<times> nat) list" where
  "policy_methods = [(''get_params_version'', 4294967295), (''get_platform_fee_bps'', 65535),
     (''get_participation_commission_bps'', 65535), (''get_slash_failed_commitment_bps'', 65535),
     (''get_attempt_deadline_ms'', 4294967295), (''get_progress_interval_ms'', 4294967295), (''get_progress_stall_mult'', 255)]"

definition read_policy :: "get_rpc \<Rightarrow> wallet_address \<Rightarrow> settle_error + onchain_policy" where
  "read_policy r a =
     (case run_get_address r a ''get_fee_recipient'' of
        Inl e \<Rightarrow> Inl e
      | Inr None \<Rightarrow> Inl (SettleBackend ''GlobalParams.get_fee_recipient unreadable on this transport'')
      | Inr (Some fee) \<Rightarrow>
          (case get_ints r a policy_methods of
             Inl e \<Rightarrow> Inl e
           | Inr v \<Rightarrow> Inr \<lparr>op_version = v ! 0, op_platform_fee_bps = v ! 1, op_fee_recipient = fee, op_commission_bps = v ! 2,
               op_slash_failed_commitment_bps = v ! 3, op_attempt_deadline_ms = v ! 4, op_progress_interval_ms = v ! 5,
               op_progress_stall_mult = v ! 6\<rparr>))"

text \<open>The cast \<open>as u32\<close> of a number that is not negative keeps the low bits.\<close>

definition params_version :: "get_rpc \<Rightarrow> wallet_address \<Rightarrow> settle_error + nat" where
  "params_version r a = (case run_get_int r a ''get_params_version'' of Inl e \<Rightarrow> Inl e | Inr v \<Rightarrow> Inr (nat (max 0 v) mod 2 ^ 32))"

text \<open>The overlay of the policy on fees, the fine for a broken commitment, and the scheduler.\<close>

definition apply_to :: "onchain_policy \<Rightarrow> economics \<Rightarrow> scheduler_config \<Rightarrow> economics \<times> real \<times> scheduler_config" where
  "apply_to p econ sched =
     (econ\<lparr>platform_fee_pct := real (op_platform_fee_bps p) / 10000,
        participation_commission_frac := real (op_commission_bps p) / 10000\<rparr>,
      real (op_slash_failed_commitment_bps p) / 10000,
      sched\<lparr>attempt_deadline_ms := op_attempt_deadline_ms p, progress_interval_ms := op_progress_interval_ms p,
        progress_stall_multiplier := max (op_progress_stall_mult p) 1\<rparr>)"

definition sync_into ::
    "get_rpc \<Rightarrow> wallet_address \<Rightarrow> economics \<Rightarrow> scheduler_config \<Rightarrow> settle_error + onchain_policy \<times> economics \<times> real \<times> scheduler_config" where
  "sync_into r a econ sched = (case read_policy r a of Inl e \<Rightarrow> Inl e | Inr p \<Rightarrow> Inr (p, apply_to p econ sched))"

section \<open>The contract\<close>

lemma save_params_Inr [simp]:
  "save_params s acts = Inr (s', acts') \<longleftrightarrow>
     fits_u32 (gp_version s) \<and> fits_u32 (gp_code_version s) \<and> fits_u32 (gp_pending_at s) \<and> s' = s \<and> acts' = acts"
  by (auto simp: save_params_def)

text \<open>What a message changes: nothing, or at the admin's word valid parameters under the next version.\<close>

lemma gp_recv_params:
  assumes "gp_recv i m s = Inr (s', acts)"
  shows "gp_params s' = gp_params s \<and> gp_fee_recipient s' = gp_fee_recipient s \<and> gp_version s' = gp_version s \<or>
     in_sender i = gp_admin s \<and> gp_version s' = gp_version s + 1 \<and> fits_u32 (gp_version s') \<and>
     validateEcoParams (gp_params s') = None"
  using assms by (cases m) (auto simp: gp_recv_def split: if_splits option.splits)

lemma gp_step_params:
  assumes "gp_step c c'"
  shows "gp_params (ch_store c') = gp_params (ch_store c) \<and> gp_fee_recipient (ch_store c') = gp_fee_recipient (ch_store c) \<and>
       gp_version (ch_store c') = gp_version (ch_store c) \<or>
     gp_version (ch_store c') = gp_version (ch_store c) + 1 \<and> fits_u32 (gp_version (ch_store c')) \<and>
       validateEcoParams (gp_params (ch_store c')) = None"
  using assms
proof (cases rule: chain_step.cases)
  case (receive i gas fwd m s b out)
  from receive(3) obtain acts where "gp_recv i m (ch_store c) = Inr (s, acts)" by (rule run_tx_Some)
  from gp_recv_params [OF this] receive(1) show ?thesis by auto
next
  case (bounce xs o1 ys i gas fwd s b out)
  from bounce(6) obtain acts where "gp_bounced i (om_body o1) (ch_store c) = Inr (s, acts)" by (rule run_tx_Some)
  with bounce(1) show ?thesis by (simp add: gp_bounced_def)
qed simp_all

lemma gp_reachable_params:
  assumes "gp_step\<^sup>*\<^sup>* c c'"
  shows "gp_version (ch_store c) \<le> gp_version (ch_store c') \<and>
     (gp_version (ch_store c') = gp_version (ch_store c) \<longrightarrow>
        gp_params (ch_store c') = gp_params (ch_store c) \<and> gp_fee_recipient (ch_store c') = gp_fee_recipient (ch_store c)) \<and>
     (validateEcoParams (gp_params (ch_store c)) = None \<longrightarrow> validateEcoParams (gp_params (ch_store c')) = None)"
  using assms
proof (induction rule: rtranclp_induct)
  case (step c1 c2)
  from gp_step_params [OF step.hyps(2)] step.IH show ?case by auto
qed simp

text \<open>
  C13: The parameters in force are always within bounds, the version only grows, and a version pins them: when
  the version is the same at two moments, so are all parameters and the fee recipient.
\<close>

theorem params_pinned_by_version:
  assumes "gp_step\<^sup>*\<^sup>* c0 c" and "gp_step\<^sup>*\<^sup>* c c'" and "validateEcoParams (gp_params (ch_store c0)) = None"
  shows "validateEcoParams (gp_params (ch_store c')) = None \<and> gp_version (ch_store c) \<le> gp_version (ch_store c') \<and>
    (gp_version (ch_store c') = gp_version (ch_store c) \<longrightarrow>
       gp_params (ch_store c') = gp_params (ch_store c) \<and> gp_fee_recipient (ch_store c') = gp_fee_recipient (ch_store c))"
  using gp_reachable_params [OF assms(1)] gp_reachable_params [OF assms(2)] assms(3) by simp

text \<open>
  Only the admin changes anything, and code only when its hash was announced and the delay is over.
\<close>

theorem params_admin_only:
  assumes "gp_recv i m s = Inr (s', acts)"
  shows "(s' \<noteq> s \<longrightarrow> in_sender i = gp_admin s) \<and>
    (SetCode h \<in> set acts \<longrightarrow> in_sender i = gp_admin s \<and> h \<noteq> NO_HASH \<and> h = gp_pending_hash s \<and>
       gp_pending_at s + gp_upgrade_delay s \<le> in_now i \<and> gp_code_version s' = gp_code_version s + 1) \<and>
    (gp_pending_hash s' \<noteq> NO_HASH \<longrightarrow> gp_pending_hash s' = gp_pending_hash s \<and> gp_pending_at s' = gp_pending_at s \<or>
       in_sender i = gp_admin s \<and> gp_pending_at s' = in_now i)"
  using assms by (cases m) (auto simp: gp_recv_def split: if_splits option.splits)

section \<open>Contract and node\<close>

text \<open>
  C28: Whatever the contract accepts passes the node's own check; conversely the node's check leaves out nothing
  but the bounds of nine rates.
\<close>

theorem params_checks_agree:
  "validateEcoParams p = None \<longleftrightarrow> global_params_validate p = None \<and>
     ep_platform_fee_bps p \<le> BPS_DENOM \<and> ep_surcharge_bps p \<le> BPS_DENOM \<and> ep_slash_wrong_bps p \<le> BPS_DENOM \<and>
     ep_slash_cheat_bps p \<le> BPS_DENOM \<and> ep_slash_downtime_bps p \<le> BPS_DENOM \<and> ep_slash_equivocation_bps p \<le> BPS_DENOM \<and>
     ep_w_quality_bps p \<le> BPS_DENOM \<and> ep_w_stake_bps p \<le> BPS_DENOM \<and> ep_w_price_bps p \<le> BPS_DENOM"
  unfolding validateEcoParams_def global_params_validate_def Let_def BPS_DENOM_def by (simp add: not_less not_le)

text \<open>The node accepts a platform fee above the whole price, which the contract refuses.\<close>

definition params_example :: eco_params where
  "params_example = \<lparr>ep_platform_fee_bps = 200, ep_surcharge_bps = 0, ep_commission_bps = 500, ep_slash_wrong_bps = 500,
     ep_slash_cheat_bps = 10000, ep_slash_downtime_bps = 100, ep_slash_equivocation_bps = 10000, ep_split_challenger_bps = 5000,
     ep_split_redundancy_bps = 2000, ep_split_burn_bps = 2000, ep_split_treasury_bps = 1000, ep_min_stake = 10,
     ep_min_stake_internal = 20, ep_min_stake_sensitive = 30, ep_stake_cap = 1000, ep_unbonding_secs = 1000,
     ep_challenge_window_secs = 500, ep_n_public = 3, ep_n_default = 5, ep_n_max = 10, ep_quorum = 2, ep_checksum_min = 2,
     ep_w_quality_bps = 5000, ep_w_stake_bps = 2000, ep_w_price_bps = 3000, ep_slash_failed_commitment_bps = 1000,
     ep_attempt_deadline_ms = 60000, ep_progress_interval_ms = 2000, ep_progress_stall_mult = 5\<rparr>"

lemma node_accepts_what_chain_refuses:
  "global_params_validate (params_example\<lparr>ep_platform_fee_bps := 20000\<rparr>) = None"
  "validateEcoParams (params_example\<lparr>ep_platform_fee_bps := 20000\<rparr>) = Some PARAMS_OUT_OF_BOUNDS"
  by (simp_all add: params_example_def global_params_validate_def validateEcoParams_def BPS_DENOM_def)

text \<open>A transport that answers for the contract, with its numbers and its fee recipient.\<close>

definition answers :: "get_rpc \<Rightarrow> wallet_address \<Rightarrow> (string \<times> nat) list \<Rightarrow> wallet_address \<Rightarrow> bool" where
  "answers r a getters fee \<longleftrightarrow> run_get_address r a ''get_fee_recipient'' = Inr (Some fee) \<and>
     (\<forall>m. case map_of getters m of Some v \<Rightarrow> run_get_int r a m = Inr (int v) | None \<Rightarrow> (\<exists>e. run_get_int r a m = Inl e))"

text \<open>The widths of the fields the policy is read from.\<close>

definition policy_fits :: "gp_storage \<Rightarrow> bool" where
  "policy_fits s \<longleftrightarrow> fits_u32 (gp_version s) \<and> fits_u32 (ep_attempt_deadline_ms (gp_params s)) \<and>
     fits_u32 (ep_progress_interval_ms (gp_params s)) \<and> ep_progress_stall_mult (gp_params s) < 256"

lemma answers_int: "answers r a gs fee \<Longrightarrow> map_of gs m = Some v \<Longrightarrow> run_get_int r a m = Inr (int v)"
  unfolding answers_def by (erule conjE, drule spec [of _ m]) simp

lemma clamp_to_id: "v \<le> hi \<Longrightarrow> clamp_to hi (int v) = v"
  by (simp add: clamp_to_def)

lemma read_policy_exact:
  assumes "answers r a (gp_getters s) (gp_fee_recipient s)" "policy_fits s" "validateEcoParams (gp_params s) = None"
  shows "read_policy r a = Inr \<lparr>op_version = gp_version s, op_platform_fee_bps = ep_platform_fee_bps (gp_params s),
    op_fee_recipient = gp_fee_recipient s, op_commission_bps = ep_commission_bps (gp_params s),
    op_slash_failed_commitment_bps = ep_slash_failed_commitment_bps (gp_params s),
    op_attempt_deadline_ms = ep_attempt_deadline_ms (gp_params s), op_progress_interval_ms = ep_progress_interval_ms (gp_params s),
    op_progress_stall_mult = ep_progress_stall_mult (gp_params s)\<rparr>"
proof -
  note g = answers_int [OF assms(1)]
  have f: "run_get_address r a ''get_fee_recipient'' = Inr (Some (gp_fee_recipient s))" using assms(1) by (simp add: answers_def)
  have i: "run_get_int r a ''get_params_version'' = Inr (int (gp_version s))"
    "run_get_int r a ''get_platform_fee_bps'' = Inr (int (ep_platform_fee_bps (gp_params s)))"
    "run_get_int r a ''get_participation_commission_bps'' = Inr (int (ep_commission_bps (gp_params s)))"
    "run_get_int r a ''get_slash_failed_commitment_bps'' = Inr (int (ep_slash_failed_commitment_bps (gp_params s)))"
    "run_get_int r a ''get_attempt_deadline_ms'' = Inr (int (ep_attempt_deadline_ms (gp_params s)))"
    "run_get_int r a ''get_progress_interval_ms'' = Inr (int (ep_progress_interval_ms (gp_params s)))"
    "run_get_int r a ''get_progress_stall_mult'' = Inr (int (ep_progress_stall_mult (gp_params s)))"
    by (rule g, simp add: gp_getters_def)+
  have "ep_platform_fee_bps (gp_params s) \<le> 65535" "ep_commission_bps (gp_params s) \<le> 65535"
    "ep_slash_failed_commitment_bps (gp_params s) \<le> 65535"
    using assms(3) by (auto simp: validateEcoParams_def BPS_DENOM_def split: if_splits)
  then show ?thesis using assms(2)
    by (simp add: read_policy_def f policy_methods_def i clamp_to_id policy_fits_def fits_u32_def)
qed

lemma to_bps_frac: "b \<le> 65535 \<Longrightarrow> to_bps (real b / 10000) = b"
  by (simp add: to_bps_def)

text \<open>
  C27: A node that syncs from the contract charges by the contract: the fee and commission rates it computes
  every split with, the version it pins jobs to and the fee recipient are exactly those on the chain, and its
  stall timeout is the product of the two numbers there.
\<close>

theorem synced_node_follows_chain:
  assumes "answers r a (gp_getters s) (gp_fee_recipient s)" and "policy_fits s" and "validateEcoParams (gp_params s) = None"
  shows "\<exists>p econ' slash sched'. sync_into r a econ sched = Inr (p, econ', slash, sched') \<and>
    op_version p = gp_version s \<and> op_fee_recipient p = gp_fee_recipient s \<and>
    to_bps (platform_fee_pct econ') = ep_platform_fee_bps (gp_params s) \<and>
    to_bps (participation_commission_frac econ') = ep_commission_bps (gp_params s) \<and>
    to_bps slash = ep_slash_failed_commitment_bps (gp_params s) \<and>
    attempt_deadline_ms sched' = ep_attempt_deadline_ms (gp_params s) \<and>
    stall_timeout_ms sched' = ep_progress_interval_ms (gp_params s) * ep_progress_stall_mult (gp_params s)"
proof -
  have b: "ep_platform_fee_bps (gp_params s) \<le> 65535" "ep_commission_bps (gp_params s) \<le> 65535"
    "ep_slash_failed_commitment_bps (gp_params s) \<le> 65535" "1 \<le> ep_progress_stall_mult (gp_params s)"
    using assms(3) by (auto simp: validateEcoParams_def BPS_DENOM_def split: if_splits)
  have "ep_progress_interval_ms (gp_params s) * ep_progress_stall_mult (gp_params s) \<le> 4294967295 * 255"
    using assms(2) by (intro mult_le_mono) (simp_all add: policy_fits_def fits_u32_def)
  then have "sat_mul u64_max (ep_progress_interval_ms (gp_params s)) (max (ep_progress_stall_mult (gp_params s)) 1) =
      ep_progress_interval_ms (gp_params s) * ep_progress_stall_mult (gp_params s)"
    using b(4) by (simp add: sat_mul_def u64_max_def max_def)
  with b(1,2,3) show ?thesis
    unfolding sync_into_def read_policy_exact [OF assms] sum.case apply_to_def
    by - (intro exI conjI, rule refl, simp_all add: to_bps_frac stall_timeout_ms_def)
qed

text \<open>After the upgrade to the second version of the contract the policy can no longer be read.\<close>

lemma v2_loses_policy:
  assumes "answers r a (gp_v2_getters s) (gp_fee_recipient s)"
  shows "\<exists>e. sync_into r a econ sched = Inl e"
proof -
  have f: "run_get_address r a ''get_fee_recipient'' = Inr (Some (gp_fee_recipient s))" using assms by (simp add: answers_def)
  have "case map_of (gp_v2_getters s) ''get_slash_failed_commitment_bps'' of
      Some v \<Rightarrow> run_get_int r a ''get_slash_failed_commitment_bps'' = Inr (int v)
    | None \<Rightarrow> (\<exists>e. run_get_int r a ''get_slash_failed_commitment_bps'' = Inl e)"
    using assms unfolding answers_def by blast
  then obtain e where "run_get_int r a ''get_slash_failed_commitment_bps'' = Inl e" by (auto simp: gp_v2_getters_def)
  then show ?thesis
    by (simp add: sync_into_def read_policy_def f policy_methods_def split: sum.splits)
qed

section \<open>Examples\<close>

definition gpa :: "u8 \<Rightarrow> wallet_address" where
  "gpa n = \<lparr>workchain = 0, account = [n]\<rparr>"

definition gp_example :: gp_storage where
  "gp_example = \<lparr>gp_admin = gpa 1, gp_fee_recipient = gpa 2, gp_params = params_example, gp_blocklist = [], gp_version = 4,
     gp_code_version = 0, gp_upgrade_delay = 1000, gp_pending_hash = [7], gp_pending_at = 50\<rparr>"

definition gp_chain :: "(gp_storage, gp_body) chain" where
  "gp_chain = \<lparr>ch_store = gp_example, ch_balance = 100, ch_flight = [], ch_done = [], ch_fees = 0\<rparr>"

definition gp_admin_msg :: in_message where
  "gp_admin_msg = \<lparr>in_sender = gpa 1, in_value = 0, in_now = 1050\<rparr>"

lemmas gp_example_defs = gp_example_def gp_chain_def gp_admin_msg_def params_example_def gpa_def gp_recv_def validateEcoParams_def
  save_params_def fits_u32_def run_tx_def BPS_DENOM_def

theorem params_pinned_by_version_witness:
  "\<exists>c. gp_step\<^sup>*\<^sup>* gp_chain c \<and> validateEcoParams (gp_params (ch_store gp_chain)) = None \<and> gp_version (ch_store c) = 5 \<and>
     gp_fee_recipient (ch_store c) = gpa 3 \<and> validateEcoParams (gp_params (ch_store c)) = None"
proof -
  let ?s = "gp_example\<lparr>gp_fee_recipient := gpa 3, gp_version := 5\<rparr>"
  have "run_tx 0 0 (in_value gp_admin_msg) (ch_balance gp_chain) (gp_recv gp_admin_msg (UpdateParams 1 (gpa 3) params_example) (ch_store gp_chain)) =
      Some (?s, 100, [])" by (simp add: gp_example_defs)
  from chain_step.receive [where recv = gp_recv and bounced = gp_bounced, OF _ this] obtain c where
    s: "gp_step gp_chain c" and c: "ch_store c = ?s" by (simp add: gp_admin_msg_def)
  have v: "validateEcoParams (gp_params (ch_store gp_chain)) = None" by (simp add: gp_example_defs)
  from s have r: "gp_step\<^sup>*\<^sup>* gp_chain c" by (rule r_into_rtranclp)
  from params_pinned_by_version [OF rtranclp.rtrancl_refl r v] r v c show ?thesis by (intro exI [of _ c]) (simp add: gp_example_def)
qed

theorem params_admin_only_witness:
  "\<exists>s'. gp_recv gp_admin_msg (UpgradeCode 1 [7]) gp_example = Inr (s', [SetCode [7], EmitLog (CodeUpgraded 1 1 [7])]) \<and>
     s' \<noteq> gp_example \<and> gp_pending_at gp_example + gp_upgrade_delay gp_example \<le> 1050 \<and> gp_code_version s' = 1"
proof -
  have r: "gp_recv gp_admin_msg (UpgradeCode 1 [7]) gp_example =
      Inr (gp_example\<lparr>gp_code_version := 1, gp_pending_hash := NO_HASH, gp_pending_at := 0\<rparr>, [SetCode [7], EmitLog (CodeUpgraded 1 1 [7])])"
    by (simp add: gp_example_defs NO_HASH_def Cons_replicate_eq)
  from params_admin_only [OF r, of "[7]"] r show ?thesis by (simp add: gp_example_def gp_admin_msg_def)
qed

definition answering :: get_rpc where
  "answering = \<lparr>run_get_int = \<lambda>a m. (case map_of (gp_getters gp_example) m of Some v \<Rightarrow> Inr (int v) | None \<Rightarrow> Inl TxUnconfirmed),
     run_get_address = \<lambda>a m. Inr (Some (gpa 2))\<rparr>"

definition econ_example :: economics where
  "econ_example = \<lparr>enabled = True, platform_fee_pct = 0, participation_commission_frac = 0, pricing_max_bid = 1, local_fee_recipient = None\<rparr>"

theorem synced_node_follows_chain_witness:
  "\<exists>p econ' slash sched'. sync_into answering (gpa 9) econ_example scheduler_default = Inr (p, econ', slash, sched') \<and>
     op_version p = 4 \<and> to_bps (platform_fee_pct econ') = 200 \<and> stall_timeout_ms sched' = 10000"
proof -
  have a: "answers answering (gpa 9) (gp_getters gp_example) (gp_fee_recipient gp_example)"
    by (simp add: answers_def answering_def gp_example_def split: option.splits)
  have "policy_fits gp_example" "validateEcoParams (gp_params gp_example) = None"
    by (simp_all add: policy_fits_def gp_example_defs)
  from synced_node_follows_chain [OF a this, of econ_example scheduler_default] obtain p econ' slash sched' where
    "sync_into answering (gpa 9) econ_example scheduler_default = Inr (p, econ', slash, sched')"
    "op_version p = gp_version gp_example" "to_bps (platform_fee_pct econ') = ep_platform_fee_bps (gp_params gp_example)"
    "stall_timeout_ms sched' = ep_progress_interval_ms (gp_params gp_example) * ep_progress_stall_mult (gp_params gp_example)"
    by (elim exE conjE) (rule that)
  then show ?thesis by (intro exI [of _ p] exI [of _ econ'] exI [of _ slash] exI [of _ sched']) (simp add: gp_example_def params_example_def)
qed

end
