(* ===== verification/Disputes.thy ===== *)
theory Disputes
  imports Tvm Anchor
begin

text \<open>
  Anchoring and disputes on the chain: \<open>ton/contracts/RecordAnchor.tolk\<close> with the types and the Merkle fold of
  \<open>anchor_types.tolk\<close>, and the off-chain side of \<open>crates/settlement/src/ton.rs\<close> that submits roots and builds
  dispute proofs. SHA-256, the hash of a cell without references, is the argument \<open>H\<close>. A root is a hash of 32
  bytes; a code cell stands for its hash.
\<close>

section \<open>Storage and messages\<close>

text \<open>A proof is a chain of cells; \<open>True\<close> stands for \<open>dir = 1\<close>, the sibling on the left.\<close>

datatype merkle_step = MerkleStep bool hash32 "merkle_step option"

record anchor_authorities =
  aa_treasury :: wallet_address
  aa_keeper :: wallet_address
  aa_upgrade_authority :: wallet_address

record anchor_config =
  ac_min_stake_weight :: nat
  ac_dispute_bond_min :: nat
  ac_verdict_authority :: wallet_address
  ac_auth :: anchor_authorities

record dispute_info =
  di_challenger :: wallet_address
  di_epoch :: nat
  di_leaf :: hash32
  di_bond :: nat
  di_status :: nat

record anchor_storage =
  an_epoch :: nat
  an_last_root :: hash32
  an_next_dispute :: nat
  an_disputes :: "(nat, dispute_info) hmap"
  an_roots :: "(nat, hash32) hmap"
  an_config :: anchor_config
  an_code_version :: nat
  an_pending_hash :: hash32
  an_pending_at :: nat
  an_upgrade_delay :: nat

datatype anchor_msg =
    AnchorSubmitRoot nat nat hash32 hash32 nat
  | AnchorOpenDispute nat nat hash32 "merkle_step option"
  | AnchorResolveDispute nat nat bool
  | AnchorAnnounceUpgrade nat hash32
  | AnchorUpgradeCode nat hash32
  | AnchorCancelUpgrade nat
  | AnchorOther bool

datatype anchor_body = AnchorBondRefund nat

section \<open>The fold of a proof\<close>

definition hashPair :: "(bytes \<Rightarrow> hash32) \<Rightarrow> hash32 \<Rightarrow> hash32 \<Rightarrow> hash32" where
  "hashPair H left right = H ([0x00, 0x80] @ left @ right)"

definition hashLeaf :: "(bytes \<Rightarrow> hash32) \<Rightarrow> hash32 \<Rightarrow> hash32" where
  "hashLeaf H x = H ([0x00, 0x40] @ x)"

text \<open>The loop, with the depth reached and the accumulator.\<close>

fun fold_proof :: "(bytes \<Rightarrow> hash32) \<Rightarrow> nat \<Rightarrow> hash32 \<Rightarrow> merkle_step option \<Rightarrow> err_code + hash32" where
  "fold_proof H depth acc None = Inr acc"
| "fold_proof H depth acc (Some (MerkleStep dir sibling next)) =
     (if MAX_MERKLE_PROOF_DEPTH < depth + 1 then Inl PROOF_TOO_DEEP
      else fold_proof H (depth + 1) (if dir then hashPair H sibling acc else hashPair H acc sibling) next)"

definition computeRootFromProof :: "(bytes \<Rightarrow> hash32) \<Rightarrow> hash32 \<Rightarrow> merkle_step option \<Rightarrow> err_code + hash32" where
  "computeRootFromProof H lf pf = fold_proof H 0 (hashLeaf H lf) pf"

text \<open>The chain of cells built from an off-chain proof, and the dispute message.\<close>

definition build_merkle_proof_cell :: "inclusion_proof \<Rightarrow> merkle_step option" where
  "build_merkle_proof_cell p = foldr (\<lambda>(is_left, sib) next. Some (MerkleStep is_left sib next)) (siblings p) None"

definition build_anchor_open_dispute :: "nat \<Rightarrow> nat \<Rightarrow> hash32 \<Rightarrow> inclusion_proof \<Rightarrow> anchor_msg" where
  "build_anchor_open_dispute q ep lf p = AnchorOpenDispute q ep lf (build_merkle_proof_cell p)"

section \<open>Handlers\<close>

definition validateAnchorConfig :: "anchor_config \<Rightarrow> err_code option" where
  "validateAnchorConfig cfg = (if ac_dispute_bond_min cfg < MIN_DISPUTE_BOND_FLOOR then Some BOND_FLOOR_TOO_LOW else None)"

definition refundBond :: "wallet_address \<Rightarrow> nat \<Rightarrow> nat \<Rightarrow> anchor_body action" where
  "refundBond d amt dispute = Send PayFees d amt True (AnchorBondRefund dispute)"

definition save_anchor :: "anchor_storage \<Rightarrow> anchor_body action list \<Rightarrow> err_code + anchor_storage \<times> anchor_body action list" where
  "save_anchor s acts =
     (if fits_u32 (an_epoch s) \<and> fits_u32 (an_next_dispute s) \<and> fits_u32 (an_code_version s) \<and> fits_u32 (an_pending_at s)
      then Inr (s, acts) else Inl RANGE_CHECK)"

definition anchor_submit ::
    "in_message \<Rightarrow> nat \<Rightarrow> hash32 \<Rightarrow> hash32 \<Rightarrow> nat \<Rightarrow> anchor_storage \<Rightarrow> err_code + anchor_storage \<times> anchor_body action list" where
  "anchor_submit i ep root prev stake_weight s =
     (let cfg = an_config s in
      if in_sender i \<noteq> aa_keeper (ac_auth cfg) then Inl NOT_ANCHOR_KEEPER
      else case validateAnchorConfig cfg of
        Some e \<Rightarrow> Inl e
      | None \<Rightarrow>
          if root = NO_HASH then Inl ZERO_ROOT
          else if ep \<noteq> an_epoch s + 1 then Inl EPOCH_REGRESSION
          else if prev \<noteq> an_last_root s then Inl BAD_PREV_ROOT
          else if stake_weight < ac_min_stake_weight cfg then Inl INSUFFICIENT_ANCHOR_STAKE
          else save_anchor (s\<lparr>an_epoch := ep, an_last_root := root, an_roots := hput ep root (an_roots s)\<rparr>) [])"

definition anchor_open_dispute ::
    "(bytes \<Rightarrow> hash32) \<Rightarrow> in_message \<Rightarrow> nat \<Rightarrow> hash32 \<Rightarrow> merkle_step option \<Rightarrow> anchor_storage \<Rightarrow>
      err_code + anchor_storage \<times> anchor_body action list" where
  "anchor_open_dispute H i ep lf pf s =
     (if in_value i < ac_dispute_bond_min (an_config s) then Inl DISPUTE_BOND_TOO_LOW
      else case hget (an_roots s) ep of
        None \<Rightarrow> Inl UNKNOWN_EPOCH
      | Some anchored_root \<Rightarrow>
          (case computeRootFromProof H lf pf of
             Inl e \<Rightarrow> Inl e
           | Inr recomputed \<Rightarrow>
               if recomputed \<noteq> anchored_root then Inl BAD_INCLUSION_PROOF
               else save_anchor (s\<lparr>an_next_dispute := an_next_dispute s + 1,
                 an_disputes := hput (an_next_dispute s) \<lparr>di_challenger = in_sender i, di_epoch = ep, di_leaf = lf,
                   di_bond = in_value i, di_status = 0\<rparr> (an_disputes s)\<rparr>) []))"

definition anchor_resolve ::
    "in_message \<Rightarrow> nat \<Rightarrow> bool \<Rightarrow> anchor_storage \<Rightarrow> err_code + anchor_storage \<times> anchor_body action list" where
  "anchor_resolve i dispute upheld s =
     (let cfg = an_config s in
      if in_sender i \<noteq> ac_verdict_authority cfg then Inl NOT_VERDICT_AUTHORITY
      else case hget (an_disputes s) dispute of
        None \<Rightarrow> Inl NO_SUCH_DISPUTE
      | Some d \<Rightarrow>
          if di_status d \<noteq> 0 then Inl DISPUTE_NOT_OPEN
          else save_anchor (s\<lparr>an_disputes := hput dispute (d\<lparr>di_status := if upheld then 1 else 2\<rparr>) (an_disputes s)\<rparr>)
            [refundBond (if upheld then di_challenger d else aa_treasury (ac_auth cfg)) (di_bond d) dispute])"

definition anchor_recv ::
    "(bytes \<Rightarrow> hash32) \<Rightarrow> in_message \<Rightarrow> anchor_msg \<Rightarrow> anchor_storage \<Rightarrow> err_code + anchor_storage \<times> anchor_body action list" where
  "anchor_recv H i m s =
     (let auth = aa_upgrade_authority (ac_auth (an_config s)) in
      case m of
        AnchorSubmitRoot q ep root prev w \<Rightarrow> anchor_submit i ep root prev w s
      | AnchorOpenDispute q ep lf pf \<Rightarrow> anchor_open_dispute H i ep lf pf s
      | AnchorResolveDispute q dispute upheld \<Rightarrow> anchor_resolve i dispute upheld s
      | AnchorAnnounceUpgrade q h \<Rightarrow>
          if in_sender i \<noteq> auth then Inl UPGRADE_NOT_AUTHORITY
          else save_anchor (s\<lparr>an_pending_hash := h, an_pending_at := in_now i\<rparr>) []
      | AnchorUpgradeCode q code \<Rightarrow>
          if in_sender i \<noteq> auth then Inl UPGRADE_NOT_AUTHORITY
          else if an_pending_hash s = NO_HASH then Inl NO_PENDING_UPGRADE
          else if code \<noteq> an_pending_hash s then Inl UPGRADE_CODE_MISMATCH
          else if in_now i < an_pending_at s + an_upgrade_delay s then Inl UPGRADE_TIMELOCK_ACTIVE
          else save_anchor (s\<lparr>an_code_version := an_code_version s + 1, an_pending_hash := NO_HASH, an_pending_at := 0\<rparr>) [SetCode code]
      | AnchorCancelUpgrade q \<Rightarrow>
          if in_sender i \<noteq> auth then Inl UPGRADE_NOT_AUTHORITY
          else if an_pending_hash s = NO_HASH then Inl NO_PENDING_UPGRADE
          else save_anchor (s\<lparr>an_pending_hash := NO_HASH, an_pending_at := 0\<rparr>) []
      | AnchorOther no_body \<Rightarrow> if no_body then Inr (s, []) else Inl INVALID_OP)"

text \<open>A bounced bond re-opens its dispute.\<close>

definition anchor_bounced :: "in_message \<Rightarrow> anchor_body \<Rightarrow> anchor_storage \<Rightarrow> err_code + anchor_storage \<times> anchor_body action list" where
  "anchor_bounced i body s =
     (case body of AnchorBondRefund dispute \<Rightarrow>
        (case hget (an_disputes s) dispute of
           None \<Rightarrow> Inr (s, [])
         | Some d \<Rightarrow> save_anchor (s\<lparr>an_disputes := hput dispute (d\<lparr>di_status := 0\<rparr>) (an_disputes s)\<rparr>) []))"

abbreviation anchor_step ::
    "(bytes \<Rightarrow> hash32) \<Rightarrow> (anchor_storage, anchor_body) chain \<Rightarrow> (anchor_storage, anchor_body) chain \<Rightarrow> bool" where
  "anchor_step H \<equiv> chain_step (anchor_recv H) anchor_bounced"

section \<open>The keeper\<close>

text \<open>
  \<open>TonRecordAnchor::submit_root\<close>: the epoch tree of the node, the last root it sent, and what the chain says.
  \<open>live\<close> is the state read from the contract, if the transport can read it; \<open>sent_ok\<close> tells whether the
  message was sent and confirmed.
\<close>

record keeper_state =
  ks_leaves :: "(string \<times> hash32) list"
  ks_prev :: hash32

definition submit_root ::
    "(bytes \<Rightarrow> hash32) \<Rightarrow> settle_error + (nat \<times> hash32) option \<Rightarrow> (anchor_msg \<Rightarrow> settle_error + string) \<Rightarrow> nat \<Rightarrow> nat \<Rightarrow> nat \<Rightarrow>
      keeper_state \<Rightarrow> (settle_error + string) \<times> keeper_state" where
  "submit_root H live send q ep stake_weight k =
     (case try_merkle_root H (map snd (ks_leaves k)) of
        None \<Rightarrow> (Inl (SettleBackend ''refusing to anchor an empty epoch (no records)''), k)
      | Some root \<Rightarrow>
          if root = NO_HASH then (Inl (SettleBackend ''refusing to anchor a zero root''), k)
          else (case (case live of
                  Inl e \<Rightarrow> Inl e
                | Inr None \<Rightarrow> Inr (ks_prev k)
                | Inr (Some (onchain_epoch, onchain_last)) \<Rightarrow>
                    if ep \<noteq> sat_add (2 ^ 32 - 1) onchain_epoch 1
                    then Inl (SettleBackend (''anchor epoch desync: submitting epoch '' @ show_nat ep @
                      '' but on-chain currentEpoch is '' @ show_nat onchain_epoch @ '' (expected '' @
                      show_nat (sat_add (2 ^ 32 - 1) onchain_epoch 1) @ '')''))
                    else Inr onchain_last) of
              Inl e \<Rightarrow> (Inl e, k)
            | Inr prev \<Rightarrow>
                (case send (AnchorSubmitRoot q ep root prev stake_weight) of
                   Inl e \<Rightarrow> (Inl e, k)
                 | Inr res \<Rightarrow> (Inr res, k\<lparr>ks_prev := root\<rparr>))))"

section \<open>Proofs on and off the chain\<close>

fun steps_of :: "merkle_step option \<Rightarrow> (bool \<times> hash32) list" where
  "steps_of None = []"
| "steps_of (Some (MerkleStep dir sibling next)) = (dir, sibling) # steps_of next"

lemma hash_defs: "hashPair = hash_node" "hashLeaf = hash_leaf"
  by (simp_all add: fun_eq_iff hashPair_def hash_node_def hashLeaf_def hash_leaf_def PAIR_CELL_DESCRIPTOR_def LEAF_CELL_DESCRIPTOR_def)

lemma steps_of_build [simp]: "steps_of (build_merkle_proof_cell p) = siblings p"
proof -
  have "steps_of (foldr (\<lambda>(is_left, sib) next. Some (MerkleStep is_left sib next)) ss None) = ss" for ss
    by (induction ss) auto
  then show ?thesis by (simp add: build_merkle_proof_cell_def)
qed

lemma fold_proof_steps:
  "fold_proof H depth acc pf =
     (if length (steps_of pf) = 0 \<or> depth + length (steps_of pf) \<le> MAX_MERKLE_PROOF_DEPTH
      then Inr (fold_siblings H acc (steps_of pf)) else Inl PROOF_TOO_DEEP)"
proof (induction H depth acc pf rule: fold_proof.induct)
  case (2 H depth acc dir sibling nx)
  then show ?case by (cases "steps_of nx") (auto simp: hash_defs)
qed simp

lemma computeRootFromProof_steps:
  "computeRootFromProof H lf pf =
     (if length (steps_of pf) \<le> MAX_MERKLE_PROOF_DEPTH then Inr (fold_siblings H (hash_leaf H lf) (steps_of pf)) else Inl PROOF_TOO_DEEP)"
  by (auto simp: computeRootFromProof_def fold_proof_steps hash_defs MAX_MERKLE_PROOF_DEPTH_def)

text \<open>The contract accepts the chain built from an off-chain proof exactly when the off-chain verifier does, up to the depth.\<close>

lemma onchain_verifier_agrees:
  "computeRootFromProof H (leaf p) (build_merkle_proof_cell p) = Inr r \<longleftrightarrow>
     length (siblings p) \<le> MAX_MERKLE_PROOF_DEPTH \<and> verify_inclusion H r p"
  by (simp add: computeRootFromProof_steps verify_inclusion_def)

section \<open>The contract\<close>

lemma save_anchor_Inr [simp]:
  "save_anchor s acts = Inr (s', acts') \<longleftrightarrow> fits_u32 (an_epoch s) \<and> fits_u32 (an_next_dispute s) \<and>
     fits_u32 (an_code_version s) \<and> fits_u32 (an_pending_at s) \<and> s' = s \<and> acts' = acts"
  by (auto simp: save_anchor_def)

lemmas anchor_handlers = anchor_recv_def anchor_submit_def anchor_open_dispute_def anchor_resolve_def

lemma anchor_bounced_Inr:
  assumes "anchor_bounced i body s = Inr (s', acts)"
  shows "acts = []" "\<exists>ds. s' = s\<lparr>an_disputes := ds\<rparr>"
proof -
  show "acts = []" using assms by (cases body) (auto simp: anchor_bounced_def split: option.splits)
  have "s' = s\<lparr>an_disputes := an_disputes s'\<rparr>" using assms by (cases body) (auto simp: anchor_bounced_def split: option.splits)
  then show "\<exists>ds. s' = s\<lparr>an_disputes := ds\<rparr>" by (rule exI)
qed

text \<open>The chain of roots: one for every epoch up to the current one, none of them zero.\<close>

definition roots_wf :: "anchor_storage \<Rightarrow> bool" where
  "roots_wf s \<longleftrightarrow> (\<forall>e. hget (an_roots s) e \<noteq> None \<longleftrightarrow> 1 \<le> e \<and> e \<le> an_epoch s) \<and>
     (\<forall>e r. hget (an_roots s) e = Some r \<longrightarrow> r \<noteq> NO_HASH) \<and>
     (if an_epoch s = 0 then an_last_root s = NO_HASH else hget (an_roots s) (an_epoch s) = Some (an_last_root s))"

lemma anchor_recv_roots:
  assumes "anchor_recv H i m s = Inr (s', acts)" "roots_wf s"
  shows "roots_wf s' \<and> an_config s' = an_config s \<and> an_epoch s \<le> an_epoch s' \<and>
     (\<forall>e. e \<le> an_epoch s \<longrightarrow> hget (an_roots s') e = hget (an_roots s) e)"
proof (cases m)
  case (AnchorSubmitRoot q ep r prev w)
  then have "s' = s\<lparr>an_epoch := an_epoch s + 1, an_last_root := r, an_roots := hput (an_epoch s + 1) r (an_roots s)\<rparr>" "r \<noteq> NO_HASH"
    using assms(1) by (auto simp: anchor_recv_def anchor_submit_def Let_def split: if_splits option.splits)
  with assms(2) show ?thesis by (auto simp: roots_wf_def update_conv' split: if_splits)
qed (use assms in \<open>auto simp: anchor_recv_def anchor_open_dispute_def anchor_resolve_def roots_wf_def Let_def
      split: if_splits option.splits sum.splits\<close>)

lemma anchor_step_roots:
  assumes "anchor_step H c c'" "roots_wf (ch_store c)"
  shows "roots_wf (ch_store c') \<and> an_config (ch_store c') = an_config (ch_store c) \<and> an_epoch (ch_store c) \<le> an_epoch (ch_store c') \<and>
     (\<forall>e. e \<le> an_epoch (ch_store c) \<longrightarrow> hget (an_roots (ch_store c')) e = hget (an_roots (ch_store c)) e)"
  using assms(1)
proof (cases rule: chain_step.cases)
  case (receive i gas fwd m s b out)
  from receive(3) obtain acts where "anchor_recv H i m (ch_store c) = Inr (s, acts)" by (rule run_tx_Some)
  from anchor_recv_roots [OF this assms(2)] receive(1) show ?thesis by simp
next
  case (bounce xs o1 ys i gas fwd s b out)
  from bounce(6) obtain acts where "anchor_bounced i (om_body o1) (ch_store c) = Inr (s, acts)" by (rule run_tx_Some)
  from anchor_bounced_Inr(2) [OF this] obtain ds where "s = ch_store c\<lparr>an_disputes := ds\<rparr>" by (rule exE)
  with bounce(1) assms(2) show ?thesis by (simp add: roots_wf_def)
qed (use assms(2) in simp_all)

lemma roots_reachable:
  assumes "(anchor_step H)\<^sup>*\<^sup>* c c'" "roots_wf (ch_store c)"
  shows "roots_wf (ch_store c') \<and> an_config (ch_store c') = an_config (ch_store c) \<and> an_epoch (ch_store c) \<le> an_epoch (ch_store c') \<and>
     (\<forall>e. e \<le> an_epoch (ch_store c) \<longrightarrow> hget (an_roots (ch_store c')) e = hget (an_roots (ch_store c)) e)"
  using assms
proof (induction rule: rtranclp_induct)
  case (step c1 c2)
  from step have w: "roots_wf (ch_store c1)" by simp
  from anchor_step_roots [OF step.hyps(2) w] step show ?case by auto
qed simp

text \<open>
  Of every dispute: while it is open no bond is on its way and none was paid; once it is decided at most one
  message carries the whole bond, to the challenger or to the treasury as decided.
\<close>

definition refunds :: "nat \<Rightarrow> anchor_body out_msg list \<Rightarrow> anchor_body out_msg list" where
  "refunds n out = filter (\<lambda>o1. om_body o1 = AnchorBondRefund n) out"

definition bond_ok :: "wallet_address \<Rightarrow> dispute_info option \<Rightarrow> anchor_body out_msg list \<Rightarrow> bool" where
  "bond_ok treasury dispute ms \<longleftrightarrow>
     (case dispute of
        None \<Rightarrow> ms = []
      | Some d \<Rightarrow> if di_status d = 0 then ms = []
          else length ms \<le> 1 \<and> (\<forall>o1\<in>set ms. om_value o1 = di_bond d \<and>
            om_dest o1 = (if di_status d = 1 then di_challenger d else treasury)))"

definition bonds_ok :: "(anchor_storage, anchor_body) chain \<Rightarrow> bool" where
  "bonds_ok c \<longleftrightarrow> (\<forall>n. bond_ok (aa_treasury (ac_auth (an_config (ch_store c)))) (hget (an_disputes (ch_store c)) n)
       (refunds n (ch_flight c @ ch_done c))) \<and>
     (\<forall>n. an_next_dispute (ch_store c) \<le> n \<longrightarrow> hget (an_disputes (ch_store c)) n = None)"

lemma bond_ok_open [simp]: "bond_ok t None ms \<longleftrightarrow> ms = []" "di_status d = 0 \<Longrightarrow> bond_ok t (Some d) ms \<longleftrightarrow> ms = []"
  by (simp_all add: bond_ok_def)

lemma bond_ok_fewer: "bond_ok t d (xs @ o1 # ys) \<Longrightarrow> bond_ok t d (xs @ ys)"
  by (cases d; cases "di_status (the d) = 0") (simp_all add: bond_ok_def)

lemma bond_ok_perm: "bond_ok t d (xs @ o1 # ys) \<Longrightarrow> bond_ok t d (xs @ ys @ [o1])"
  by (cases d; cases "di_status (the d) = 0") (simp_all add: bond_ok_def ball_Un)

lemma refunds_simps [simp]:
  "refunds n [] = []" "refunds n (xs @ ys) = refunds n xs @ refunds n ys"
  "refunds n (o1 # xs) = (if om_body o1 = AnchorBondRefund n then [o1] else []) @ refunds n xs"
  by (simp_all add: refunds_def)

text \<open>A message leaves the disputes alone, opens a new one, or decides an open one and sends its bond.\<close>

lemma anchor_recv_disputes:
  assumes "anchor_recv H i m s = Inr (s', acts)"
  shows "an_config s' = an_config s \<and>
     ((an_disputes s' = an_disputes s \<and> an_next_dispute s' = an_next_dispute s \<and> (\<forall>a\<in>set acts. \<exists>h. a = SetCode h)) \<or>
      (\<exists>d. an_disputes s' = hput (an_next_dispute s) d (an_disputes s) \<and> an_next_dispute s' = an_next_dispute s + 1 \<and> di_status d = 0 \<and> acts = []) \<or>
      (\<exists>n d up. hget (an_disputes s) n = Some d \<and> di_status d = 0 \<and> an_next_dispute s' = an_next_dispute s \<and>
         an_disputes s' = hput n (d\<lparr>di_status := if up then 1 else 2\<rparr>) (an_disputes s) \<and>
         acts = [refundBond (if up then di_challenger d else aa_treasury (ac_auth (an_config s))) (di_bond d) n]))"
proof (cases m)
  case (AnchorResolveDispute q n up)
  with assms show ?thesis
    by (auto simp: anchor_recv_def anchor_resolve_def Let_def split: if_splits option.splits)
next
  case (AnchorOpenDispute q ep lf pf)
  with assms show ?thesis by (auto simp: anchor_recv_def anchor_open_dispute_def Let_def split: if_splits option.splits sum.splits)
qed (use assms in \<open>auto simp: anchor_recv_def anchor_submit_def Let_def split: if_splits option.splits\<close>)

lemma do_actions_SetCode: "do_actions fwd inb bal acts = Some (out, b) \<Longrightarrow> \<forall>a\<in>set acts. \<exists>h. a = SetCode h \<Longrightarrow> out = []"
  by (induction fwd inb bal acts rule: do_actions.induct) auto

lemma bonds_ok_receive:
  assumes "bonds_ok c" "anchor_recv H i m (ch_store c) = Inr (s, acts)" "do_actions fwd inb bal acts = Some (out, b')"
  shows "bonds_ok (c\<lparr>ch_store := s, ch_balance := b, ch_flight := ch_flight c @ out, ch_fees := f\<rparr>)"
proof -
  let ?t = "aa_treasury (ac_auth (an_config (ch_store c)))"
  from assms(1) have ok: "bond_ok ?t (hget (an_disputes (ch_store c)) n) (refunds n (ch_flight c) @ refunds n (ch_done c))" for n
    by (simp add: bonds_ok_def)
  from assms(1) have fresh: "an_next_dispute (ch_store c) \<le> n \<Longrightarrow> hget (an_disputes (ch_store c)) n = None" for n by (simp add: bonds_ok_def)
  from anchor_recv_disputes [OF assms(2)] have cfg: "an_config s = an_config (ch_store c)" by simp
  from anchor_recv_disputes [OF assms(2)] consider
    (same) "an_disputes s = an_disputes (ch_store c)" "an_next_dispute s = an_next_dispute (ch_store c)" "\<forall>a\<in>set acts. \<exists>h. a = SetCode h"
  | (opened) d where "an_disputes s = hput (an_next_dispute (ch_store c)) d (an_disputes (ch_store c))"
      "an_next_dispute s = an_next_dispute (ch_store c) + 1" "di_status d = 0" "acts = []"
  | (decided) k d up where "hget (an_disputes (ch_store c)) k = Some d" "di_status d = 0" "an_next_dispute s = an_next_dispute (ch_store c)"
      "an_disputes s = hput k (d\<lparr>di_status := if up then 1 else 2\<rparr>) (an_disputes (ch_store c))"
      "acts = [refundBond (if up then di_challenger d else ?t) (di_bond d) k]" by blast
  then show ?thesis
  proof cases
    case same
    have "out = []" by (rule do_actions_SetCode [OF assms(3) same(3)])
    with same(1,2) ok fresh cfg show ?thesis by (simp add: bonds_ok_def)
  next
    case opened
    from assms(3) opened(4) have "out = []" by simp
    moreover have "refunds (an_next_dispute (ch_store c)) (ch_flight c) @ refunds (an_next_dispute (ch_store c)) (ch_done c) = []"
      using ok [of "an_next_dispute (ch_store c)"] fresh by simp
    ultimately show ?thesis using opened(1-3) ok fresh cfg by (simp add: bonds_ok_def update_conv')
  next
    case decided
    define o1 where "o1 = \<lparr>om_dest = if up then di_challenger d else ?t, om_value = di_bond d, om_bounce = True,
      om_body = AnchorBondRefund k\<rparr>"
    define d1 where "d1 = d\<lparr>di_status := if up then 1 else 2\<rparr>"
    have o: "out = [o1]" "om_body o1 = AnchorBondRefund k"
      using assms(3) unfolding decided(5) o1_def by (auto simp: refundBond_def split: if_splits)
    have e: "refunds k (ch_flight c) = []" "refunds k (ch_done c) = []" using ok [of k] decided(1,2) by simp_all
    have "bond_ok ?t (Some d1) [o1]" by (simp add: bond_ok_def o1_def d1_def)
    moreover have "k < an_next_dispute (ch_store c)" using fresh [of k] decided(1) by (cases "an_next_dispute (ch_store c) \<le> k") auto
    ultimately show ?thesis using decided(3,4) [folded d1_def] ok fresh cfg e o(2) unfolding o(1)
      by (simp add: bonds_ok_def update_conv')
  qed
qed

lemma bond_ok_removed: "bond_ok t d (refunds n (xs @ o1 # ys)) \<Longrightarrow> bond_ok t d (refunds n (xs @ ys))"
  using bond_ok_fewer [of t d "refunds n xs" o1 "refunds n ys"] by (simp split: if_splits)

lemma bond_ok_moved: "bond_ok t d (refunds n (xs @ o1 # ys)) \<Longrightarrow> bond_ok t d (refunds n (xs @ ys @ [o1]))"
  using bond_ok_perm [of t d "refunds n xs" o1 "refunds n ys"] by (simp split: if_splits)

lemma bonds_okD:
  assumes "bonds_ok c"
  shows "bond_ok (aa_treasury (ac_auth (an_config (ch_store c)))) (hget (an_disputes (ch_store c)) n) (refunds n (ch_flight c @ ch_done c))"
    "an_next_dispute (ch_store c) \<le> n \<Longrightarrow> hget (an_disputes (ch_store c)) n = None"
  using assms unfolding bonds_ok_def by blast+

lemma bonds_okI:
  assumes "\<And>n. bond_ok (aa_treasury (ac_auth (an_config (ch_store c)))) (hget (an_disputes (ch_store c)) n) (refunds n (ch_flight c @ ch_done c))"
    "\<And>n. an_next_dispute (ch_store c) \<le> n \<Longrightarrow> hget (an_disputes (ch_store c)) n = None"
  shows "bonds_ok c"
  using assms unfolding bonds_ok_def by blast

lemma bonds_ok_bounce:
  assumes "bonds_ok c" "ch_flight c = xs @ o1 # ys" "anchor_bounced i (om_body o1) (ch_store c) = Inr (s, acts)"
  shows "bonds_ok (c\<lparr>ch_store := s, ch_balance := b, ch_flight := xs @ ys, ch_fees := f\<rparr>)"
proof -
  let ?t = "aa_treasury (ac_auth (an_config (ch_store c)))"
  obtain n where n: "om_body o1 = AnchorBondRefund n" by (cases "om_body o1")
  have ok: "bond_ok ?t (hget (an_disputes (ch_store c)) k) (refunds k (xs @ o1 # ys @ ch_done c))" for k
    using bonds_okD(1) [OF assms(1), of k] unfolding assms(2) append_assoc append_Cons .
  have fewer: "bond_ok ?t (hget (an_disputes (ch_store c)) k) (refunds k xs @ refunds k ys @ refunds k (ch_done c))" for k
    using bond_ok_removed [OF ok [of k]] by simp
  show ?thesis
  proof (cases "hget (an_disputes (ch_store c)) n")
    case None
    with assms(3) n have "s = ch_store c" by (simp add: anchor_bounced_def)
    with fewer assms(1) show ?thesis by (simp add: bonds_ok_def)
  next
    case (Some d)
    with assms(3) n have s: "s = ch_store c\<lparr>an_disputes := hput n (d\<lparr>di_status := 0\<rparr>) (an_disputes (ch_store c))\<rparr>"
      by (simp add: anchor_bounced_def)
    have "length (refunds n (xs @ o1 # ys @ ch_done c)) \<le> 1"
      using ok [of n] Some n by (cases "di_status d = 0") (simp_all add: bond_ok_def)
    then have "refunds n xs = []" "refunds n ys = []" "refunds n (ch_done c) = []" by (simp_all add: n)
    moreover have "n < an_next_dispute (ch_store c)" using bonds_okD(2) [OF assms(1), of n] Some by (cases "an_next_dispute (ch_store c) \<le> n") auto
    ultimately show ?thesis using s fewer assms(1) by (simp add: bonds_ok_def update_conv')
  qed
qed

lemma bonds_ok_step:
  assumes "anchor_step H c c'" "bonds_ok c"
  shows "bonds_ok c'"
  using assms(1)
proof (cases rule: chain_step.cases)
  case (receive i gas fwd m s b out)
  from receive(3) obtain acts where "anchor_recv H i m (ch_store c) = Inr (s, acts)"
    "do_actions fwd (in_value i - gas) (ch_balance c + in_value i - gas) acts = Some (out, b)" by (rule run_tx_Some)
  then show ?thesis unfolding receive(1) by (rule bonds_ok_receive [OF assms(2)])
next
  case (refuse gas fwd i m kept)
  with assms(2) show ?thesis by (simp add: bonds_ok_def)
next
  case (deliver xs o1 ys)
  show ?thesis unfolding deliver(1)
    using bond_ok_moved [of _ _ _ xs o1 "ys @ ch_done c"] bonds_okD [OF assms(2)]
    by (intro bonds_okI) (simp_all add: deliver(2) del: refunds_simps)
next
  case (bounce xs o1 ys i gas fwd s b out)
  from bounce(6) obtain acts where a: "anchor_bounced i (om_body o1) (ch_store c) = Inr (s, acts)"
    "do_actions fwd (in_value i - gas) (ch_balance c + in_value i - gas) acts = Some (out, b)" by (rule run_tx_Some)
  have "out = []" using a anchor_bounced_Inr(1) [OF a(1)] by simp
  then show ?thesis unfolding bounce(1) using bonds_ok_bounce [OF assms(2) bounce(2) a(1)] by simp
next
  case (bounce_skipped xs o1 ys i gas fwd kept)
  show ?thesis unfolding bounce_skipped(1)
    using bond_ok_removed [of _ _ _ xs o1 "ys @ ch_done c"] bonds_okD [OF assms(2)]
    by (intro bonds_okI) (simp_all add: bounce_skipped(2) del: refunds_simps)
next
  case (rent r)
  with assms(2) show ?thesis by (simp add: bonds_ok_def)
qed

lemma bonds_ok_reachable: "(anchor_step H)\<^sup>*\<^sup>* c c' \<Longrightarrow> bonds_ok c \<Longrightarrow> bonds_ok c'"
  by (induction rule: rtranclp_induct) (auto intro: bonds_ok_step)

section \<open>Properties\<close>

text \<open>
  C26: The chain of roots is append-only: exactly the epochs up to the current one have a root, none of them zero,
  the last of them is the one the next submission must name, and no later message changes a root.
\<close>

theorem anchored_roots_immutable:
  assumes "(anchor_step H)\<^sup>*\<^sup>* c0 c" and "(anchor_step H)\<^sup>*\<^sup>* c c'" and "roots_wf (ch_store c0)"
  shows "(\<forall>e. hget (an_roots (ch_store c)) e \<noteq> None \<longleftrightarrow> 1 \<le> e \<and> e \<le> an_epoch (ch_store c)) \<and>
    (\<forall>e r. hget (an_roots (ch_store c)) e = Some r \<longrightarrow> r \<noteq> NO_HASH \<and> hget (an_roots (ch_store c')) e = Some r) \<and>
    (an_epoch (ch_store c) \<noteq> 0 \<longrightarrow> hget (an_roots (ch_store c)) (an_epoch (ch_store c)) = Some (an_last_root (ch_store c)))"
proof -
  from roots_reachable [OF assms(1,3)] have w: "roots_wf (ch_store c)" by simp
  from roots_reachable [OF assms(2) w] have k: "\<And>e. e \<le> an_epoch (ch_store c) \<Longrightarrow> hget (an_roots (ch_store c')) e = hget (an_roots (ch_store c)) e"
    by simp
  have le: "e \<le> an_epoch (ch_store c)" if "hget (an_roots (ch_store c)) e = Some r" for e r
    using w that unfolding roots_wf_def by (metis option.distinct(1))
  show ?thesis
  proof (intro conjI allI impI)
    fix e r assume "hget (an_roots (ch_store c)) e = Some r"
    with k [OF le [OF this]] w show "r \<noteq> NO_HASH" "hget (an_roots (ch_store c')) e = Some r" by (simp_all add: roots_wf_def)
  next
    fix e show "hget (an_roots (ch_store c)) e \<noteq> None \<longleftrightarrow> 1 \<le> e \<and> e \<le> an_epoch (ch_store c)" using w unfolding roots_wf_def by blast
  next
    assume "an_epoch (ch_store c) \<noteq> 0"
    with w show "hget (an_roots (ch_store c)) (an_epoch (ch_store c)) = Some (an_last_root (ch_store c))" by (simp add: roots_wf_def)
  qed
qed

text \<open>
  C11: The bond of a dispute is paid once. Whatever bounces and is decided again, at most one message with a
  dispute's bond is on its way or was delivered; it carries exactly the bond, to the challenger when the
  dispute was upheld and to the treasury when it was rejected; and while the dispute is open there is none.
\<close>

theorem bond_paid_once:
  assumes "(anchor_step H)\<^sup>*\<^sup>* c c'" and "bonds_ok c"
  shows "length (refunds n (ch_flight c' @ ch_done c')) \<le> 1 \<and>
    (\<forall>o1\<in>set (refunds n (ch_flight c' @ ch_done c')). \<exists>d. hget (an_disputes (ch_store c')) n = Some d \<and> di_status d \<noteq> 0 \<and>
       om_value o1 = di_bond d \<and>
       om_dest o1 = (if di_status d = 1 then di_challenger d else aa_treasury (ac_auth (an_config (ch_store c')))))"
  using bonds_okD(1) [OF bonds_ok_reachable [OF assms], of n]
  by (cases "hget (an_disputes (ch_store c')) n"; cases "di_status (the (hget (an_disputes (ch_store c')) n)) = 0")
    (simp_all add: bond_ok_def del: refunds_simps)

text \<open>
  C25: Only anchored records can be disputed: when the contract opens a dispute for the leaf of a record in an
  epoch whose root a node anchored for its records, that record is one of them. Digests are assumed to be
  collision free on the strings hashed.
\<close>

theorem disputed_record_is_anchored:
  assumes "anchor_recv H i (AnchorOpenDispute q ep (record_leaf B r) pf) s = Inr (s', acts)"
    and "t = fold (anchor_append B) rs []" and "rs \<noteq> []" and "hget (an_roots s) ep = Some (epoch_root H t)"
    and "\<forall>x. length (H x) = 32" and "wf_proof \<lparr>leaf = record_leaf B r, siblings = steps_of pf\<rparr>"
    and "inj_on H (proof_preimages H \<lparr>leaf = record_leaf B r, siblings = steps_of pf\<rparr> \<union> tree_preimages H (merkle_tree (map snd t)))"
    and "inj_on B (canonical_bytes ` insert r (set rs))" and "\<forall>x\<in>insert r (set rs). record_fits x"
  shows "r \<in> set rs"
proof -
  let ?p = "\<lparr>leaf = record_leaf B r, siblings = steps_of pf\<rparr>"
  have "computeRootFromProof H (record_leaf B r) pf = Inr (epoch_root H t)"
    using assms(1,4) by (auto simp: anchor_recv_def anchor_open_dispute_def split: if_splits sum.splits)
  then have v: "verify_inclusion H (epoch_root H t) ?p"
    by (auto simp: computeRootFromProof_steps verify_inclusion_def split: if_splits)
  have t: "map snd t = map (record_leaf B) rs"
  proof -
    have "fold (anchor_append B) rs u = u @ map (\<lambda>x. (rec_job_id x, record_leaf B x)) rs" for u
      by (induction rs arbitrary: u) (simp_all add: anchor_append_def)
    then show ?thesis by (simp add: assms(2) comp_def)
  qed
  have "leaf ?p \<in> set (map snd t)"
    using assms(3,5,6,7) v by (intro memory_anchor.accepted_is_anchored) (auto simp: t)
  then obtain x where x: "x \<in> set rs" "B (canonical_bytes r) = B (canonical_bytes x)" by (auto simp: t record_leaf_def)
  then have "canonical_bytes r = canonical_bytes x" using assms(8) by (auto dest: inj_onD)
  with x assms(9) canonical_bytes_inject show ?thesis by blast
qed


section \<open>Examples\<close>

definition dad :: "u8 \<Rightarrow> wallet_address" where
  "dad n = \<lparr>workchain = 0, account = [n]\<rparr>"

definition anchor_example :: anchor_storage where
  "anchor_example = \<lparr>an_epoch = 0, an_last_root = NO_HASH, an_next_dispute = 0, an_disputes = [], an_roots = [],
     an_config = \<lparr>ac_min_stake_weight = 10, ac_dispute_bond_min = 10000000, ac_verdict_authority = dad 2,
       ac_auth = \<lparr>aa_treasury = dad 3, aa_keeper = dad 4, aa_upgrade_authority = dad 5\<rparr>\<rparr>,
     an_code_version = 0, an_pending_hash = NO_HASH, an_pending_at = 0, an_upgrade_delay = 1000\<rparr>"

definition one_leaf :: hash32 where "one_leaf = replicate 32 1"
definition one_root :: hash32 where "one_root = hash_leaf toy_digest one_leaf"

definition anchored_example :: anchor_storage where
  "anchored_example = anchor_example\<lparr>an_epoch := 1, an_last_root := one_root, an_roots := [(1, one_root)]\<rparr>"

definition disputed_example :: anchor_storage where
  "disputed_example = anchored_example\<lparr>an_next_dispute := 1, an_disputes := [(0, \<lparr>di_challenger = dad 7, di_epoch = 1, di_leaf = one_leaf,
     di_bond = 10000000, di_status = 0\<rparr>)]\<rparr>"

definition msg_from :: "u8 \<Rightarrow> nat \<Rightarrow> in_message" where
  "msg_from n v = \<lparr>in_sender = dad n, in_value = v, in_now = 9\<rparr>"

definition anchor_chain :: "anchor_storage \<Rightarrow> nat \<Rightarrow> (anchor_storage, anchor_body) chain" where
  "anchor_chain s b = \<lparr>ch_store = s, ch_balance = b, ch_flight = [], ch_done = [], ch_fees = 0\<rparr>"

lemmas anchor_example_defs = anchor_example_def anchored_example_def disputed_example_def msg_from_def dad_def anchor_handlers
  validateAnchorConfig_def MIN_DISPUTE_BOND_FLOOR_def save_anchor_def fits_u32_def refundBond_def run_tx_def Let_def

lemma one_root_not_zero: "one_root \<noteq> NO_HASH"
  by (simp add: one_root_def hash_leaf_def one_leaf_def toy_digest_leaf NO_HASH_def Cons_replicate_eq)

lemma example_submit:
  "anchor_recv toy_digest (msg_from 4 0) (AnchorSubmitRoot 1 1 one_root NO_HASH 10) anchor_example = Inr (anchored_example, [])"
  using one_root_not_zero by (simp add: anchor_example_defs)

theorem anchored_roots_immutable_witness:
  "\<exists>c. (anchor_step toy_digest)\<^sup>*\<^sup>* (anchor_chain anchor_example 0) c \<and> roots_wf anchor_example \<and>
     hget (an_roots (ch_store c)) 1 = Some one_root \<and> one_root \<noteq> NO_HASH"
proof -
  let ?a = "anchor_chain anchor_example 0" and ?c = "anchor_chain anchored_example 0"
  have "run_tx 0 0 (in_value (msg_from 4 0)) (ch_balance ?a) (anchor_recv toy_digest (msg_from 4 0)
      (AnchorSubmitRoot 1 1 one_root NO_HASH 10) (ch_store ?a)) = Some (anchored_example, 0, [])"
    unfolding anchor_chain_def chain.select_convs example_submit by (simp add: run_tx_def msg_from_def)
  from chain_step.receive [where recv = "anchor_recv toy_digest" and bounced = anchor_bounced, OF _ this]
  have "anchor_step toy_digest ?a ?c" by (simp add: msg_from_def anchor_chain_def)
  then have r: "(anchor_step toy_digest)\<^sup>*\<^sup>* ?a ?c" by (rule r_into_rtranclp)
  have w: "roots_wf (ch_store ?a)" by (simp add: roots_wf_def anchor_chain_def anchor_example_def)
  from anchored_roots_immutable [OF rtranclp.rtrancl_refl r w] anchored_roots_immutable [OF r rtranclp.rtrancl_refl w] r w
  show ?thesis by (intro exI [of _ ?c]) (simp add: anchor_chain_def anchored_example_def)
qed

theorem bond_paid_once_witness:
  "\<exists>c o1. (anchor_step toy_digest)\<^sup>*\<^sup>* (anchor_chain disputed_example 10000000) c \<and> bonds_ok (anchor_chain disputed_example 10000000) \<and>
     refunds 0 (ch_flight c @ ch_done c) = [o1] \<and> om_dest o1 = dad 7 \<and> om_value o1 = 10000000"
proof -
  let ?a = "anchor_chain disputed_example 10000000"
  let ?s = "disputed_example\<lparr>an_disputes := [(0, \<lparr>di_challenger = dad 7, di_epoch = 1, di_leaf = one_leaf, di_bond = 10000000, di_status = 1\<rparr>)]\<rparr>"
  let ?o = "\<lparr>om_dest = dad 7, om_value = 10000000, om_bounce = True, om_body = AnchorBondRefund 0\<rparr>"
  let ?c = "?a\<lparr>ch_store := ?s, ch_balance := 0, ch_flight := [?o]\<rparr>"
  have "run_tx 0 0 (in_value (msg_from 2 0)) (ch_balance ?a) (anchor_recv toy_digest (msg_from 2 0)
      (AnchorResolveDispute 1 0 True) (ch_store ?a)) = Some (?s, 0, [?o])"
    by (simp add: anchor_example_defs anchor_chain_def)
  from chain_step.receive [where recv = "anchor_recv toy_digest" and bounced = anchor_bounced, OF _ this]
  have "anchor_step toy_digest ?a ?c" by (simp add: msg_from_def anchor_chain_def)
  then have r: "(anchor_step toy_digest)\<^sup>*\<^sup>* ?a ?c" by (rule r_into_rtranclp)
  have b: "bonds_ok ?a" by (intro bonds_okI) (simp_all add: anchor_chain_def disputed_example_def)
  from bond_paid_once [OF r b, of 0] r b show ?thesis by (intro exI [of _ ?c] exI [of _ ?o]) (simp add: anchor_chain_def)
qed

lemma one_leaf_tree: "try_merkle_root toy_digest [one_leaf] = Some one_root"
  by (simp add: try_merkle_root_def levels_def levels_from.simps one_root_def)


theorem disputed_record_is_anchored_witness:
  "\<exists>s s'. anchor_recv toy_digest (msg_from 7 10000000) (AnchorOpenDispute 1 1 (record_leaf toy_digest example_record) None) s = Inr (s', []) \<and>
     example_record \<in> set [example_record]"
proof -
  let ?t = "fold (anchor_append toy_digest) [example_record] []" and ?l = "record_leaf toy_digest example_record"
  let ?s = "anchored_example\<lparr>an_roots := [(1, epoch_root toy_digest ?t)]\<rparr>"
  let ?p = "\<lparr>leaf = ?l, siblings = steps_of None\<rparr>"
  have l: "length (toy_digest x) = 32" for x by (simp add: toy_digest_def)
  have t: "map snd ?t = [?l]" by (simp add: anchor_append_def)
  have e: "epoch_root toy_digest ?t = hash_leaf toy_digest ?l"
    unfolding epoch_root_def t merkle_root_def try_merkle_root_def levels_def by (simp add: levels_from.simps)
  obtain s' where r: "anchor_recv toy_digest (msg_from 7 10000000) (AnchorOpenDispute 1 1 ?l None) ?s = Inr (s', [])"
    unfolding e by (simp add: anchor_example_defs computeRootFromProof_def hash_defs)
  have "example_record \<in> set [example_record]"
  proof (rule disputed_record_is_anchored [OF r refl])
    show "hget (an_roots ?s) 1 = Some (epoch_root toy_digest ?t)" by simp
    show "inj_on toy_digest (proof_preimages toy_digest ?p \<union> tree_preimages toy_digest (merkle_tree (map snd ?t)))"
      unfolding t by (simp add: proof_preimages_def merkle_tree_def)
    show "wf_proof ?p" by (simp add: wf_proof_def record_leaf_def l)
    show "\<forall>x\<in>insert example_record (set [example_record]). record_fits x"
      by (simp add: record_fits_def example_record_def)
  qed (simp_all add: l)
  with r show ?thesis by blast
qed

section \<open>Where the code departs from its comments\<close>

text \<open>
  The whole value of a dispute message counts as bond, although its gas is paid out of it. Of two bonds of
  ten million units, one of gas each, only one can be refunded; the other refund fails for want of money.
\<close>

lemma bonds_underfunded:
  "\<exists>s1 s2 out. run_tx 1 0 10000000 0 (anchor_recv toy_digest (msg_from 7 10000000) (AnchorOpenDispute 1 1 one_leaf None) anchored_example) = Some (s1, 9999999, []) \<and>
     run_tx 1 0 10000000 9999999 (anchor_recv toy_digest (msg_from 8 10000000) (AnchorOpenDispute 1 1 one_leaf None) s1) = Some (s2, 19999998, []) \<and>
     run_tx 0 0 0 19999998 (anchor_recv toy_digest (msg_from 2 0) (AnchorResolveDispute 1 0 True) s2) = Some (s2\<lparr>an_disputes := out\<rparr>, 9999998,
       [\<lparr>om_dest = dad 7, om_value = 10000000, om_bounce = True, om_body = AnchorBondRefund 0\<rparr>]) \<and>
     run_tx 0 0 0 9999998 (anchor_recv toy_digest (msg_from 2 0) (AnchorResolveDispute 1 1 True) (s2\<lparr>an_disputes := out\<rparr>)) = None"
  by (simp add: anchor_example_defs computeRootFromProof_def hash_defs one_root_def)

text \<open>The node's tree is never cleared, so the root of an epoch is the root over the records of all epochs so far.\<close>

lemma epochs_accumulate: "ks_leaves (snd (submit_root H live send q ep w k)) = ks_leaves k"
  by (simp add: submit_root_def split: option.splits sum.splits)

end
