(* ===== verification/Escrow.thy ===== *)
theory Escrow
  imports Tvm
begin

text \<open>
  The escrow contract of a paid job, \<open>ton/contracts/JobEscrow.tolk\<close> with the types of
  \<open>escrow_types.tolk\<close>: settlement gated on the quorum's result hash and on the candidate set the requester
  committed to, refund after the deadline, and the ledger of bounced payouts. The hash of the candidate
  dictionary, a cell hash, is the argument \<open>commit\<close>.
\<close>

section \<open>Storage and messages\<close>

record onchain_terms =
  et_treasury :: wallet_address
  et_expected_hash :: hash32
  et_candidates_hash :: hash32
  et_params_version :: nat
  et_platform_fee_bps :: nat
  et_commission_bps :: nat

record escrow_storage =
  es_requester :: wallet_address
  es_arbiter :: wallet_address
  es_amount :: nat
  es_deadline :: nat
  es_settled :: bool
  es_terms :: onchain_terms
  es_pending :: ledger

text \<open>The two dictionaries of a settlement are lists of entries in key order, one for a key.\<close>

record settle_msg =
  sm_query_id :: nat
  sm_result_hash :: hash32
  sm_winner :: wallet_address
  sm_base :: nat
  sm_winner_amount :: nat
  sm_platform_fee :: nat
  sm_participants :: "(wallet_address, nat) hmap"
  sm_candidates :: "(wallet_address, bool) hmap"

text \<open>\<open>EscrowOther\<close> is a body with another opcode; the flag says whether it is empty.\<close>

datatype escrow_msg =
    EscrowSettle settle_msg
  | EscrowRefund nat
  | EscrowTopUp nat
  | EscrowClaim nat wallet_address
  | EscrowOther bool

datatype escrow_body = EscrowPayout nat

section \<open>Handlers\<close>

definition pay :: "wallet_address \<Rightarrow> nat \<Rightarrow> nat \<Rightarrow> escrow_body action" where
  "pay d a q = Send PayFees d a True (EscrowPayout q)"

definition refundRemaining :: "wallet_address \<Rightarrow> nat \<Rightarrow> escrow_body action" where
  "refundRemaining d q = Send CarryAllBalance d 0 True (EscrowPayout q)"

text \<open>The loop over the participants: count, membership, exact commission, and the sum.\<close>

fun sum_participants ::
    "(wallet_address, bool) hmap \<Rightarrow> nat \<Rightarrow> nat \<Rightarrow> nat \<Rightarrow> nat \<Rightarrow> (wallet_address \<times> nat) list \<Rightarrow> err_code + nat" where
  "sum_participants cands bps expected cnt acc [] = Inr acc"
| "sum_participants cands bps expected cnt acc ((who, amt) # ps) =
     (if MAX_SETTLE_PARTICIPANTS < cnt + 1 then Inl TOO_MANY_PARTICIPANTS
      else if \<not> hcontains cands who then Inl SETTLE_POLICY_MISMATCH
      else if 0 < bps \<and> amt \<noteq> expected then Inl COMMISSION_MISMATCH
      else sum_participants cands bps expected (cnt + 1) (acc + amt) ps)"

text \<open>The fixed legs of a settlement, in the order they are sent.\<close>

definition settle_legs :: "settle_msg \<Rightarrow> onchain_terms \<Rightarrow> (wallet_address \<times> nat) list" where
  "settle_legs m t =
     (if 0 < sm_winner_amount m then [(sm_winner m, sm_winner_amount m)] else []) @
     (if 0 < sm_platform_fee m then [(et_treasury t, sm_platform_fee m)] else []) @
     filter (\<lambda>(who, amt). 0 < amt) (sm_participants m)"

definition escrow_settle ::
    "((wallet_address, bool) hmap \<Rightarrow> hash32) \<Rightarrow> in_message \<Rightarrow> settle_msg \<Rightarrow> escrow_storage \<Rightarrow>
      err_code + escrow_storage \<times> escrow_body action list" where
  "escrow_settle commit i m s =
     (let t = es_terms s; expected = sm_base m * et_commission_bps t div BPS_DENOM in
      if in_sender i \<noteq> es_arbiter s then Inl NOT_ARBITER
      else if es_settled s then Inl ALREADY_SETTLED
      else if sm_result_hash m \<noteq> et_expected_hash t then Inl HASH_MISMATCH
      else if commit (sm_candidates m) \<noteq> et_candidates_hash t then Inl SETTLE_POLICY_MISMATCH
      else if sm_winner m = es_arbiter s then Inl NOT_OWNER_SIG
      else if \<not> hcontains (sm_candidates m) (sm_winner m) then Inl SETTLE_POLICY_MISMATCH
      else case sum_participants (sm_candidates m) (et_commission_bps t) expected 0 0 (sm_participants m) of
        Inl e \<Rightarrow> Inl e
      | Inr participants_total \<Rightarrow>
          if sm_base m < sm_winner_amount m then Inl PAYOUT_EXCEEDS_ESCROW
          else if es_amount s < sm_winner_amount m + sm_platform_fee m + participants_total then Inl PAYOUT_EXCEEDS_ESCROW
          else if sm_platform_fee m \<noteq> sm_base m * et_platform_fee_bps t div BPS_DENOM then Inl FEE_MISMATCH
          else Inr (s\<lparr>es_settled := True\<rparr>,
            Reserve MIN_TONS_FOR_STORAGE # map (\<lambda>(d, a). pay d a (sm_query_id m)) (settle_legs m t) @
            [refundRemaining (es_requester s) (sm_query_id m)]))"

definition escrow_recv ::
    "((wallet_address, bool) hmap \<Rightarrow> hash32) \<Rightarrow> in_message \<Rightarrow> escrow_msg \<Rightarrow> escrow_storage \<Rightarrow>
      err_code + escrow_storage \<times> escrow_body action list" where
  "escrow_recv commit i msg s =
     (case msg of
        EscrowSettle m \<Rightarrow> escrow_settle commit i m s
      | EscrowRefund q \<Rightarrow>
          if es_settled s then Inl ALREADY_SETTLED
          else if in_now i < es_deadline s then Inl TIMEOUT_NOT_REACHED
          else Inr (s\<lparr>es_settled := True\<rparr>, [Reserve MIN_TONS_FOR_STORAGE, refundRemaining (es_requester s) q])
      | EscrowClaim q recipient \<Rightarrow>
          (case hget (es_pending s) recipient of
             None \<Rightarrow> Inl PAYOUT_EXCEEDS_ESCROW
           | Some amt \<Rightarrow>
               if amt = 0 then Inl PAYOUT_EXCEEDS_ESCROW
               else Inr (s\<lparr>es_pending := hdel recipient (es_pending s)\<rparr>, [pay recipient amt q]))
      | EscrowTopUp q \<Rightarrow> Inr (s, [])
      | EscrowOther no_body \<Rightarrow> if no_body then Inr (s, []) else Inl INVALID_OP)"

definition escrow_bounced ::
    "in_message \<Rightarrow> escrow_body \<Rightarrow> escrow_storage \<Rightarrow> err_code + escrow_storage \<times> escrow_body action list" where
  "escrow_bounced i body s =
     (let had = owed (es_pending s) (in_sender i) in
      if \<not> fits_coins (had + in_value i) then Inl RANGE_CHECK
      else Inr (s\<lparr>es_pending := hput (in_sender i) (had + in_value i) (es_pending s)\<rparr>, []))"

definition get_pending :: "escrow_storage \<Rightarrow> wallet_address \<Rightarrow> nat" where
  "get_pending s recipient = owed (es_pending s) recipient"

abbreviation escrow_step ::
    "((wallet_address, bool) hmap \<Rightarrow> hash32) \<Rightarrow> (escrow_storage, escrow_body) chain \<Rightarrow> (escrow_storage, escrow_body) chain \<Rightarrow> bool" where
  "escrow_step commit \<equiv> chain_step (escrow_recv commit) escrow_bounced"

section \<open>What a settlement was checked for\<close>

lemma sum_participants_Inr:
  "sum_participants cands bps expected cnt acc ps = Inr tot \<Longrightarrow>
     tot = acc + sum_list (map snd ps) \<and> cnt + length ps \<le> max cnt MAX_SETTLE_PARTICIPANTS \<and>
     (\<forall>(who, amt)\<in>set ps. hcontains cands who \<and> (0 < bps \<longrightarrow> amt = expected))"
  by (induction cands bps expected cnt acc ps rule: sum_participants.induct) (auto split: if_splits)

text \<open>The demands of the terms on a settlement.\<close>

definition settle_allowed :: "((wallet_address, bool) hmap \<Rightarrow> hash32) \<Rightarrow> escrow_storage \<Rightarrow> settle_msg \<Rightarrow> bool" where
  "settle_allowed commit s m \<longleftrightarrow>
     sm_result_hash m = et_expected_hash (es_terms s) \<and> commit (sm_candidates m) = et_candidates_hash (es_terms s) \<and>
     sm_winner m \<noteq> es_arbiter s \<and> hcontains (sm_candidates m) (sm_winner m) \<and>
     (\<forall>(who, amt)\<in>set (sm_participants m). hcontains (sm_candidates m) who \<and>
        (0 < et_commission_bps (es_terms s) \<longrightarrow> amt = sm_base m * et_commission_bps (es_terms s) div BPS_DENOM)) \<and>
     length (sm_participants m) \<le> MAX_SETTLE_PARTICIPANTS \<and> sm_winner_amount m \<le> sm_base m \<and>
     sm_platform_fee m = sm_base m * et_platform_fee_bps (es_terms s) div BPS_DENOM \<and>
     sm_winner_amount m + sm_platform_fee m + sum_list (map snd (sm_participants m)) \<le> es_amount s"

lemma sum_participants_complete:
  assumes "cnt + length ps \<le> MAX_SETTLE_PARTICIPANTS"
    and "\<forall>(who, amt)\<in>set ps. hcontains cands who \<and> (0 < bps \<longrightarrow> amt = expected)"
  shows "sum_participants cands bps expected cnt acc ps = Inr (acc + sum_list (map snd ps))"
  using assms by (induction cands bps expected cnt acc ps rule: sum_participants.induct) auto

text \<open>The handler accepts exactly what the terms allow, from the arbiter, once.\<close>

lemma escrow_settle_Inr:
  "escrow_settle commit i m s = Inr (s', acts) \<longleftrightarrow>
     in_sender i = es_arbiter s \<and> \<not> es_settled s \<and> settle_allowed commit s m \<and> s' = s\<lparr>es_settled := True\<rparr> \<and>
     acts = Reserve MIN_TONS_FOR_STORAGE # map (\<lambda>(d, a). pay d a (sm_query_id m)) (settle_legs m (es_terms s)) @
       [refundRemaining (es_requester s) (sm_query_id m)]"
proof (cases "sum_participants (sm_candidates m) (et_commission_bps (es_terms s))
    (sm_base m * et_commission_bps (es_terms s) div BPS_DENOM) 0 0 (sm_participants m)")
  case (Inl e)
  have "\<not> settle_allowed commit s m"
  proof
    assume a: "settle_allowed commit s m"
    then have "sum_participants (sm_candidates m) (et_commission_bps (es_terms s))
      (sm_base m * et_commission_bps (es_terms s) div BPS_DENOM) 0 0 (sm_participants m) = Inr (0 + sum_list (map snd (sm_participants m)))"
      by (intro sum_participants_complete) (simp_all add: settle_allowed_def)
    with Inl show False by simp
  qed
  with Inl show ?thesis by (simp add: escrow_settle_def Let_def)
next
  case (Inr tot)
  from sum_participants_Inr [OF this] have t: "tot = sum_list (map snd (sm_participants m))"
    "length (sm_participants m) \<le> MAX_SETTLE_PARTICIPANTS"
    "\<forall>(who, amt)\<in>set (sm_participants m). hcontains (sm_candidates m) who \<and>
       (0 < et_commission_bps (es_terms s) \<longrightarrow> amt = sm_base m * et_commission_bps (es_terms s) div BPS_DENOM)" by simp_all
  show ?thesis
    unfolding escrow_settle_def Let_def Inr settle_allowed_def using t by (simp add: not_less not_le) blast
qed

lemma sum_settle_legs:
  "sum_list (map snd (settle_legs m t)) = sm_winner_amount m + sm_platform_fee m + sum_list (map snd (sm_participants m))"
proof -
  have "sum_list (map snd (filter (\<lambda>(who, amt). 0 < amt) ps)) = sum_list (map snd ps)" for ps :: "(wallet_address \<times> nat) list"
    by (induction ps) auto
  then show ?thesis by (simp add: settle_legs_def)
qed

lemma settle_legs_dest:
  assumes "settle_allowed commit s m" "(d, a) \<in> set (settle_legs m (es_terms s))"
  shows "d = et_treasury (es_terms s) \<or> hcontains (sm_candidates m) d"
  using assms by (auto simp: settle_legs_def settle_allowed_def split: if_splits)

section \<open>Accounts\<close>

definition recv_by :: "wallet_address \<Rightarrow> 'b out_msg list \<Rightarrow> nat" where
  "recv_by a out = sent (filter (\<lambda>o1. om_dest o1 = a) out)"

lemma recv_by_simps [simp]:
  "recv_by a [] = 0" "recv_by a (x # xs) = (if om_dest x = a then om_value x else 0) + recv_by a xs"
  "recv_by a (xs @ ys) = recv_by a xs + recv_by a ys"
  by (simp_all add: recv_by_def)

text \<open>All an address has received, is about to receive, or may still claim.\<close>

definition account_of :: "(escrow_storage, escrow_body) chain \<Rightarrow> wallet_address \<Rightarrow> nat" where
  "account_of c a = recv_by a (ch_flight c) + recv_by a (ch_done c) + owed (es_pending (ch_store c)) a"

definition due :: "(wallet_address \<times> nat) list \<Rightarrow> wallet_address \<Rightarrow> nat" where
  "due rel a = sum_list (map snd (filter (\<lambda>(d, v). d = a) rel))"

text \<open>
  What may ever be released: everything to the requester, or the legs of a settlement the terms allow
  and the rest to the requester.
\<close>

definition valid_release :: "((wallet_address, bool) hmap \<Rightarrow> hash32) \<Rightarrow> escrow_storage \<Rightarrow> (wallet_address \<times> nat) list \<Rightarrow> bool" where
  "valid_release commit s rel \<longleftrightarrow> (\<exists>x. rel = [(es_requester s, x)]) \<or>
     (\<exists>m x. settle_allowed commit s m \<and> rel = settle_legs m (es_terms s) @ [(es_requester s, x)])"

definition deployed :: "(escrow_storage, escrow_body) chain \<Rightarrow> bool" where
  "deployed c \<longleftrightarrow> \<not> es_settled (ch_store c) \<and> es_pending (ch_store c) = [] \<and> ch_flight c = [] \<and> ch_done c = [] \<and> ch_fees c = 0"

definition escrow_inv :: "((wallet_address, bool) hmap \<Rightarrow> hash32) \<Rightarrow> escrow_storage \<Rightarrow> (escrow_storage, escrow_body) chain \<Rightarrow> bool" where
  "escrow_inv commit s0 c \<longleftrightarrow> (\<exists>b p. ch_store c = s0\<lparr>es_settled := b, es_pending := p\<rparr> \<and> distinct (hkeys p) \<and>
     ledger_total p \<le> ch_balance c + ch_fees c \<and>
     (if b then \<exists>rel. valid_release commit s0 rel \<and> (\<forall>a. account_of c a \<le> due rel a) \<and>
        sum_list (map snd rel) \<le> sent (ch_flight c) + sent (ch_done c) + ledger_total p + ch_fees c
      else p = [] \<and> ch_flight c = [] \<and> ch_done c = []))"

lemma due_append: "due (xs @ ys) a = due xs a + due ys a"
  by (simp add: due_def)

text \<open>The messages of a release: the legs in full, the rest to the requester.\<close>

lemma release_actions:
  assumes "do_actions fwd inb bal (Reserve r # map (\<lambda>(d, a). pay d a q) legs @ [refundRemaining rq q]) = Some (out, b)"
  obtains x where "b = r" "\<And>a. recv_by a out = due (legs @ [(rq, x)]) a" "sent out = sum_list (map snd (legs @ [(rq, x)]))"
    "r + sum_list (map snd legs) + x + fwd * (length legs + 1) = bal" "length out = length legs + 1"
proof -
  have pe: "map (\<lambda>(d, a). pay d a q) legs = map (\<lambda>(d, v). Send PayFees d v True (EscrowPayout q)) legs" by (simp add: pay_def)
  from assms obtain b0 where r: "r \<le> bal" "b = b0 + r"
    "do_actions fwd inb (bal - r) (map (\<lambda>(d, v). Send PayFees d v True (EscrowPayout q)) legs @ [refundRemaining rq q]) = Some (out, b0)"
    unfolding pe by (auto split: if_splits)
  from do_actions_payouts [OF r(3)] obtain out' bal' where o:
    "out = map (\<lambda>(d, v). \<lparr>om_dest = d, om_value = v, om_bounce = True, om_body = EscrowPayout q\<rparr>) legs @ out'"
    "bal' + sum_list (map snd legs) + fwd * length legs = bal - r" "do_actions fwd inb bal' [refundRemaining rq q] = Some (out', b0)" by blast
  from o(3) have t: "fwd \<le> bal'" "b0 = 0" "out' = [\<lparr>om_dest = rq, om_value = bal' - fwd, om_bounce = True, om_body = EscrowPayout q\<rparr>]"
    by (auto simp: refundRemaining_def split: if_splits)
  have leg: "recv_by a (map (\<lambda>(d, v). \<lparr>om_dest = d, om_value = v, om_bounce = True, om_body = EscrowPayout q\<rparr>) ls) = due ls a"
    "sent (map (\<lambda>(d, v). \<lparr>om_dest = d, om_value = v, om_bounce = True, om_body = EscrowPayout q\<rparr>) ls) = sum_list (map snd ls)" for a ls
    by (induction ls) (auto simp: due_def)
  show thesis
  proof (rule that [of "bal' - fwd"])
    show "b = r" using r(2) t(2) by simp
    show "recv_by a out = due (legs @ [(rq, bal' - fwd)]) a" for a
      unfolding o(1) t(3) recv_by_simps leg due_append by (simp add: due_def)
    show "sent out = sum_list (map snd (legs @ [(rq, bal' - fwd)]))" unfolding o(1) t(3) by (simp add: leg)
    show "r + sum_list (map snd legs) + (bal' - fwd) + fwd * (length legs + 1) = bal" using o(2) t(1) r(1) by simp
    show "length out = length legs + 1" unfolding o(1) t(3) by simp
  qed
qed

lemma escrow_inv_release:
  assumes inv: "escrow_inv commit s0 c" "\<not> es_settled (ch_store c)"
    and tx: "do_actions fwd inb bal (Reserve r # map (\<lambda>(d, a). pay d a q) legs @ [refundRemaining (es_requester s0) q]) = Some (out, b)"
    and legs: "legs = [] \<or> (\<exists>m. settle_allowed commit s0 m \<and> legs = settle_legs m (es_terms s0))"
  shows "escrow_inv commit s0 (c\<lparr>ch_store := (ch_store c)\<lparr>es_settled := True\<rparr>, ch_balance := b, ch_flight := ch_flight c @ out, ch_fees := f\<rparr>)"
proof -
  from inv have st: "ch_store c = s0\<lparr>es_settled := False, es_pending := []\<rparr>" "ch_flight c = []" "ch_done c = []"
    by (auto simp: escrow_inv_def split: if_splits)
  obtain x where x: "\<And>a. recv_by a out = due (legs @ [(es_requester s0, x)]) a" "sent out = sum_list (map snd (legs @ [(es_requester s0, x)]))"
    by (rule release_actions [OF tx]) (rule that)
  have "valid_release commit s0 (legs @ [(es_requester s0, x)])" using legs by (auto simp: valid_release_def)
  then show ?thesis
    unfolding escrow_inv_def
    by (intro exI [of _ True] exI [of _ "[]"] conjI)
      (auto simp: st account_of_def x owed_def ledger_total_def intro!: exI [of _ "legs @ [(es_requester s0, x)]"])
qed

lemma escrow_recv_Inr:
  assumes "escrow_recv commit i msg s = Inr (s', acts)"
  shows "(\<exists>m. msg = EscrowSettle m \<and> \<not> es_settled s \<and> settle_allowed commit s m \<and> s' = s\<lparr>es_settled := True\<rparr> \<and>
       acts = Reserve MIN_TONS_FOR_STORAGE # map (\<lambda>(d, a). pay d a (sm_query_id m)) (settle_legs m (es_terms s)) @
         [refundRemaining (es_requester s) (sm_query_id m)]) \<or>
     (\<exists>q. msg = EscrowRefund q \<and> \<not> es_settled s \<and> es_deadline s \<le> in_now i \<and> s' = s\<lparr>es_settled := True\<rparr> \<and>
       acts = [Reserve MIN_TONS_FOR_STORAGE, refundRemaining (es_requester s) q]) \<or>
     (\<exists>q a v. msg = EscrowClaim q a \<and> hget (es_pending s) a = Some v \<and> s' = s\<lparr>es_pending := hdel a (es_pending s)\<rparr> \<and>
       acts = [pay a v q]) \<or>
     s' = s \<and> acts = []"
  using assms
  by (cases msg) (auto simp: escrow_recv_def escrow_settle_Inr split: if_splits option.splits)

lemma settle_allowed_cong:
  "settle_allowed commit (s\<lparr>es_settled := b, es_pending := p\<rparr>) m = settle_allowed commit s m"
  by (simp add: settle_allowed_def)

lemma account_of_update [simp]:
  "account_of (c\<lparr>ch_balance := b\<rparr>) a = account_of c a" "account_of (c\<lparr>ch_fees := f\<rparr>) a = account_of c a"
  by (simp_all add: account_of_def)

text \<open>Money moves within one account: from flight to done, from flight to the ledger, from the ledger to flight.\<close>

lemma escrow_inv_claim:
  assumes inv: "escrow_inv commit s0 c" and v: "hget (es_pending (ch_store c)) a = Some v"
    and tx: "do_actions fwd inb (ch_balance c + x - gas) [pay a v q] = Some (out, b)" "gas \<le> ch_balance c + x"
  shows "escrow_inv commit s0 (c\<lparr>ch_store := (ch_store c)\<lparr>es_pending := hdel a (es_pending (ch_store c))\<rparr>, ch_balance := b,
    ch_flight := ch_flight c @ out, ch_fees := ch_fees c + (ch_balance c + x - (b + sent out))\<rparr>)"
proof -
  from inv obtain st p where i: "ch_store c = s0\<lparr>es_settled := st, es_pending := p\<rparr>" "distinct (hkeys p)"
    "ledger_total p \<le> ch_balance c + ch_fees c"
    "if st then \<exists>rel. valid_release commit s0 rel \<and> (\<forall>a. account_of c a \<le> due rel a) \<and>
        sum_list (map snd rel) \<le> sent (ch_flight c) + sent (ch_done c) + ledger_total p + ch_fees c
      else p = [] \<and> ch_flight c = [] \<and> ch_done c = []" unfolding escrow_inv_def by blast
  with v have st: st "owed p a = v" by (auto simp: owed_def split: if_splits)
  then obtain rel where rel: "valid_release commit s0 rel" "\<And>a. account_of c a \<le> due rel a"
    "sum_list (map snd rel) \<le> sent (ch_flight c) + sent (ch_done c) + ledger_total p + ch_fees c" using i(4) by auto
  have out: "out = [\<lparr>om_dest = a, om_value = v, om_bounce = True, om_body = EscrowPayout q\<rparr>]" "b + v \<le> ch_balance c + x"
    using tx by (auto simp: pay_def split: if_splits)
  have lt: "ledger_total (hdel a p) + v = ledger_total p" using ledger_total_hdel [OF i(2), of a] st(2) by simp
  define c' where "c' = c\<lparr>ch_store := (ch_store c)\<lparr>es_pending := hdel a (es_pending (ch_store c))\<rparr>, ch_balance := b,
    ch_flight := ch_flight c @ out, ch_fees := ch_fees c + (ch_balance c + x - (b + sent out))\<rparr>"
  have "account_of c' z = account_of c z" for z
    by (simp add: c'_def account_of_def i(1) owed_hdel out(1) st(2))
  then have "\<forall>z. account_of c' z \<le> due rel z" using rel(2) by simp
  moreover have "ledger_total (hdel a p) \<le> ch_balance c' + ch_fees c'" using lt i(3) out by (simp add: c'_def)
  moreover have "sum_list (map snd rel) \<le> sent (ch_flight c') + sent (ch_done c') + ledger_total (hdel a p) + ch_fees c'"
    using rel(3) lt out by (simp add: c'_def)
  moreover have "ch_store c' = s0\<lparr>es_settled := True, es_pending := hdel a p\<rparr>" using st(1) by (simp add: c'_def i(1))
  moreover have "distinct (hkeys (hdel a p))" using i(2) by (rule distinct_delete)
  ultimately have "escrow_inv commit s0 c'" unfolding escrow_inv_def using rel(1)
    by (intro exI [of _ True] exI [of _ "hdel a p"] conjI) auto
  then show ?thesis by (simp add: c'_def)
qed

lemma escrow_inv_bounce:
  assumes inv: "escrow_inv commit s0 c" and fl: "ch_flight c = xs @ o1 # ys" and i: "in_sender i = om_dest o1" "in_value i \<le> om_value o1"
    and tx: "run_tx gas fwd (in_value i) (ch_balance c) (escrow_bounced i (om_body o1) (ch_store c)) = Some (s, b, out)"
  shows "escrow_inv commit s0 (c\<lparr>ch_store := s, ch_balance := b, ch_flight := xs @ ys @ out,
      ch_fees := ch_fees c + (om_value o1 - in_value i) + (ch_balance c + in_value i - (b + sent out))\<rparr>)"
proof -
  from inv obtain st p where j: "ch_store c = s0\<lparr>es_settled := st, es_pending := p\<rparr>" "distinct (hkeys p)"
    "ledger_total p \<le> ch_balance c + ch_fees c"
    "if st then \<exists>rel. valid_release commit s0 rel \<and> (\<forall>a. account_of c a \<le> due rel a) \<and>
        sum_list (map snd rel) \<le> sent (ch_flight c) + sent (ch_done c) + ledger_total p + ch_fees c
      else p = [] \<and> ch_flight c = [] \<and> ch_done c = []" unfolding escrow_inv_def by blast
  with fl have st: st by (auto split: if_splits)
  then obtain rel where rel: "valid_release commit s0 rel" "\<And>a. account_of c a \<le> due rel a"
    "sum_list (map snd rel) \<le> sent (ch_flight c) + sent (ch_done c) + ledger_total p + ch_fees c" using j(4) by auto
  let ?d = "om_dest o1" and ?v = "in_value i"
  let ?p = "hput ?d (owed p ?d + ?v) p"
  obtain acts where a: "escrow_bounced i (om_body o1) (ch_store c) = Inr (s, acts)" "gas \<le> ch_balance c + in_value i"
    "do_actions fwd (in_value i - gas) (ch_balance c + in_value i - gas) acts = Some (out, b)" by (rule run_tx_Some [OF tx])
  then have s: "s = s0\<lparr>es_settled := True, es_pending := ?p\<rparr>" "acts = []"
    using st by (auto simp: escrow_bounced_def Let_def j(1) i(1) split: if_splits)
  with a have out: "out = []" "b + gas = ch_balance c + in_value i" by auto
  have lt: "ledger_total ?p = ledger_total p + ?v" using ledger_total_hput [OF j(2), of ?d "owed p ?d + ?v"] by simp
  define c' where "c' = c\<lparr>ch_store := s, ch_balance := b, ch_flight := xs @ ys @ out,
      ch_fees := ch_fees c + (om_value o1 - in_value i) + (ch_balance c + in_value i - (b + sent out))\<rparr>"
  have "account_of c' z \<le> account_of c z" for z
    using i(2) by (simp add: c'_def account_of_def j(1) s(1) owed_hput out(1) fl)
  then have "\<forall>z. account_of c' z \<le> due rel z" using rel(2) le_trans by blast
  moreover have "ledger_total ?p \<le> ch_balance c' + ch_fees c'" using lt j(3) out by (simp add: c'_def)
  moreover have "sum_list (map snd rel) \<le> sent (ch_flight c') + sent (ch_done c') + ledger_total ?p + ch_fees c'"
    using rel(3) lt out i(2) by (simp add: c'_def fl)
  moreover have "ch_store c' = s0\<lparr>es_settled := True, es_pending := ?p\<rparr>" by (simp add: c'_def s)
  moreover have "distinct (hkeys ?p)" using j(2) by (rule distinct_update)
  ultimately have "escrow_inv commit s0 c'" unfolding escrow_inv_def using rel(1)
    by (intro exI [of _ True] exI [of _ "?p"] conjI) auto
  then show ?thesis by (simp add: c'_def)
qed

text \<open>Steps that leave the storage alone only add money, charge fees, or move a message.\<close>

lemma escrow_inv_quiet:
  assumes inv: "escrow_inv commit s0 c" and st: "ch_store c' = ch_store c"
    and b: "ch_balance c + ch_fees c \<le> ch_balance c' + ch_fees c'" and fees: "ch_fees c \<le> ch_fees c'"
    and acc: "\<And>a. account_of c' a \<le> account_of c a"
    and snt: "sent (ch_flight c) + sent (ch_done c) + ch_fees c \<le> sent (ch_flight c') + sent (ch_done c') + ch_fees c'"
    and fl: "ch_flight c = [] \<and> ch_done c = [] \<Longrightarrow> ch_flight c' = [] \<and> ch_done c' = []"
  shows "escrow_inv commit s0 c'"
proof -
  from inv obtain s p where i: "ch_store c = s0\<lparr>es_settled := s, es_pending := p\<rparr>" "distinct (hkeys p)"
    "ledger_total p \<le> ch_balance c + ch_fees c"
    "if s then \<exists>rel. valid_release commit s0 rel \<and> (\<forall>a. account_of c a \<le> due rel a) \<and>
        sum_list (map snd rel) \<le> sent (ch_flight c) + sent (ch_done c) + ledger_total p + ch_fees c
      else p = [] \<and> ch_flight c = [] \<and> ch_done c = []" unfolding escrow_inv_def by blast
  show ?thesis
  proof (cases s)
    case True
    with i(4) obtain rel where "valid_release commit s0 rel" "\<And>a. account_of c a \<le> due rel a"
      "sum_list (map snd rel) \<le> sent (ch_flight c) + sent (ch_done c) + ledger_total p + ch_fees c" by auto
    moreover have "account_of c' a \<le> due rel a" for a using acc [of a] calculation(2) [of a] by simp
    moreover have "sum_list (map snd rel) \<le> sent (ch_flight c') + sent (ch_done c') + ledger_total p + ch_fees c'"
      using snt calculation(3) by simp
    ultimately show ?thesis unfolding escrow_inv_def
      using i(1,2,3) b True st by (intro exI [of _ True] exI [of _ p] conjI) auto
  next
    case False
    with i fl show ?thesis unfolding escrow_inv_def
      using b st by (intro exI [of _ False] exI [of _ p] conjI) auto
  qed
qed

lemma escrow_inv_receive:
  assumes inv: "escrow_inv commit s0 c"
    and tx: "run_tx gas fwd (in_value i) (ch_balance c) (escrow_recv commit i m (ch_store c)) = Some (s, b, out)"
  shows "escrow_inv commit s0 (c\<lparr>ch_store := s, ch_balance := b, ch_flight := ch_flight c @ out,
      ch_fees := ch_fees c + (ch_balance c + in_value i - (b + sent out))\<rparr>)"
proof -
  obtain acts where a: "escrow_recv commit i m (ch_store c) = Inr (s, acts)" "gas \<le> ch_balance c + in_value i"
    "do_actions fwd (in_value i - gas) (ch_balance c + in_value i - gas) acts = Some (out, b)" by (rule run_tx_Some [OF tx])
  obtain st p where i: "ch_store c = s0\<lparr>es_settled := st, es_pending := p\<rparr>" using inv unfolding escrow_inv_def by blast
  have rq: "es_requester (ch_store c) = es_requester s0" "es_terms (ch_store c) = es_terms s0"
    "settle_allowed commit (ch_store c) x = settle_allowed commit s0 x" for x
    by (simp_all add: i settle_allowed_cong)
  from escrow_recv_Inr [OF a(1)] show ?thesis
  proof (elim disjE exE conjE, goal_cases)
    case (1 x)
    with a(3) show ?thesis using escrow_inv_release [OF inv, where legs = "settle_legs x (es_terms s0)"] by (simp add: rq del: do_actions.simps) blast
  next
    case (2 q)
    with a(3) show ?thesis using escrow_inv_release [OF inv, where legs = "[]"] by (simp add: rq del: do_actions.simps)
  next
    case (3 q r v)
    with a(2,3) show ?thesis using escrow_inv_claim [OF inv] by (simp del: do_actions.simps)
  next
    case 4
    with a(2,3) have "out = []" "b + gas = ch_balance c + in_value i" by auto
    with 4 show ?thesis by (intro escrow_inv_quiet [OF inv]) (auto simp: account_of_def)
  qed
qed

lemma escrow_inv_step: "escrow_step commit c c' \<Longrightarrow> escrow_inv commit s0 c \<Longrightarrow> escrow_inv commit s0 c'"
proof (induction rule: chain_step.induct)
  case (receive gas fwd i c m s b out)
  then show ?case by (intro escrow_inv_receive)
next
  case (bounce c xs o1 ys i gas fwd s b out)
  then show ?case by (intro escrow_inv_bounce)
next
  case (bounce_skipped c xs o1 ys i gas fwd kept)
  then show ?case by (intro escrow_inv_quiet [OF bounce_skipped(7)]) (auto simp: account_of_def)
next
  case (deliver c xs o1 ys)
  then show ?case by (intro escrow_inv_quiet [OF deliver(2)]) (auto simp: account_of_def)
qed (erule escrow_inv_quiet, auto simp: account_of_def)+

lemma escrow_inv_deployed: "deployed c \<Longrightarrow> escrow_inv commit (ch_store c) c"
  unfolding escrow_inv_def deployed_def
  by (intro exI [of _ False] exI [of _ "[]"]) (auto simp: ledger_total_def)

lemma escrow_inv_reachable: "(escrow_step commit)\<^sup>*\<^sup>* c0 c \<Longrightarrow> deployed c0 \<Longrightarrow> escrow_inv commit (ch_store c0) c"
  by (induction rule: rtranclp_induct) (auto intro: escrow_inv_deployed escrow_inv_step)

section \<open>Properties\<close>

text \<open>
  C6: An escrow pays each party what it is due, once. In every run after deployment, whatever messages
  arrive from whomever and however many payouts bounce and are claimed again: what an address has
  received, is being sent or can still claim never exceeds its share of one release, and that release
  is the whole escrow to the requester, or the legs of one settlement the terms allow with the rest
  to the requester. Nothing of the release is lost except to fees, and the ledger of bounced
  payouts is covered by the balance up to the fees charged.
\<close>

theorem escrow_pays_once:
  assumes "(escrow_step commit)\<^sup>*\<^sup>* c0 c" "deployed c0"
  shows "(\<exists>rel. (rel = [] \<or> valid_release commit (ch_store c0) rel) \<and> (\<forall>a. account_of c a \<le> due rel a) \<and>
      sum_list (map snd rel) \<le> sent (ch_flight c) + sent (ch_done c) + ledger_total (es_pending (ch_store c)) + ch_fees c) \<and>
    ledger_total (es_pending (ch_store c)) \<le> ch_balance c + ch_fees c"
proof -
  from escrow_inv_reachable [OF assms] obtain st p where i: "ch_store c = (ch_store c0)\<lparr>es_settled := st, es_pending := p\<rparr>"
    "ledger_total p \<le> ch_balance c + ch_fees c"
    "if st then \<exists>rel. valid_release commit (ch_store c0) rel \<and> (\<forall>a. account_of c a \<le> due rel a) \<and>
        sum_list (map snd rel) \<le> sent (ch_flight c) + sent (ch_done c) + ledger_total p + ch_fees c
      else p = [] \<and> ch_flight c = [] \<and> ch_done c = []" unfolding escrow_inv_def by blast
  have "\<exists>rel. (rel = [] \<or> valid_release commit (ch_store c0) rel) \<and> (\<forall>a. account_of c a \<le> due rel a) \<and>
      sum_list (map snd rel) \<le> sent (ch_flight c) + sent (ch_done c) + ledger_total p + ch_fees c"
  proof (cases st)
    case True
    with i(3) show ?thesis by auto
  next
    case False
    with i show ?thesis by (intro exI [of _ "[]"]) (simp add: account_of_def owed_def)
  qed
  with i show ?thesis by simp
qed


text \<open>A settlement that succeeds: price 10000 with a fee of two and a commission of five percent, one verifier.\<close>

definition wal :: "u8 \<Rightarrow> wallet_address" where
  "wal n = \<lparr>workchain = 0, account = [n]\<rparr>"

definition escrow_example :: escrow_storage where
  "escrow_example = \<lparr>es_requester = wal 1, es_arbiter = wal 2, es_amount = 20000, es_deadline = 50, es_settled = False,
     es_terms = \<lparr>et_treasury = wal 3, et_expected_hash = [7], et_candidates_hash = [], et_params_version = 1,
       et_platform_fee_bps = 200, et_commission_bps = 500\<rparr>, es_pending = []\<rparr>"

definition settle_example :: settle_msg where
  "settle_example = \<lparr>sm_query_id = 1, sm_result_hash = [7], sm_winner = wal 4, sm_base = 10000, sm_winner_amount = 10000,
     sm_platform_fee = 200, sm_participants = [(wal 5, 500)], sm_candidates = [(wal 4, True), (wal 5, True)]\<rparr>"

definition escrow_chain_example :: "(escrow_storage, escrow_body) chain" where
  "escrow_chain_example = \<lparr>ch_store = escrow_example, ch_balance = 50020000, ch_flight = [], ch_done = [], ch_fees = 0\<rparr>"

lemma example_settles:
  "run_tx 0 0 0 50020000 (escrow_recv (\<lambda>_. []) \<lparr>in_sender = wal 2, in_value = 0, in_now = 9\<rparr> (EscrowSettle settle_example) escrow_example) =
     Some (escrow_example\<lparr>es_settled := True\<rparr>, MIN_TONS_FOR_STORAGE,
       map (\<lambda>(d, v). \<lparr>om_dest = d, om_value = v, om_bounce = True, om_body = EscrowPayout 1\<rparr>)
         [(wal 4, 10000), (wal 3, 200), (wal 5, 500), (wal 1, 9300)])"
  by (simp add: run_tx_def escrow_recv_def escrow_settle_def escrow_example_def settle_example_def wal_def hcontains_def
      MAX_SETTLE_PARTICIPANTS_def MIN_TONS_FOR_STORAGE_def BPS_DENOM_def settle_legs_def pay_def refundRemaining_def)

theorem escrow_pays_once_witness:
  "\<exists>c. (escrow_step (\<lambda>_. []))\<^sup>*\<^sup>* escrow_chain_example c \<and> deployed escrow_chain_example \<and> es_settled (ch_store c) \<and>
     account_of c (wal 4) = 10000 \<and> ledger_total (es_pending (ch_store c)) \<le> ch_balance c + ch_fees c"
proof -
  let ?i = "\<lparr>in_sender = wal 2, in_value = 0, in_now = 9\<rparr>"
  let ?out = "map (\<lambda>(d, v). \<lparr>om_dest = d, om_value = v, om_bounce = True, om_body = EscrowPayout 1\<rparr>)
         [(wal 4, 10000), (wal 3, 200), (wal 5, 500), (wal 1, 9300)]"
  let ?c = "escrow_chain_example\<lparr>ch_store := escrow_example\<lparr>es_settled := True\<rparr>, ch_balance := MIN_TONS_FOR_STORAGE,
    ch_flight := ch_flight escrow_chain_example @ ?out,
    ch_fees := ch_fees escrow_chain_example + (ch_balance escrow_chain_example + in_value ?i - (MIN_TONS_FOR_STORAGE + sent ?out))\<rparr>"
  have "run_tx 0 0 (in_value ?i) (ch_balance escrow_chain_example) (escrow_recv (\<lambda>_. []) ?i (EscrowSettle settle_example) (ch_store escrow_chain_example)) =
      Some (escrow_example\<lparr>es_settled := True\<rparr>, MIN_TONS_FOR_STORAGE, ?out)"
    using example_settles by (simp add: escrow_chain_example_def)
  then have "escrow_step (\<lambda>_. []) escrow_chain_example ?c" by (rule chain_step.receive [rotated]) simp
  then have r: "(escrow_step (\<lambda>_. []))\<^sup>*\<^sup>* escrow_chain_example ?c" by (rule r_into_rtranclp)
  have d: "deployed escrow_chain_example" by (simp add: deployed_def escrow_chain_example_def escrow_example_def)
  have "account_of ?c (wal 4) = 10000"
    by (simp add: account_of_def escrow_chain_example_def escrow_example_def owed_def wal_def)
  with r d escrow_pays_once [OF r d] show ?thesis by (intro exI [of _ ?c] conjI) simp_all
qed


end
