(* ===== verification/Bridge.thy ===== *)
theory Bridge
  imports Escrow Payment
begin

text \<open>
  The money rail on TON: \<open>TonSettlement\<close> of \<open>crates/settlement/src/ton.rs\<close>, between the coordinator's payment
  code and the escrow contract. A cell that encodes a storage or a message stands for the record it encodes;
  the address of a state init and the hash of the candidate dictionary are arguments, and so is the chain
  behind \<open>TonRpc\<close>. At the end the transport is the chain itself with the escrow contract on it.
\<close>

section \<open>Messages\<close>

text \<open>Dictionary entries, in order of insertion, one for a key.\<close>

definition candidates_dict_entries :: "wallet_address list \<Rightarrow> (wallet_address, bool) hmap" where
  "candidates_dict_entries cs = map (\<lambda>w. (w, True)) (fold (\<lambda>c seen. if c \<in> set seen then seen else seen @ [c]) cs [])"

definition candidates_commitment :: "((wallet_address, bool) hmap \<Rightarrow> hash32) \<Rightarrow> wallet_address list \<Rightarrow> hash32" where
  "candidates_commitment commit cs = commit (candidates_dict_entries cs)"

fun merge_payouts :: "(wallet_address, nat) hmap \<Rightarrow> payout list \<Rightarrow> (wallet_address, nat) hmap" where
  "merge_payouts merged [] = merged"
| "merge_payouts merged (p # ps) =
     (if amount p = 0 then merge_payouts merged ps
      else (case hget merged (to p) of
          Some amt \<Rightarrow> merge_payouts (hput (to p) (sat_add u128_max amt (amount p)) merged) ps
        | None \<Rightarrow> merge_payouts (merged @ [(to p, amount p)]) ps))"

definition participants_dict_entries :: "payout list \<Rightarrow> (wallet_address, nat) hmap" where
  "participants_dict_entries ps = merge_payouts [] ps"

definition build_escrow_settle ::
    "nat \<Rightarrow> hash32 \<Rightarrow> wallet_address \<Rightarrow> amount \<Rightarrow> amount \<Rightarrow> amount \<Rightarrow> payout list \<Rightarrow> wallet_address list \<Rightarrow> escrow_msg" where
  "build_escrow_settle q rh w bs wa fee ps cs = EscrowSettle
     \<lparr>sm_query_id = q, sm_result_hash = rh, sm_winner = w, sm_base = bs, sm_winner_amount = wa, sm_platform_fee = fee,
      sm_participants = participants_dict_entries ps, sm_candidates = candidates_dict_entries cs\<rparr>"

definition build_escrow_terms :: "wallet_address \<Rightarrow> hash32 \<Rightarrow> hash32 \<Rightarrow> nat \<Rightarrow> nat \<Rightarrow> nat \<Rightarrow> onchain_terms" where
  "build_escrow_terms treasury eh ch version fee_bps comm_bps =
     \<lparr>et_treasury = treasury, et_expected_hash = eh, et_candidates_hash = ch, et_params_version = version,
      et_platform_fee_bps = fee_bps, et_commission_bps = comm_bps\<rparr>"

definition build_escrow_data :: "wallet_address \<Rightarrow> wallet_address \<Rightarrow> amount \<Rightarrow> nat \<Rightarrow> onchain_terms \<Rightarrow> escrow_storage" where
  "build_escrow_data rq arb amt deadline t =
     \<lparr>es_requester = rq, es_arbiter = arb, es_amount = amt, es_deadline = deadline, es_settled = False, es_terms = t, es_pending = []\<rparr>"

section \<open>The rail\<close>

record ton_settlement =
  ts_escrow_code :: "hash32 option"
  ts_terms :: onchain_terms
  ts_arbiter :: wallet_address
  ts_requester :: "wallet_address option"
  ts_treasury :: "wallet_address option"
  ts_escrow_window_secs :: nat
  ts_deploy_gas_buffer :: amount
  ts_settle_gas :: amount
  ts_candidates :: "wallet_address list"
  ts_platform_fee_bps :: nat
  ts_commission_bps :: nat

text \<open>\<open>TonRpc\<close> and the clock, as far as the rail uses them; waiting may change the state of the chain.\<close>

record 'c ton_rpc =
  rpc_now :: "'c \<Rightarrow> nat"
  rpc_last_tx_lt :: "wallet_address \<Rightarrow> 'c \<Rightarrow> settle_error + nat"
  rpc_deploy :: "wallet_address \<Rightarrow> amount \<Rightarrow> escrow_storage \<Rightarrow> escrow_msg \<Rightarrow> 'c \<Rightarrow> (settle_error + unit) \<times> 'c"
  rpc_send_internal :: "wallet_address \<Rightarrow> amount \<Rightarrow> escrow_msg \<Rightarrow> 'c \<Rightarrow> (settle_error + unit) \<times> 'c"
  rpc_await_confirmation :: "wallet_address \<Rightarrow> nat \<Rightarrow> 'c \<Rightarrow> (settle_error + unit) \<times> 'c"

text \<open>What the address and the commitment are computed with, and the raw form of an address in an error.\<close>

record cell_env =
  ce_address_of :: "hash32 \<Rightarrow> escrow_storage \<Rightarrow> wallet_address"
  ce_commit :: "(wallet_address, bool) hmap \<Rightarrow> hash32"
  ce_raw :: "wallet_address \<Rightarrow> string"

text \<open>Note the last transaction, act, and wait for a newer one; the state holds the next query id and the chain.\<close>

definition confirmed ::
    "'c ton_rpc \<Rightarrow> wallet_address \<Rightarrow> ('c \<Rightarrow> (settle_error + unit) \<times> 'c) \<Rightarrow> 'c \<Rightarrow> (settle_error + unit) \<times> 'c" where
  "confirmed rpc a send c =
     (case rpc_last_tx_lt rpc a c of
        Inl e \<Rightarrow> (Inl e, c)
      | Inr before \<Rightarrow> (case send c of
            (Inl e, c1) \<Rightarrow> (Inl e, c1)
          | (Inr _, c1) \<Rightarrow> rpc_await_confirmation rpc a before c1))"

text \<open>The treasury bound into the terms: the chain's, which a local one must agree with.\<close>

definition bound_treasury :: "cell_env \<Rightarrow> ton_settlement \<Rightarrow> wallet_address option \<Rightarrow> nat \<Rightarrow> nat \<Rightarrow> settle_error + wallet_address" where
  "bound_treasury ce ts chain fee_bps version =
     (case chain of
        Some ch \<Rightarrow>
          (case ts_treasury ts of
             Some local \<Rightarrow> if local \<noteq> ch then Inl (TreasuryMismatch (ce_raw ce local) (ce_raw ce ch) version) else Inr ch
           | None \<Rightarrow> Inr ch)
      | None \<Rightarrow>
          (case ts_treasury ts of
             Some t \<Rightarrow> Inr t
           | None \<Rightarrow> if fee_bps = 0 then Inr (ts_arbiter ts)
               else Inl (SettleBackend (''cannot open escrow: platform fee is non-zero but no fee recipient is '' @
                 ''known (no GlobalParams source wired AND no local treasury configured). '' @
                 ''Wire a params source or configure the treasury so the fee is not '' @
                 ''misdirected to the arbiter/coordinator wallet.''))))"

text \<open>Deploy an escrow with the given terms and wait until it is there.\<close>

definition deploy_escrow ::
    "cell_env \<Rightarrow> ton_settlement \<Rightarrow> 'c ton_rpc \<Rightarrow> hash32 \<Rightarrow> wallet_address \<Rightarrow> string \<Rightarrow> amount \<Rightarrow> onchain_terms \<Rightarrow>
      (nat \<times> 'c) \<Rightarrow> (settle_error + escrow_handle) \<times> nat \<times> 'c" where
  "deploy_escrow ce ts rpc code rq j bid t st =
     (let (q, c) = st;
          deadline = sat_add (2 ^ 32 - 1) (rpc_now rpc c) (ts_escrow_window_secs ts);
          data = build_escrow_data rq (ts_arbiter ts) bid deadline t;
          a = ce_address_of ce code data
      in case confirmed rpc a (rpc_deploy rpc a (sat_add u128_max bid (ts_deploy_gas_buffer ts)) data (EscrowTopUp q)) c of
           (Inl e, c1) \<Rightarrow> (Inl e, q + 1, c1)
         | (Inr _, c1) \<Rightarrow> (Inr \<lparr>job = j, address = a, max_bid = bid\<rparr>, q + 1, c1))"

definition with_wiring ::
    "ton_settlement \<Rightarrow> (nat \<times> 'c) \<Rightarrow> (hash32 \<Rightarrow> wallet_address \<Rightarrow> (settle_error + escrow_handle) \<times> nat \<times> 'c) \<Rightarrow>
      (settle_error + escrow_handle) \<times> nat \<times> 'c" where
  "with_wiring ts st k =
     (case ts_escrow_code ts of
        None \<Rightarrow> (Inl (SettleBackend ''open_escrow requires escrow code wiring''), st)
      | Some code \<Rightarrow>
          (case ts_requester ts of
             None \<Rightarrow> (Inl (SettleBackend ''open_escrow requires a requester wallet''), st)
           | Some rq \<Rightarrow> k code rq))"

definition ton_open_escrow ::
    "cell_env \<Rightarrow> ton_settlement \<Rightarrow> 'c ton_rpc \<Rightarrow> string \<Rightarrow> amount \<Rightarrow> (nat \<times> 'c, escrow_handle) act" where
  "ton_open_escrow ce ts rpc j bid st = Some (with_wiring ts st (\<lambda>code rq. deploy_escrow ce ts rpc code rq j bid (ts_terms ts) st))"

definition ton_open_escrow_with_terms ::
    "cell_env \<Rightarrow> ton_settlement \<Rightarrow> 'c ton_rpc \<Rightarrow> string \<Rightarrow> amount \<Rightarrow> escrow_terms \<Rightarrow> (nat \<times> 'c, escrow_handle) act" where
  "ton_open_escrow_with_terms ce ts rpc j bid tm st = Some (with_wiring ts st (\<lambda>code rq.
     let fee_bps = (case platform_fee_bps tm of Some b \<Rightarrow> b | None \<Rightarrow> ts_platform_fee_bps ts);
         comm_bps = (case participation_commission_bps tm of Some b \<Rightarrow> b | None \<Rightarrow> ts_commission_bps ts)
     in case bound_treasury ce ts (fee_recipient tm) fee_bps (params_version tm) of
          Inl e \<Rightarrow> (Inl e, st)
        | Inr treasury \<Rightarrow>
            let cs = (if candidates tm = [] then ts_candidates ts else candidates tm)
            in deploy_escrow ce ts rpc code rq j bid (build_escrow_terms treasury (expected_hash tm)
                 (candidates_commitment (ce_commit ce) cs) (params_version tm) fee_bps comm_bps) st))"

text \<open>The candidates a settlement presents when none were bound: the payees of the outcome.\<close>

definition settle_candidates :: "ton_settlement \<Rightarrow> settlement_outcome \<Rightarrow> wallet_address list" where
  "settle_candidates ts oc =
     (if ts_candidates ts = []
      then fold (\<lambda>p c. if to p \<in> set c then c else c @ [to p]) (participants oc) [to (winner oc)]
      else ts_candidates ts)"

definition ton_settle :: "ton_settlement \<Rightarrow> 'c ton_rpc \<Rightarrow> escrow_handle \<Rightarrow> settlement_outcome \<Rightarrow> (nat \<times> 'c, unit) act" where
  "ton_settle ts rpc h oc st =
     (case total oc of
        None \<Rightarrow> None
      | Some t \<Rightarrow>
          if max_bid h < t then Some (Inl (PayoutExceedsEscrow t (max_bid h)), st)
          else let (q, c) = st;
                   body = build_escrow_settle q (out_result_hash oc) (to (winner oc)) (base oc) (amount (winner oc))
                     (platform_fee oc) (participants oc) (settle_candidates ts oc);
                   (res, c1) = confirmed rpc (address h) (rpc_send_internal rpc (address h) (ts_settle_gas ts) body) c
               in Some (res, q + 1, c1))"

definition ton_refund :: "ton_settlement \<Rightarrow> 'c ton_rpc \<Rightarrow> escrow_handle \<Rightarrow> (nat \<times> 'c, unit) act" where
  "ton_refund ts rpc h st =
     (let (q, c) = st;
          (res, c1) = confirmed rpc (address h) (rpc_send_internal rpc (address h) (ts_settle_gas ts) (EscrowRefund q)) c
      in Some (res, q + 1, c1))"

definition ton_rail :: "cell_env \<Rightarrow> ton_settlement \<Rightarrow> 'c ton_rpc \<Rightarrow> (nat \<times> 'c) rail" where
  "ton_rail ce ts rpc = \<lparr>open_escrow = ton_open_escrow ce ts rpc, open_escrow_with_terms = ton_open_escrow_with_terms ce ts rpc,
     settle = ton_settle ts rpc, refund = ton_refund ts rpc, is_onchain = True\<rparr>"

section \<open>The chain behind the transport\<close>

text \<open>
  Escrow accounts, the outcome of every transaction on an account, the wallet that broadcasts, and the fees of
  the day. A message that no account receives leaves no transaction.
\<close>

record escrow_chain =
  ec_now :: nat
  ec_broadcaster :: wallet_address
  ec_gas :: nat
  ec_fwd :: nat
  ec_accounts :: "(wallet_address, (escrow_storage, escrow_body) chain) hmap"
  ec_log :: "(wallet_address, (settle_error + unit) list) hmap"

definition ec_txs :: "escrow_chain \<Rightarrow> wallet_address \<Rightarrow> (settle_error + unit) list" where
  "ec_txs e a = (case hget (ec_log e) a of None \<Rightarrow> [] | Some l \<Rightarrow> l)"

definition ec_run ::
    "((wallet_address, bool) hmap \<Rightarrow> hash32) \<Rightarrow> wallet_address \<Rightarrow> amount \<Rightarrow> escrow_msg \<Rightarrow> (escrow_storage, escrow_body) chain \<Rightarrow>
      escrow_chain \<Rightarrow> (settle_error + unit) \<times> escrow_chain" where
  "ec_run commit a v body c e =
     (let i = \<lparr>in_sender = ec_broadcaster e, in_value = v, in_now = ec_now e\<rparr>; r = escrow_recv commit i body (ch_store c) in
      case run_tx (ec_gas e) (ec_fwd e) v (ch_balance c) r of
        Some (s, b, out) \<Rightarrow> (Inr (), e\<lparr>ec_accounts := hput a (c\<lparr>ch_store := s, ch_balance := b, ch_flight := ch_flight c @ out\<rparr>) (ec_accounts e),
           ec_log := hput a (ec_txs e a @ [Inr ()]) (ec_log e)\<rparr>)
      | None \<Rightarrow> (Inr (), e\<lparr>ec_log := hput a (ec_txs e a @ [Inl (TxFailed (case r of Inl x \<Rightarrow> exit_code x | Inr _ \<Rightarrow> 37))]) (ec_log e)\<rparr>))"

definition chain_rpc :: "((wallet_address, bool) hmap \<Rightarrow> hash32) \<Rightarrow> escrow_chain ton_rpc" where
  "chain_rpc commit = \<lparr>rpc_now = ec_now, rpc_last_tx_lt = (\<lambda>a e. Inr (length (ec_txs e a))),
     rpc_deploy = (\<lambda>a v data body e. case hget (ec_accounts e) a of
         Some c \<Rightarrow> ec_run commit a v body c e
       | None \<Rightarrow> ec_run commit a v body \<lparr>ch_store = data, ch_balance = 0, ch_flight = [], ch_done = [], ch_fees = 0\<rparr> e),
     rpc_send_internal = (\<lambda>a v body e. case hget (ec_accounts e) a of Some c \<Rightarrow> ec_run commit a v body c e | None \<Rightarrow> (Inr (), e)),
     rpc_await_confirmation = (\<lambda>a lt e. (if lt < length (ec_txs e a) then last (ec_txs e a) else Inl TxUnconfirmed, e))\<rparr>"

section \<open>What is presented is what was committed to\<close>

lemma merge_payouts_distinct:
  assumes "distinct (map fst merged @ map f ns)"
  shows "merge_payouts merged (map (\<lambda>n. \<lparr>to = f n, amount = k\<rparr>) ns) = merged @ (if k = 0 then [] else map (\<lambda>n. (f n, k)) ns)"
  using assms
proof (induction ns arbitrary: merged)
  case (Cons n ns)
  then have "hget merged (f n) = None" by (simp add: map_of_eq_None_iff)
  moreover have "distinct (map fst (merged @ [(f n, k)]) @ map f ns)" "distinct (map fst merged @ map f ns)" using Cons.prems by auto
  ultimately show ?case using Cons.IH [of "merged @ [(f n, k)]"] Cons.IH [of merged] by (cases "k = 0") simp_all
qed simp

lemma candidates_dict_keys: "hcontains (candidates_dict_entries cs) x \<longleftrightarrow> x \<in> set cs"
proof -
  have "set (fold (\<lambda>c seen. if c \<in> set seen then seen else seen @ [c]) cs acc) = set acc \<union> set cs" for acc
    by (induction cs arbitrary: acc) auto
  then show ?thesis by (simp add: candidates_dict_entries_def hcontains_def image_image)
qed

lemma candidate_wallets_fold:
  "candidate_wallets env acc ns = fold (\<lambda>n c. if wallet_of env n \<in> set c then c else c @ [wallet_of env n]) ns acc"
  by (induction env acc ns rule: candidate_wallets.induct) (auto simp: Let_def)

text \<open>With a wallet for every agreeing worker, the settlement presents the set the escrow was opened for.\<close>

lemma settle_candidates_committed:
  assumes "ts_candidates ts = []" "\<forall>n\<in>set ns. payout_wallet_of env n \<noteq> None"
  shows "settle_candidates ts (job_outcome env cfg w ns rh bs) = candidate_wallets env [wallet_of env w] ns"
proof -
  have "participants (job_outcome env cfg w ns rh bs) =
      map (\<lambda>n. \<lparr>to = wallet_of env n, amount = sat_mul u128_max bs (to_bps (participation_commission_frac cfg)) div BPS_DENOM\<rparr>) ns"
    using assms(2) by (simp add: job_outcome_def Let_def)
  moreover have "to (winner (job_outcome env cfg w ns rh bs)) = wallet_of env w" by (simp add: job_outcome_def Let_def)
  ultimately show ?thesis using assms(1) by (simp add: settle_candidates_def candidate_wallets_fold fold_map comp_def cong: if_cong)
qed

section \<open>A release that can be paid for\<close>

text \<open>The messages of a release.\<close>

definition payouts :: "nat \<Rightarrow> (wallet_address \<times> nat) list \<Rightarrow> escrow_body out_msg list" where
  "payouts q legs = map (\<lambda>(d, v). \<lparr>om_dest = d, om_value = v, om_bounce = True, om_body = EscrowPayout q\<rparr>) legs"

lemma release_succeeds:
  assumes "r + sum_list (map snd legs) + fwd * (length legs + 1) + x = bal"
  shows "do_actions fwd inb bal (Reserve r # map (\<lambda>(d, a). pay d a q) legs @ [refundRemaining rq q]) =
    Some (payouts q (legs @ [(rq, x)]), r)"
proof -
  have "sum_list (map snd legs) + fwd * (length legs + 1) + x = b \<Longrightarrow>
      do_actions fwd inb b (map (\<lambda>(d, a). pay d a q) legs @ [refundRemaining rq q]) = Some (payouts q (legs @ [(rq, x)]), 0)" for b
  proof (induction legs arbitrary: b)
    case Nil
    then show ?case by (auto simp: refundRemaining_def payouts_def)
  next
    case (Cons l legs)
    obtain d a where l: "l = (d, a)" by (cases l)
    with Cons.prems have "sum_list (map snd legs) + fwd * (length legs + 1) + x = b - (a + fwd)" "a + fwd \<le> b" by auto
    with Cons.IH [of "b - (a + fwd)"] show ?case by (auto simp: l pay_def payouts_def)
  qed
  from this [of "bal - r"] assms show ?thesis by auto
qed

section \<open>The split is accepted\<close>

text \<open>What the coordinator pays for a job, leg by leg; every agreeing worker has a wallet.\<close>

definition job_legs :: "('s, 'a) pay_env \<Rightarrow> economics \<Rightarrow> string \<Rightarrow> string list \<Rightarrow> wallet_address \<Rightarrow> amount \<Rightarrow> (wallet_address \<times> nat) list" where
  "job_legs env cfg w ns treasury bs = filter (\<lambda>(d, v). 0 < v)
     ([(wallet_of env w, if payout_wallet_of env w = None then 0 else bs),
       (treasury, bs * to_bps (platform_fee_pct cfg) div BPS_DENOM)] @
      map (\<lambda>n. (wallet_of env n, bs * to_bps (participation_commission_frac cfg) div BPS_DENOM)) ns)"

text \<open>The message for a job, and the terms it is settled under.\<close>

definition job_settle_msg :: "nat \<Rightarrow> ton_settlement \<Rightarrow> settlement_outcome \<Rightarrow> settle_msg" where
  "job_settle_msg q ts oc = \<lparr>sm_query_id = q, sm_result_hash = out_result_hash oc, sm_winner = to (winner oc), sm_base = base oc,
     sm_winner_amount = amount (winner oc), sm_platform_fee = platform_fee oc,
     sm_participants = participants_dict_entries (participants oc), sm_candidates = candidates_dict_entries (settle_candidates ts oc)\<rparr>"

lemma build_escrow_settle_job:
  "build_escrow_settle q (out_result_hash oc) (to (winner oc)) (base oc) (amount (winner oc)) (platform_fee oc) (participants oc)
     (settle_candidates ts oc) = EscrowSettle (job_settle_msg q ts oc)"
  by (simp add: build_escrow_settle_def job_settle_msg_def)

definition job_terms :: "((wallet_address, bool) hmap \<Rightarrow> hash32) \<Rightarrow> ('s, 'a) pay_env \<Rightarrow> economics \<Rightarrow> string \<Rightarrow> string list \<Rightarrow> hash32 \<Rightarrow> wallet_address \<Rightarrow> onchain_terms" where
  "job_terms commit env cfg w ns rh treasury = build_escrow_terms treasury rh
     (candidates_commitment commit (candidate_wallets env [wallet_of env w] ns)) (current_params_version env)
     (to_bps (platform_fee_pct cfg)) (to_bps (participation_commission_frac cfg))"

lemma sat_mul_bps:
  assumes "bs * 65535 \<le> u128_max"
  shows "sat_mul u128_max bs (to_bps x) = bs * to_bps x"
proof -
  have "bs * to_bps x \<le> bs * 65535" by (intro mult_le_mono2 to_bps_bound)
  then have "bs * to_bps x \<le> u128_max" using assms by (rule le_trans)
  then show ?thesis by (simp add: sat_mul_def)
qed

lemma job_participants:
  fixes cfg :: economics
  assumes "\<forall>n\<in>set ns. payout_wallet_of env n \<noteq> None" "distinct (map (wallet_of env) ns)" "bs * 65535 \<le> u128_max"
    and k_def: "k = bs * to_bps (participation_commission_frac cfg) div BPS_DENOM"
  shows "participants_dict_entries (participants (job_outcome env cfg w ns rh bs)) = (if k = 0 then [] else map (\<lambda>n. (wallet_of env n, k)) ns)"
proof -
  have "participants (job_outcome env cfg w ns rh bs) = map (\<lambda>n. \<lparr>to = wallet_of env n, amount = k\<rparr>) ns"
    using assms(1) by (simp add: job_outcome_def Let_def sat_mul_bps [OF assms(3)] k_def)
  with merge_payouts_distinct [of "[]" "wallet_of env" ns k] assms(2) show ?thesis by (simp add: participants_dict_entries_def)
qed

lemma job_split_allowed:
  fixes env :: "('s, 'a) pay_env"
  assumes "ts_candidates ts = []" "\<forall>n\<in>set ns. payout_wallet_of env n \<noteq> None" "distinct (map (wallet_of env) ns)"
    and "length ns \<le> MAX_SETTLE_PARTICIPANTS" "bs * 65535 \<le> u128_max" "wallet_of env w \<noteq> es_arbiter s"
    and "total (job_outcome env cfg w ns rh bs) = Some t" "t \<le> es_amount s" "es_terms s = job_terms commit env cfg w ns rh treasury"
  shows "settle_allowed commit s (job_settle_msg q ts (job_outcome env cfg w ns rh bs))"
    "settle_legs (job_settle_msg q ts (job_outcome env cfg w ns rh bs)) (es_terms s) = job_legs env cfg w ns treasury bs"
    "sum_list (map snd (job_legs env cfg w ns treasury bs)) = t"
proof -
  let ?oc = "job_outcome env cfg w ns rh bs" and ?m = "job_settle_msg q ts (job_outcome env cfg w ns rh bs)"
  let ?f = "to_bps (platform_fee_pct cfg)" and ?k = "bs * to_bps (participation_commission_frac cfg) div BPS_DENOM"
  note p = job_participants [OF assms(2,3,5) refl, of cfg w rh]
  have c: "settle_candidates ts ?oc = candidate_wallets env [wallet_of env w] ns" by (rule settle_candidates_committed [OF assms(1,2)])
  have fee: "platform_fee ?oc = bs * ?f div BPS_DENOM" by (simp add: sat_mul_bps [OF assms(5)])
  have w: "to (winner ?oc) = wallet_of env w" "amount (winner ?oc) = (if payout_wallet_of env w = None then 0 else bs)"
    "out_result_hash ?oc = rh" by (simp_all add: job_outcome_def Let_def)
  have am: "map amount (participants ?oc) = map (\<lambda>n. ?k) ns"
    using assms(2) by (simp add: job_outcome_def Let_def sat_mul_bps [OF assms(5)])
  have sums: "sum_list (map snd (participants_dict_entries (participants ?oc))) = length ns * ?k"
    by (simp add: p comp_def sum_list_triv)
  have t: "t = amount (winner ?oc) + platform_fee ?oc + length ns * ?k"
  proof -
    have "t = amount (winner ?oc) + platform_fee ?oc + sum_list (map amount (participants ?oc))"
      using assms(7) by (auto simp: total_eq Let_def split: if_splits)
    then show ?thesis by (simp add: am sum_list_triv)
  qed
  show "settle_allowed commit s ?m"
    unfolding settle_allowed_def
  proof (intro conjI)
    show "commit (sm_candidates ?m) = et_candidates_hash (es_terms s)"
      by (simp add: job_settle_msg_def assms(9) job_terms_def build_escrow_terms_def candidates_commitment_def c)
    show "hcontains (sm_candidates ?m) (sm_winner ?m)"
      by (simp add: job_settle_msg_def c w candidates_dict_keys candidate_wallets_set)
    show "\<forall>(who, amt)\<in>set (sm_participants ?m). hcontains (sm_candidates ?m) who \<and>
        (0 < et_commission_bps (es_terms s) \<longrightarrow> amt = sm_base ?m * et_commission_bps (es_terms s) div BPS_DENOM)"
      by (auto simp: job_settle_msg_def p c candidates_dict_keys candidate_wallets_set assms(9) job_terms_def build_escrow_terms_def)
    show "length (sm_participants ?m) \<le> MAX_SETTLE_PARTICIPANTS" using assms(4) by (simp add: job_settle_msg_def p)
    show "sm_winner_amount ?m + sm_platform_fee ?m + sum_list (map snd (sm_participants ?m)) \<le> es_amount s"
      using assms(8) t sums by (simp add: job_settle_msg_def)
  qed (use assms(6) in \<open>simp_all add: job_settle_msg_def w fee sat_mul_bps [OF assms(5)] assms(9) job_terms_def build_escrow_terms_def\<close>)
  have legs: "settle_legs ?m (es_terms s) = job_legs env cfg w ns treasury bs"
    using fee by (auto simp: settle_legs_def job_legs_def job_settle_msg_def w p assms(9) job_terms_def build_escrow_terms_def filter_map comp_def)
  then show "settle_legs ?m (es_terms s) = job_legs env cfg w ns treasury bs" .
  show "sum_list (map snd (job_legs env cfg w ns treasury bs)) = t"
    unfolding legs [symmetric] sum_settle_legs using t sums by (simp add: job_settle_msg_def)
qed

section \<open>A paid job, from the coordinator to the chain\<close>

lemma job_base_le: "job_base cfg b n metered \<le> b"
proof (cases metered)
  case None
  let ?d = "sat_add u128_max (sat_add u128_max BPS_DENOM (to_bps (platform_fee_pct cfg))) (sat_mul u128_max n (to_bps (participation_commission_frac cfg)))"
  have d: "BPS_DENOM \<le> ?d" by (simp add: sat_add_def u128_max_def BPS_DENOM_def)
  have "sat_mul u128_max b BPS_DENOM div ?d \<le> b * BPS_DENOM div ?d" by (intro div_le_mono) (simp add: sat_mul_def)
  also have "\<dots> \<le> b * BPS_DENOM div BPS_DENOM" using d by (intro div_le_mono2) (simp_all add: BPS_DENOM_def)
  finally show ?thesis by (simp add: job_base_def None Let_def BPS_DENOM_def)
qed (simp add: job_base_def)

text \<open>The storage the escrow of a job is deployed with.\<close>

definition job_escrow ::
    "cell_env \<Rightarrow> ton_settlement \<Rightarrow> ('s, 'a) pay_env \<Rightarrow> economics \<Rightarrow> string \<Rightarrow> string list \<Rightarrow> string \<Rightarrow> metered_settle option \<Rightarrow>
      wallet_address \<Rightarrow> wallet_address \<Rightarrow> nat \<Rightarrow> escrow_storage" where
  "job_escrow ce ts env cfg w ns ah metered rqw treasury time = build_escrow_data rqw (ts_arbiter ts) (job_max_bid cfg (length ns) metered)
     (sat_add (2 ^ 32 - 1) time (ts_escrow_window_secs ts))
     (job_terms (ce_commit ce) env cfg w ns (blake3_hash (crypt env) (as_bytes ah)) treasury)"

definition fresh_account :: "escrow_storage \<Rightarrow> nat \<Rightarrow> (escrow_storage, escrow_body) chain" where
  "fresh_account s b = \<lparr>ch_store = s, ch_balance = b, ch_flight = [], ch_done = [], ch_fees = 0\<rparr>"

lemma chain_simps [simp]:
  "rpc_now (chain_rpc commit) = ec_now"
  "rpc_last_tx_lt (chain_rpc commit) a e = Inr (length (ec_txs e a))"
  "ec_txs (e\<lparr>ec_accounts := x, ec_log := hput a l (ec_log e)\<rparr>) a = l"
  "ec_txs (e\<lparr>ec_log := hput a l (ec_log e)\<rparr>) a = l"
  by (simp_all add: chain_rpc_def ec_txs_def update_conv')

lemma deploy_confirmed:
  assumes "hget (ec_accounts e) a = None" "ec_gas e \<le> v"
  shows "confirmed (chain_rpc commit) a (rpc_deploy (chain_rpc commit) a v s (EscrowTopUp q)) e =
    (Inr (), e\<lparr>ec_accounts := hput a (fresh_account s (v - ec_gas e)) (ec_accounts e), ec_log := hput a (ec_txs e a @ [Inr ()]) (ec_log e)\<rparr>)"
proof -
  have r: "rpc_deploy (chain_rpc commit) a v s (EscrowTopUp q) e = ec_run commit a v (EscrowTopUp q) (fresh_account s 0) e"
    using assms(1) by (simp add: chain_rpc_def fresh_account_def)
  have x: "run_tx (ec_gas e) (ec_fwd e) v (ch_balance (fresh_account s 0))
      (escrow_recv commit \<lparr>in_sender = ec_broadcaster e, in_value = v, in_now = ec_now e\<rparr> (EscrowTopUp q) (ch_store (fresh_account s 0))) =
      Some (s, v - ec_gas e, [])"
    using assms(2) by (simp add: run_tx_def escrow_recv_def fresh_account_def)
  show ?thesis
    unfolding confirmed_def chain_simps sum.case r ec_run_def Let_def x option.case prod.case
    by (simp add: chain_rpc_def ec_txs_def update_conv' fresh_account_def)
qed

lemma settle_confirmed:
  assumes "hget (ec_accounts e) a = Some c" "ec_broadcaster e = es_arbiter (ch_store c)" "\<not> es_settled (ch_store c)"
    and "settle_allowed commit (ch_store c) m" "legs = settle_legs m (es_terms (ch_store c))"
    and "MIN_TONS_FOR_STORAGE + sum_list (map snd legs) + ec_fwd e * (length legs + 1) + x + ec_gas e = ch_balance c + v"
  shows "confirmed (chain_rpc commit) a (rpc_send_internal (chain_rpc commit) a v (EscrowSettle m)) e =
    (Inr (), e\<lparr>ec_accounts := hput a (c\<lparr>ch_store := (ch_store c)\<lparr>es_settled := True\<rparr>, ch_balance := MIN_TONS_FOR_STORAGE,
        ch_flight := ch_flight c @ payouts (sm_query_id m) (legs @ [(es_requester (ch_store c), x)])\<rparr>) (ec_accounts e),
      ec_log := hput a (ec_txs e a @ [Inr ()]) (ec_log e)\<rparr>)"
proof -
  let ?i = "\<lparr>in_sender = ec_broadcaster e, in_value = v, in_now = ec_now e\<rparr>"
  have r: "rpc_send_internal (chain_rpc commit) a v (EscrowSettle m) e = ec_run commit a v (EscrowSettle m) c e"
    using assms(1) by (simp add: chain_rpc_def)
  have h: "escrow_recv commit ?i (EscrowSettle m) (ch_store c) = Inr ((ch_store c)\<lparr>es_settled := True\<rparr>,
      Reserve MIN_TONS_FOR_STORAGE # map (\<lambda>(d, a). pay d a (sm_query_id m)) legs @ [refundRemaining (es_requester (ch_store c)) (sm_query_id m)])"
    using assms(2-5) by (simp add: escrow_recv_def escrow_settle_Inr)
  have "MIN_TONS_FOR_STORAGE + sum_list (map snd legs) + ec_fwd e * (length legs + 1) + x = ch_balance c + v - ec_gas e" using assms(6) by simp
  from release_succeeds [OF this] assms(6) have x: "run_tx (ec_gas e) (ec_fwd e) v (ch_balance c) (escrow_recv commit ?i (EscrowSettle m) (ch_store c)) =
      Some ((ch_store c)\<lparr>es_settled := True\<rparr>, MIN_TONS_FOR_STORAGE, payouts (sm_query_id m) (legs @ [(es_requester (ch_store c), x)]))"
    unfolding h run_tx_def by simp
  show ?thesis
    unfolding confirmed_def chain_simps sum.case r ec_run_def Let_def x option.case prod.case
    by (simp add: chain_rpc_def ec_txs_def update_conv')
qed

lemma ton_open_job:
  assumes "ts_escrow_code ts = Some code" "ts_requester ts = Some rqw" "current_fee_recipient env = Some tr" "ts_treasury ts \<in> {None, Some tr}"
    and "s0 = job_escrow ce ts env cfg w ns ah metered rqw tr (ec_now e)" "a = ce_address_of ce code s0"
    and "hget (ec_accounts e) a = None" "bid = job_max_bid cfg (length ns) metered" "bid + ts_deploy_gas_buffer ts \<le> u128_max"
    and "ec_gas e \<le> ts_deploy_gas_buffer ts"
  shows "ton_open_escrow_with_terms ce ts (chain_rpc (ce_commit ce)) j bid
      \<lparr>expected_hash = blake3_hash (crypt env) (as_bytes ah), params_version = current_params_version env,
       candidates = candidate_wallets env [wallet_of env w] ns, fee_recipient = current_fee_recipient env,
       platform_fee_bps = Some (as_u16 (to_bps (platform_fee_pct cfg))),
       participation_commission_bps = Some (as_u16 (to_bps (participation_commission_frac cfg)))\<rparr> (q, e) =
    Some (Inr \<lparr>job = j, address = a, max_bid = bid\<rparr>, q + 1,
      e\<lparr>ec_accounts := hput a (fresh_account s0 (bid + ts_deploy_gas_buffer ts - ec_gas e)) (ec_accounts e),
        ec_log := hput a (ec_txs e a @ [Inr ()]) (ec_log e)\<rparr>)"
proof -
  have b: "bound_treasury ce ts (Some tr) f v = Inr tr" for f v using assms(4) by (auto simp: bound_treasury_def)
  have c: "candidate_wallets env [wallet_of env w] ns \<noteq> []" using candidate_wallets_set [of env "[wallet_of env w]" ns] by fastforce
  have v: "sat_add u128_max bid (ts_deploy_gas_buffer ts) = bid + ts_deploy_gas_buffer ts" using assms(9) by (simp add: sat_add_def)
  have s: "build_escrow_data rqw (ts_arbiter ts) bid (sat_add (2 ^ 32 - 1) (ec_now e) (ts_escrow_window_secs ts))
      (build_escrow_terms tr (blake3_hash (crypt env) (as_bytes ah)) (candidates_commitment (ce_commit ce) (candidate_wallets env [wallet_of env w] ns))
        (current_params_version env) (to_bps (platform_fee_pct cfg)) (to_bps (participation_commission_frac cfg))) = s0"
    by (simp add: assms(5,8) job_escrow_def job_terms_def)
  have g: "ec_gas e \<le> bid + ts_deploy_gas_buffer ts" using assms(10) by simp
  show ?thesis
    unfolding ton_open_escrow_with_terms_def with_wiring_def assms(1,2,3) option.case escrow_terms.select_convs as_u16_to_bps Let_def b sum.case
      if_not_P [OF c] deploy_escrow_def prod.case chain_simps s assms(6) [symmetric] v deploy_confirmed [OF assms(7) g]
    by simp
qed

lemma ton_settle_job:
  fixes env :: "('s, 'a) pay_env"
  assumes "ts_candidates ts = []" "\<forall>n\<in>set ns. payout_wallet_of env n \<noteq> None" "distinct (map (wallet_of env) ns)"
    and "length ns \<le> MAX_SETTLE_PARTICIPANTS" "bs * 65535 \<le> u128_max" "wallet_of env w \<noteq> es_arbiter s"
    and "oc = job_outcome env cfg w ns rh bs" "total oc = Some t" "t \<le> es_amount s" "es_terms s = job_terms commit env cfg w ns rh tr"
    and "hget (ec_accounts e) a = Some (fresh_account s b)" "ec_broadcaster e = es_arbiter s" "\<not> es_settled s"
    and "MIN_TONS_FOR_STORAGE + t + ec_gas e + ec_fwd e * (length ns + 3) \<le> b + ts_settle_gas ts"
    and "legs = job_legs env cfg w ns tr bs"
  shows "\<exists>rest. ton_settle ts (chain_rpc commit) \<lparr>job = j, address = a, max_bid = es_amount s\<rparr> oc (q, e) = Some (Inr (), q + 1,
      e\<lparr>ec_accounts := hput a \<lparr>ch_store = s\<lparr>es_settled := True\<rparr>, ch_balance = MIN_TONS_FOR_STORAGE,
          ch_flight = payouts q (legs @ [(es_requester s, rest)]), ch_done = [], ch_fees = 0\<rparr> (ec_accounts e),
        ec_log := hput a (ec_txs e a @ [Inr ()]) (ec_log e)\<rparr>) \<and> sum_list (map snd legs) = t \<and>
    MIN_TONS_FOR_STORAGE + t + rest + ec_gas e + ec_fwd e * (length legs + 1) = b + ts_settle_gas ts"
proof -
  note ok = job_split_allowed [OF assms(1-6) assms(8) [unfolded assms(7)] assms(9,10), folded assms(7,15)]
  have "length legs \<le> length ns + 2" unfolding assms(15) job_legs_def by (rule le_trans [OF length_filter_le]) simp
  then have "ec_fwd e * (length legs + 1) \<le> ec_fwd e * (length ns + 3)" by (intro mult_le_mono2) simp
  then have "MIN_TONS_FOR_STORAGE + t + ec_gas e + ec_fwd e * (length legs + 1) \<le> b + ts_settle_gas ts" using assms(14) by linarith
  then obtain rest where rest: "MIN_TONS_FOR_STORAGE + t + ec_gas e + ec_fwd e * (length legs + 1) + rest = b + ts_settle_gas ts"
    using le_Suc_ex by metis
  have "confirmed (chain_rpc commit) a (rpc_send_internal (chain_rpc commit) a (ts_settle_gas ts) (EscrowSettle (job_settle_msg q ts oc))) e =
    (Inr (), e\<lparr>ec_accounts := hput a \<lparr>ch_store = s\<lparr>es_settled := True\<rparr>, ch_balance = MIN_TONS_FOR_STORAGE,
          ch_flight = payouts q (legs @ [(es_requester s, rest)]), ch_done = [], ch_fees = 0\<rparr> (ec_accounts e),
        ec_log := hput a (ec_txs e a @ [Inr ()]) (ec_log e)\<rparr>)"
  proof (subst settle_confirmed [where c = "fresh_account s b" and legs = legs and x = rest])
    show "MIN_TONS_FOR_STORAGE + sum_list (map snd legs) + ec_fwd e * (length legs + 1) + rest + ec_gas e =
        ch_balance (fresh_account s b) + ts_settle_gas ts" using rest ok(3) by (simp add: fresh_account_def)
  qed (use ok(1,2) assms(11-13) in \<open>simp_all add: fresh_account_def job_settle_msg_def\<close>)
  then show ?thesis using assms(8,9) rest ok(3)
    by (intro exI [of _ rest]) (simp add: ton_settle_def build_escrow_settle_job)
qed

text \<open>
  C1: A paid job settles on the chain. The coordinator deploys the escrow with the bid it computed; the contract
  accepts the settlement that the coordinator builds; and the escrow sends exactly the winner's price, the
  platform's fee to the treasury that the chain names, the commission to every agreeing worker, and all the rest
  but the storage deposit back to the requester. Then the job is anchored. The agreeing workers have wallets of
  their own, there are at most as many as the contract allows, the fees of the chain are within the gas that the
  rail attaches, and nothing was deployed at the escrow's address before.
\<close>

theorem paid_job_settles_onchain:
  fixes env :: "(nat \<times> escrow_chain, 'a) pay_env"
  assumes job: "paid" "enabled cfg" "treasury_ok env cfg" "bid_in_range cfg (length ns) metered"
    and rail: "settlement env = Some (ton_rail ce ts (chain_rpc (ce_commit ce)))" "ts_escrow_code ts = Some code"
      "ts_requester ts = Some rqw" "ts_candidates ts = []" "ts_arbiter ts = ec_broadcaster e"
    and treasury: "current_fee_recipient env = Some tr" "ts_treasury ts \<in> {None, Some tr}"
    and payees: "\<forall>n\<in>set ns. payout_wallet_of env n \<noteq> None" "distinct (map (wallet_of env) ns)"
      "length ns \<le> MAX_SETTLE_PARTICIPANTS" "wallet_of env w \<noteq> ts_arbiter ts"
    and amounts: "job_max_bid cfg (length ns) metered < 2 ^ 110" "ts_deploy_gas_buffer ts < 2 ^ 110"
    and gas: "ec_gas e \<le> ts_deploy_gas_buffer ts"
      "MIN_TONS_FOR_STORAGE + 2 * ec_gas e + ec_fwd e * (length ns + 3) \<le> ts_deploy_gas_buffer ts + ts_settle_gas ts"
    and fresh: "hget (ec_accounts e) (ce_address_of ce code (job_escrow ce ts env cfg w ns ah metered rqw tr (ec_now e))) = None"
  shows "\<exists>e' rest r. settle_paid_job env cfg paid j w ns ah qh rq fp metered ((q, e), st) =
      Some ((q + 2, e'), case anchor env of None \<Rightarrow> st | Some app \<Rightarrow> app r st) \<and> rec_job_id r = j \<and> rec_result_hash r = ah \<and>
    (let bid = job_max_bid cfg (length ns) metered; s0 = job_escrow ce ts env cfg w ns ah metered rqw tr (ec_now e);
         legs = job_legs env cfg w ns tr (job_base cfg bid (length ns) metered) in
     hget (ec_accounts e') (ce_address_of ce code s0) = Some \<lparr>ch_store = s0\<lparr>es_settled := True\<rparr>, ch_balance = MIN_TONS_FOR_STORAGE,
       ch_flight = payouts (q + 1) (legs @ [(rqw, rest)]), ch_done = [], ch_fees = 0\<rparr> \<and> sum_list (map snd legs) \<le> bid \<and>
     MIN_TONS_FOR_STORAGE + sum_list (map snd legs) + rest + 2 * ec_gas e + ec_fwd e * (length legs + 1) =
       bid + ts_deploy_gas_buffer ts + ts_settle_gas ts)"
proof -
  define bid where "bid = job_max_bid cfg (length ns) metered"
  define bs where "bs = job_base cfg bid (length ns) metered"
  define rh where "rh = blake3_hash (crypt env) (as_bytes ah)"
  define oc where "oc = job_outcome env cfg w ns rh bs"
  define s0 where "s0 = job_escrow ce ts env cfg w ns ah metered rqw tr (ec_now e)"
  define a where "a = ce_address_of ce code s0"
  define legs where "legs = job_legs env cfg w ns tr bs"
  define e1 where "e1 = e\<lparr>ec_accounts := hput a (fresh_account s0 (bid + ts_deploy_gas_buffer ts - ec_gas e)) (ec_accounts e),
        ec_log := hput a (ec_txs e a @ [Inr ()]) (ec_log e)\<rparr>"
  have big: "bid + ts_deploy_gas_buffer ts \<le> u128_max" "bs * 65535 \<le> u128_max"
    using amounts job_base_le [of cfg bid "length ns" metered] by (simp_all add: bid_def [symmetric] bs_def [symmetric] u128_max_def)
  note opn = ton_open_job [OF rail(2,3) treasury s0_def a_def fresh [folded s0_def a_def] bid_def big(1) gas(1), of j q, folded e1_def rh_def]
  note tot = job_outcome_total [OF job(4), where env = env and w = w and rh = rh, folded bid_def, folded bs_def, folded oc_def]
  from tot(1) obtain t where t: "total oc = Some t" "t \<le> bid" by blast
  have s: "es_arbiter s0 = ts_arbiter ts" "es_amount s0 = bid" "\<not> es_settled s0" "es_requester s0 = rqw"
    "es_terms s0 = job_terms (ce_commit ce) env cfg w ns rh tr"
    by (simp_all add: s0_def job_escrow_def build_escrow_data_def bid_def rh_def)
  have h: "wallet_of env w \<noteq> es_arbiter s0" "t \<le> es_amount s0" using payees(4) t(2) by (simp_all add: s)
  have "hget (ec_accounts e1) a = Some (fresh_account s0 (bid + ts_deploy_gas_buffer ts - ec_gas e))" "ec_broadcaster e1 = es_arbiter s0"
    "MIN_TONS_FOR_STORAGE + t + ec_gas e1 + ec_fwd e1 * (length ns + 3) \<le> bid + ts_deploy_gas_buffer ts - ec_gas e + ts_settle_gas ts"
    using gas t(2) rail(5) by (simp_all add: e1_def update_conv' s)
  from ton_settle_job [OF rail(4) payees(1-3) big(2) h(1) oc_def t(1) h(2) s(5) this(1,2) s(3) this(3) refl, of j "q + 1", unfolded s(2,4), folded legs_def]
  obtain rest e2 where stl: "ton_settle ts (chain_rpc (ce_commit ce)) \<lparr>job = j, address = a, max_bid = bid\<rparr> oc (q + 1, e1) = Some (Inr (), q + 2, e2)"
    "hget (ec_accounts e2) a = Some \<lparr>ch_store = s0\<lparr>es_settled := True\<rparr>, ch_balance = MIN_TONS_FOR_STORAGE,
       ch_flight = payouts (q + 1) (legs @ [(rqw, rest)]), ch_done = [], ch_fees = 0\<rparr>" "sum_list (map snd legs) = t"
    "MIN_TONS_FOR_STORAGE + t + rest + ec_gas e1 + ec_fwd e1 * (length legs + 1) = bid + ts_deploy_gas_buffer ts - ec_gas e + ts_settle_gas ts"
    by (auto simp: update_conv')
  define r where "r = \<lparr>rec_job_id = j, rec_query_hash = qh, requester_wallet = to_raw_string (crypt env) (wallet_of env rq),
    rec_max_bid = of_nat bid, rec_result_hash = ah, epoch = 0, prev_root = replicate 32 0,
    rec_params_version = of_nat (current_params_version env), rec_input_fingerprint = fp\<rparr>"
  have "settle_paid_job env cfg paid j w ns ah qh rq fp metered ((q, e), st) =
      Some ((q + 2, e2), case anchor env of None \<Rightarrow> st | Some app \<Rightarrow> app r st)"
    using job(1-3) opn stl(1) tot(2) unfolding oc_def bs_def
    by (simp add: settle_paid_job_def Let_def rail(1) ton_rail_def rh_def [symmetric] bid_def [symmetric] r_def del: job_outcome_simps split: option.split)
  moreover have "rec_job_id r = j" "rec_result_hash r = ah" by (simp_all add: r_def)
  ultimately show ?thesis
    unfolding Let_def bid_def [symmetric] s0_def [symmetric] a_def [symmetric] bs_def [symmetric] legs_def [symmetric]
    using stl(2-4) t(2) gas(1) by (intro exI [of _ e2] exI [of _ rest] exI [of _ r]) (simp add: e1_def)
qed

section \<open>Splits the contract refuses\<close>

text \<open>
  The candidates of an open escrow include every agreeing worker, those of a settlement only the paid ones: an
  agreeing worker without a payout wallet keeps the job from ever being settled.
\<close>

lemma free_verifier_blocks_settlement:
  fixes env :: "('s, 'a) pay_env"
  assumes "ts_candidates ts = []" "inj commit" "n \<in> set ns" "wallet_of env n \<noteq> wallet_of env w"
    and "\<forall>x\<in>set ns. payout_wallet_of env x \<noteq> None \<longrightarrow> wallet_of env x \<noteq> wallet_of env n"
    and "in_sender i = es_arbiter s" "\<not> es_settled s" "es_terms s = job_terms commit env cfg w ns rh tr"
  shows "escrow_recv commit i (EscrowSettle (job_settle_msg q ts (job_outcome env cfg w ns rh bs))) s = Inl SETTLE_POLICY_MISMATCH"
proof -
  let ?oc = "job_outcome env cfg w ns rh bs"
  have "set (fold (\<lambda>p c. if to p \<in> set c then c else c @ [to p]) ps acc) = set acc \<union> to ` set ps" for ps :: "payout list" and acc
    by (induction ps arbitrary: acc) auto
  then have "set (settle_candidates ts ?oc) = insert (wallet_of env w) (wallet_of env ` {x \<in> set ns. payout_wallet_of env x \<noteq> None})"
    using assms(1) by (simp add: settle_candidates_def job_outcome_def Let_def image_image)
  then have "wallet_of env n \<notin> set (settle_candidates ts ?oc)" using assms(4,5) by auto
  moreover have "wallet_of env n \<in> set (candidate_wallets env [wallet_of env w] ns)" using assms(3) by (simp add: candidate_wallets_set)
  ultimately have "candidates_dict_entries (settle_candidates ts ?oc) \<noteq> candidates_dict_entries (candidate_wallets env [wallet_of env w] ns)"
    using candidates_dict_keys by metis
  then have "commit (candidates_dict_entries (settle_candidates ts ?oc)) \<noteq> et_candidates_hash (es_terms s)"
    using assms(2) by (simp add: assms(8) job_terms_def build_escrow_terms_def candidates_commitment_def inj_eq)
  moreover have "out_result_hash ?oc = et_expected_hash (es_terms s)" by (simp add: assms(8) job_terms_def build_escrow_terms_def job_outcome_def Let_def)
  ultimately show ?thesis using assms(6,7) by (simp add: escrow_recv_def escrow_settle_def job_settle_msg_def Let_def)
qed

text \<open>
  Two agreeing workers with one wallet: their commissions are merged into one entry, which is twice what the
  contract demands of every entry.
\<close>

lemma shared_wallet_blocks_settlement:
  fixes env :: "('s, 'a) pay_env"
  assumes "ts_candidates ts = []" "payout_wallet_of env m \<noteq> None" "payout_wallet_of env n \<noteq> None" "wallet_of env m = wallet_of env n"
    and "bs * 65535 \<le> u128_max" "0 < bs * to_bps (participation_commission_frac cfg) div BPS_DENOM"
    and "in_sender i = es_arbiter s" "\<not> es_settled s" "es_terms s = job_terms commit env cfg w [m, n] rh tr" "wallet_of env w \<noteq> es_arbiter s"
  shows "escrow_recv commit i (EscrowSettle (job_settle_msg q ts (job_outcome env cfg w [m, n] rh bs))) s = Inl COMMISSION_MISMATCH"
proof -
  let ?oc = "job_outcome env cfg w [m, n] rh bs" and ?k = "bs * to_bps (participation_commission_frac cfg) div BPS_DENOM"
  have c: "settle_candidates ts ?oc = candidate_wallets env [wallet_of env w] [m, n]"
    using assms(1-3) by (intro settle_candidates_committed) simp_all
  have "bs * to_bps (participation_commission_frac cfg) \<le> u128_max" using assms(5) by (rule le_trans [rotated]) (intro mult_le_mono2 to_bps_bound)
  then have "?k \<le> u128_max div BPS_DENOM" by (rule div_le_mono)
  have p: "participants_dict_entries (participants ?oc) = [(wallet_of env n, sat_add u128_max ?k ?k)]"
    using assms(2,3,4,6) by (simp add: job_outcome_def Let_def sat_mul_bps [OF assms(5)] participants_dict_entries_def)
  have k: "sat_add u128_max ?k ?k \<noteq> ?k" using assms(6) \<open>?k \<le> _\<close> by (simp add: sat_add_def u128_max_def BPS_DENOM_def)
  have b: "0 < to_bps (participation_commission_frac cfg)" using assms(6) by (cases "to_bps (participation_commission_frac cfg)") simp_all
  have w: "to (winner ?oc) = wallet_of env w" "out_result_hash ?oc = rh" by (simp_all add: job_outcome_def Let_def)
  have h: "hcontains (candidates_dict_entries (candidate_wallets env [wallet_of env w] [m, n])) x"
    if "x \<in> {wallet_of env w, wallet_of env n}" for x
    unfolding candidates_dict_keys candidate_wallets_set using that by auto
  show ?thesis
    using assms(7,8,10) k b h
    by (simp add: escrow_recv_def escrow_settle_def job_settle_msg_def Let_def p c w assms(9) job_terms_def build_escrow_terms_def
        candidates_commitment_def MAX_SETTLE_PARTICIPANTS_def del: candidate_wallets.simps)
qed

section \<open>Examples\<close>

definition bridge_wallet :: "u8 \<Rightarrow> wallet_address" where
  "bridge_wallet b = \<lparr>workchain = 0, account = replicate 32 b\<rparr>"

definition bridge_cells :: cell_env where
  "bridge_cells = \<lparr>ce_address_of = (\<lambda>_ _. bridge_wallet 9), ce_commit = (\<lambda>d. replicate 32 (of_nat (length d))), ce_raw = (\<lambda>_. '''')\<rparr>"

definition bridge_ts :: ton_settlement where
  "bridge_ts = \<lparr>ts_escrow_code = Some (replicate 32 1), ts_terms = build_escrow_terms (bridge_wallet 3) NO_HASH NO_HASH 0 0 0,
     ts_arbiter = bridge_wallet 1, ts_requester = Some (bridge_wallet 2), ts_treasury = None, ts_escrow_window_secs = 3600,
     ts_deploy_gas_buffer = 100000000, ts_settle_gas = 50000000, ts_candidates = [], ts_platform_fee_bps = 0, ts_commission_bps = 0\<rparr>"

definition bridge_chain :: escrow_chain where
  "bridge_chain = \<lparr>ec_now = 1000, ec_broadcaster = bridge_wallet 1, ec_gas = 1000000, ec_fwd = 400000, ec_accounts = [], ec_log = []\<rparr>"

definition bridge_env :: "(nat \<times> escrow_chain, anchor_state) pay_env" where
  "bridge_env = \<lparr>crypt = hex_crypto, settlement = Some (ton_rail bridge_cells bridge_ts (chain_rpc (ce_commit bridge_cells))),
     wallet_binding = Some (\<lambda>n. Some (bridge_wallet (if n = ''w'' then 4 else 5))), wallet_resolver = None,
     anchor = Some (anchor_append toy_digest), current_params_version = 7, current_fee_recipient = Some (bridge_wallet 3)\<rparr>"

theorem paid_job_settles_onchain_witness:
  "\<exists>e' rest r. settle_paid_job bridge_env example_economics True ''j'' ''w'' [''v''] ''h'' ''q'' ''me'' [] None ((0, bridge_chain), []) =
      Some ((0 + 2, e'), case anchor bridge_env of None \<Rightarrow> [] | Some app \<Rightarrow> app r []) \<and> rec_job_id r = ''j'' \<and> rec_result_hash r = ''h'' \<and>
    (let bid = job_max_bid example_economics (length [''v'']) None;
         s0 = job_escrow bridge_cells bridge_ts bridge_env example_economics ''w'' [''v''] ''h'' None (bridge_wallet 2) (bridge_wallet 3) (ec_now bridge_chain);
         legs = job_legs bridge_env example_economics ''w'' [''v''] (bridge_wallet 3) (job_base example_economics bid (length [''v'']) None) in
     hget (ec_accounts e') (ce_address_of bridge_cells (replicate 32 1) s0) = Some \<lparr>ch_store = s0\<lparr>es_settled := True\<rparr>, ch_balance = MIN_TONS_FOR_STORAGE,
       ch_flight = payouts (0 + 1) (legs @ [(bridge_wallet 2, rest)]), ch_done = [], ch_fees = 0\<rparr> \<and> sum_list (map snd legs) \<le> bid \<and>
     MIN_TONS_FOR_STORAGE + sum_list (map snd legs) + rest + 2 * ec_gas bridge_chain + ec_fwd bridge_chain * (length legs + 1) =
       bid + ts_deploy_gas_buffer bridge_ts + ts_settle_gas bridge_ts)"
proof (rule paid_job_settles_onchain)
  show "job_max_bid example_economics (length [''v'']) None < 2 ^ 110"
    by (simp add: job_max_bid_def escrow_bid_nanoton_def example_economics_def TON_NANOTON_def)
qed (simp_all add: bridge_env_def example_economics_def treasury_ok_def bid_in_range_def bridge_ts_def bridge_chain_def bridge_cells_def
    payout_wallet_of_def wallet_of_def bridge_wallet_def MAX_SETTLE_PARTICIPANTS_def MIN_TONS_FOR_STORAGE_def)

end
