(* ===== verification/Cells.thy ===== *)
theory Cells
  imports Settlement
begin

text \<open>
  Cells of the TON chain, as \<open>crates/settlement/src/cell.rs\<close> builds, reads and hashes them: the builder and the
  parser on data bytes, the representation hash, dictionaries (\<open>HashmapE\<close>), and addresses derived from a state
  init. SHA-256 is an argument. What the builder makes of a cell is described by its bits (\<open>pack\<close>), which is
  where the proofs take place.
\<close>

section \<open>Cells\<close>

text \<open>
  Data bytes, the number of bits that count, and the child cells. The last byte holds its bits at the top.
\<close>

datatype cell = Cell (cell_data: bytes) (bit_len: nat) (cell_refs: "cell list")

primrec cell_depth :: "cell \<Rightarrow> u16" where
  "cell_depth (Cell d n rs) = (let ds = map cell_depth rs in if ds = [] then 0 else fold max ds 0 + 1)"

definition descriptor :: "cell \<Rightarrow> bytes" where
  "descriptor c = [of_nat (length (cell_refs c)),
     of_nat (if bit_len c mod 8 = 0 then 2 * (bit_len c div 8) else 2 * (bit_len c div 8) + 1)]"

definition set_in_last :: "nat \<Rightarrow> bytes \<Rightarrow> bytes" where
  "set_in_last i d = d[length d - 1 := last d OR push_bit i 1]"

definition augmented_data :: "cell \<Rightarrow> bytes" where
  "augmented_data c =
     (let r = bit_len c mod 8 in if r \<noteq> 0 then set_in_last (7 - r) (cell_data c) else cell_data c)"

primrec repr_hash :: "(bytes \<Rightarrow> hash32) \<Rightarrow> cell \<Rightarrow> hash32" where
  "repr_hash H (Cell d n rs) = H (descriptor (Cell d n rs) @ augmented_data (Cell d n rs) @
     concat (map (\<lambda>r. be_bytes_of 2 (cell_depth r)) rs) @ concat (map (repr_hash H) rs))"

section \<open>The builder\<close>

definition cell_new :: cell where "cell_new = Cell [] 0 []"

definition cb_push_bit :: "bool \<Rightarrow> cell \<Rightarrow> cell" where
  "cb_push_bit b c =
     (let pos = bit_len c mod 8;
          d = (if pos = 0 then cell_data c @ [0] else cell_data c)
      in Cell (if b then set_in_last (7 - pos) d else d) (bit_len c + 1) (cell_refs c))"

definition store_uint :: "nat \<Rightarrow> nat \<Rightarrow> cell \<Rightarrow> cell" where
  "store_uint v nbits c = fold (\<lambda>i. cb_push_bit (bit v i)) (rev [0..<nbits]) c"

definition store_int :: "int \<Rightarrow> nat \<Rightarrow> cell \<Rightarrow> cell" where
  "store_int v nbits c = store_uint (nat (v mod 2 ^ min nbits 128)) nbits c"

definition store_bits :: "bytes \<Rightarrow> nat \<Rightarrow> cell \<Rightarrow> cell" where
  "store_bits b nbits c = fold (\<lambda>i. cb_push_bit (bit (b ! (i div 8)) (7 - i mod 8))) [0..<nbits] c"

definition store_u256 :: "hash32 \<Rightarrow> cell \<Rightarrow> cell" where
  "store_u256 h c = store_bits h 256 c"

text \<open>The number of bits of a number, \<open>BITS - leading_zeros\<close>.\<close>

fun bit_length :: "nat \<Rightarrow> nat" where
  "bit_length n = (if n = 0 then 0 else bit_length (n div 2) + 1)"

definition store_coins :: "nat \<Rightarrow> cell \<Rightarrow> cell" where
  "store_coins v c =
     (let used = (bit_length v + 7) div 8
      in fold (\<lambda>i. store_uint (drop_bit (i * 8) v AND 0xff) 8) (rev [0..<used]) (store_uint used 4 c))"

definition store_address :: "wallet_address \<Rightarrow> cell \<Rightarrow> cell" where
  "store_address a c = store_u256 (account a) (store_int (workchain a) 8 (store_uint 4 3 c))"

definition store_ref :: "cell \<Rightarrow> cell \<Rightarrow> cell" where
  "store_ref r c = Cell (cell_data c) (bit_len c) (cell_refs c @ [r])"

definition store_maybe_ref :: "cell option \<Rightarrow> cell \<Rightarrow> cell" where
  "store_maybe_ref r c = (case r of Some x \<Rightarrow> store_ref x (store_uint 1 1 c) | None \<Rightarrow> store_uint 0 1 c)"

definition store_cell_inline :: "cell \<Rightarrow> cell \<Rightarrow> cell" where
  "store_cell_inline x c =
     (let y = fold (\<lambda>i. cb_push_bit (bit (cell_data x ! (i div 8)) (7 - i mod 8))) [0..<bit_len x] c
      in Cell (cell_data y) (bit_len y) (cell_refs y @ cell_refs x))"

definition cell_bits :: "cell \<Rightarrow> bool list" where
  "cell_bits c = map (\<lambda>i. bit (cell_data c ! (i div 8)) (7 - i mod 8)) [0..<bit_len c]"

section \<open>Bits and bytes\<close>

text \<open>A byte from eight bits, the first one on top; a string of bits as bytes, the last one filled up with zeros.\<close>

definition pack_byte :: "bool list \<Rightarrow> u8" where
  "pack_byte bs = horner_sum of_bool 2 (rev bs)"

definition bit_at :: "bool list \<Rightarrow> nat \<Rightarrow> bool" where
  "bit_at bs i \<longleftrightarrow> i < length bs \<and> bs ! i"

definition pack_bytes :: "bool list \<Rightarrow> bytes" where
  "pack_bytes bs = map (\<lambda>k. pack_byte (map (\<lambda>j. bit_at bs (8 * k + j)) [0..<8])) [0..<(length bs + 7) div 8]"

definition pack :: "bool list \<Rightarrow> cell list \<Rightarrow> cell" where
  "pack bs rs = Cell (pack_bytes bs) (length bs) rs"

lemma pack_simps [simp]: "bit_len (pack bs rs) = length bs" "cell_refs (pack bs rs) = rs" "cell_data (pack bs rs) = pack_bytes bs"
  by (simp_all add: pack_def)

lemma length_pack_bytes [simp]: "length (pack_bytes bs) = (length bs + 7) div 8"
  by (simp add: pack_bytes_def)

lemma bit_pack_byte: "length bs = 8 \<Longrightarrow> bit (pack_byte bs) i \<longleftrightarrow> i < 8 \<and> bs ! (7 - i)"
  by (auto simp: pack_byte_def bit_horner_sum_bit_word_iff rev_nth)

lemma bit_pack_bytes:
  "k < (length bs + 7) div 8 \<Longrightarrow> bit (pack_bytes bs ! k) i \<longleftrightarrow> i < 8 \<and> bit_at bs (8 * k + (7 - i))"
  by (auto simp: pack_bytes_def bit_pack_byte)

lemma u8_eqI: "(\<And>i. i < 8 \<Longrightarrow> bit (x :: u8) i = bit y i) \<Longrightarrow> x = y"
  by (rule bit_word_eqI) simp

lemma ceil_div8: "(n + 7) div 8 = (if n mod 8 = 0 then n div 8 else n div 8 + 1)" for n :: nat
proof -
  define q r where "q = n div 8" and "r = n mod 8"
  then have n: "n = 8 * q + r" "r < 8" by simp_all
  have "(n + 7) div 8 = (if r = 0 then q else q + 1)" unfolding n(1) using n(2) by (auto intro!: div_nat_eqI)
  then show ?thesis by (simp only: q_def r_def)
qed

lemma eq_div8: "8 * k + (7 - i) = n \<longleftrightarrow> k = n div 8 \<and> i = 7 - n mod 8" if i: "i < 8" for i k n :: nat
proof
  have s: "7 - i < 8" by simp
  assume "8 * k + (7 - i) = n"
  then have "n div 8 = k" "n mod 8 = 7 - i" using s by auto
  then show "k = n div 8 \<and> i = 7 - n mod 8" using i by simp
next
  assume k: "k = n div 8 \<and> i = 7 - n mod 8"
  have "n mod 8 < 8" by simp
  with k have "7 - i = n mod 8" by simp
  with k show "8 * k + (7 - i) = n" by simp
qed

lemma cell_bits_pack [simp]: "cell_bits (pack bs rs) = bs"
proof (rule nth_equalityI)
  fix i assume "i < length (cell_bits (pack bs rs))"
  then have i: "i < length bs" by (simp add: cell_bits_def)
  then have "i div 8 < (length bs + 7) div 8" by (simp add: div_less_iff_less_mult) 
  moreover have "8 * (i div 8) + (7 - (7 - i mod 8)) = i" "7 - i mod 8 < 8" by (simp_all add: algebra_simps)
  ultimately show "cell_bits (pack bs rs) ! i = bs ! i" using i by (simp add: cell_bits_def bit_pack_bytes bit_at_def)
qed (simp add: cell_bits_def)

lemma pack_inject [simp]: "pack bs rs = pack bs' rs' \<longleftrightarrow> bs = bs' \<and> rs = rs'"
  by (metis cell_bits_pack pack_simps(2))

lemma cell_new_pack: "cell_new = pack [] []"
  by (simp add: cell_new_def pack_def pack_bytes_def)


lemma bit_set_in_last:
  assumes "d \<noteq> []" "k < length d" "i < 8" "p < 8"
  shows "bit (set_in_last p d ! k) i \<longleftrightarrow> bit (d ! k) i \<or> k = length d - 1 \<and> i = p"
  using assms by (auto simp: set_in_last_def nth_list_update bit_or_iff bit_push_bit_iff last_conv_nth bit_exp_iff)

lemma length_set_in_last [simp]: "length (set_in_last p d) = length d"
  by (simp add: set_in_last_def)

lemma cb_push_bit_pack [simp]: "cb_push_bit b (pack bs rs) = pack (bs @ [b]) rs"
proof -
  let ?n = "length bs"
  define d where "d = (if ?n mod 8 = 0 then pack_bytes bs @ [0] else pack_bytes bs)"
  have len: "length d = (?n + 8) div 8" "length d - 1 = ?n div 8" "d \<noteq> []"
  proof -
    show l: "length d = (?n + 8) div 8" using ceil_div8 [of ?n] by (auto simp: d_def)
    then show "length d - 1 = ?n div 8" by simp
    show "d \<noteq> []" using l by auto
  qed
  have d: "bit (d ! k) i \<longleftrightarrow> bit_at bs (8 * k + (7 - i))" if "k < length d" "i < 8" for k i
  proof (cases "k < (?n + 7) div 8")
    case True
    then have "d ! k = pack_bytes bs ! k" by (simp add: d_def nth_append)
    with True that show ?thesis by (simp add: bit_pack_bytes)
  next
    case False
    with that len ceil_div8 [of ?n] have "?n mod 8 = 0" "k = ?n div 8" by (auto split: if_splits)
    then show ?thesis by (auto simp: d_def nth_append bit_at_def)
  qed
  have at: "bit_at (bs @ [b]) j \<longleftrightarrow> bit_at bs j \<or> j = ?n \<and> b" for j by (auto simp: bit_at_def nth_append)
  have j: "8 * k + (7 - i) = ?n \<longleftrightarrow> k = ?n div 8 \<and> i = 7 - ?n mod 8" if "i < 8" for i k using that mult_div_mod_eq [of 8 ?n] by (simp only: eq_div8)
  have "(if b then set_in_last (7 - ?n mod 8) d else d) = pack_bytes (bs @ [b])"
  proof (rule nth_equalityI)
    show "length (if b then set_in_last (7 - ?n mod 8) d else d) = length (pack_bytes (bs @ [b]))" using len by simp
    fix k assume "k < length (if b then set_in_last (7 - ?n mod 8) d else d)"
    then have k: "k < length d" by (simp split: if_splits)
    then have k2: "k < (length (bs @ [b]) + 7) div 8" using len by simp
    show "(if b then set_in_last (7 - ?n mod 8) d else d) ! k = pack_bytes (bs @ [b]) ! k"
    proof (rule u8_eqI)
      fix i :: nat assume i: "i < 8"
      show "bit ((if b then set_in_last (7 - ?n mod 8) d else d) ! k) i = bit (pack_bytes (bs @ [b]) ! k) i"
        unfolding bit_pack_bytes [OF k2] at j [OF i] using d [OF k i] i k len(2,3) by (simp add: bit_set_in_last)
    qed
  qed
  then show ?thesis unfolding cb_push_bit_def Let_def pack_simps d_def [symmetric] by (simp add: pack_def)
qed

lemma fold_push_pack [simp]: "fold (\<lambda>i. cb_push_bit (f i)) is (pack bs rs) = pack (bs @ map f is) rs"
  by (induction "is" arbitrary: bs) simp_all

text \<open>A number as bits, the highest first.\<close>

definition uint_bits :: "nat \<Rightarrow> nat \<Rightarrow> bool list" where
  "uint_bits v n = map (bit v) (rev [0..<n])"

definition byte_bits :: "bytes \<Rightarrow> nat \<Rightarrow> bool list" where
  "byte_bits b n = map (\<lambda>i. bit (b ! (i div 8)) (7 - i mod 8)) [0..<n]"

lemma length_uint_bits [simp]: "length (uint_bits v n) = n" and length_byte_bits [simp]: "length (byte_bits b n) = n"
  by (simp_all add: uint_bits_def byte_bits_def)

lemma store_pack [simp]:
  "store_uint v n (pack bs rs) = pack (bs @ uint_bits v n) rs"
  "store_bits b m (pack bs rs) = pack (bs @ byte_bits b m) rs"
  "store_ref r (pack bs rs) = pack bs (rs @ [r])"
  "store_cell_inline (pack bs' rs') (pack bs rs) = pack (bs @ bs') (rs @ rs')"
proof -
  have "map (\<lambda>i. bit (cell_data (pack bs' rs') ! (i div 8)) (7 - i mod 8)) [0..<length bs'] = bs'"
    using cell_bits_pack [of bs' rs'] by (simp add: cell_bits_def)
  then show "store_cell_inline (pack bs' rs') (pack bs rs) = pack (bs @ bs') (rs @ rs')"
    by (simp add: store_cell_inline_def) (simp add: pack_def)
qed (simp_all add: store_uint_def store_bits_def store_ref_def uint_bits_def byte_bits_def, simp add: pack_def)

section \<open>The parser\<close>

text \<open>A cursor on a cell. A read that fails leaves the cursor where the failure was noticed.\<close>

record cell_parser =
  cp_cell :: cell
  cp_bit :: nat
  cp_ref :: nat

definition parser :: "cell \<Rightarrow> cell_parser" where
  "parser c = \<lparr>cp_cell = c, cp_bit = 0, cp_ref = 0\<rparr>"

definition remaining_bits :: "cell_parser \<Rightarrow> nat" where
  "remaining_bits p = bit_len (cp_cell p) - cp_bit p"

definition remaining_refs :: "cell_parser \<Rightarrow> nat" where
  "remaining_refs p = length (cell_refs (cp_cell p)) - cp_ref p"

definition load_bit :: "cell_parser \<Rightarrow> bool option \<times> cell_parser" where
  "load_bit p =
     (if bit_len (cp_cell p) \<le> cp_bit p then (None, p)
      else (Some (bit (cell_data (cp_cell p) ! (cp_bit p div 8)) (7 - cp_bit p mod 8)), p\<lparr>cp_bit := cp_bit p + 1\<rparr>))"

fun load_uint_loop :: "nat \<Rightarrow> nat \<Rightarrow> cell_parser \<Rightarrow> nat option \<times> cell_parser" where
  "load_uint_loop 0 v p = (Some v, p)"
| "load_uint_loop (Suc n) v p =
     (case load_bit p of
        (None, p1) \<Rightarrow> (None, p1)
      | (Some b, p1) \<Rightarrow> load_uint_loop n ((2 * v) mod 2 ^ 128 + of_bool b) p1)"

definition load_uint :: "nat \<Rightarrow> cell_parser \<Rightarrow> nat option \<times> cell_parser" where
  "load_uint nbits p =
     (if 128 < nbits \<or> bit_len (cp_cell p) < cp_bit p + nbits then (None, p) else load_uint_loop nbits 0 p)"

text \<open>For widths below 128.\<close>

definition load_int :: "nat \<Rightarrow> cell_parser \<Rightarrow> int option \<times> cell_parser" where
  "load_int nbits p =
     (case load_uint nbits p of
        (None, p1) \<Rightarrow> (None, p1)
      | (Some u, p1) \<Rightarrow> (Some (if 0 < nbits \<and> bit u (nbits - 1) then int u - 2 ^ nbits else int u), p1))"

definition load_coins :: "cell_parser \<Rightarrow> nat option \<times> cell_parser" where
  "load_coins p =
     (case load_uint 4 p of
        (None, p1) \<Rightarrow> (None, p1)
      | (Some len, p1) \<Rightarrow> if len = 0 then (Some 0, p1) else load_uint (len * 8) p1)"

fun load_bits_loop :: "nat list \<Rightarrow> bytes \<Rightarrow> cell_parser \<Rightarrow> bytes option \<times> cell_parser" where
  "load_bits_loop [] out p = (Some out, p)"
| "load_bits_loop (i # is) out p =
     (case load_bit p of
        (None, p1) \<Rightarrow> (None, p1)
      | (Some b, p1) \<Rightarrow>
          load_bits_loop is (if b then out[i div 8 := out ! (i div 8) OR push_bit (7 - i mod 8) 1] else out) p1)"

definition load_bits :: "nat \<Rightarrow> cell_parser \<Rightarrow> bytes option \<times> cell_parser" where
  "load_bits nbits p = load_bits_loop [0..<nbits] (replicate ((nbits + 7) div 8) 0) p"

definition load_address :: "cell_parser \<Rightarrow> wallet_address option \<times> cell_parser" where
  "load_address p =
     (case load_uint 2 p of
        (None, p1) \<Rightarrow> (None, p1)
      | (Some tag, p1) \<Rightarrow>
          if tag \<noteq> 2 then (None, p1)
          else (case load_bit p1 of
              (None, p2) \<Rightarrow> (None, p2)
            | (Some anycast, p2) \<Rightarrow>
                if anycast then (None, p2)
                else (case load_int 8 p2 of
                    (None, p3) \<Rightarrow> (None, p3)
                  | (Some wc, p3) \<Rightarrow>
                      (case load_bits 256 p3 of
                         (None, p4) \<Rightarrow> (None, p4)
                       | (Some h, p4) \<Rightarrow> (Some \<lparr>workchain = wc, account = h\<rparr>, p4)))))"

definition load_ref :: "cell_parser \<Rightarrow> cell option \<times> cell_parser" where
  "load_ref p =
     (if cp_ref p < length (cell_refs (cp_cell p))
      then (Some (cell_refs (cp_cell p) ! cp_ref p), p\<lparr>cp_ref := cp_ref p + 1\<rparr>) else (None, p))"

section \<open>Reading back\<close>

text \<open>The number that bits stand for.\<close>

fun uint_of :: "nat \<Rightarrow> bool list \<Rightarrow> nat" where
  "uint_of v [] = v"
| "uint_of v (b # bs) = uint_of (2 * v + of_bool b) bs"

lemma uint_of_append: "uint_of v (bs @ [b]) = 2 * uint_of v bs + of_bool b"
  by (induction bs arbitrary: v) simp_all

lemma uint_of_acc: "uint_of v bs = v * 2 ^ length bs + uint_of 0 bs"
proof (induction bs arbitrary: v)
  case (Cons b bs)
  show ?case unfolding uint_of.simps Cons.IH [of "2 * v + of_bool b"] Cons.IH [of "2 * 0 + of_bool b"] by (simp add: algebra_simps)
qed simp

lemma uint_bits_0 [simp]: "uint_bits v 0 = []" and uint_bits_Suc: "uint_bits v (Suc n) = bit v n # uint_bits v n"
  by (simp_all add: uint_bits_def)

lemma uint_of_uint_bits [simp]: "uint_of 0 (uint_bits v n) = v mod 2 ^ n"
proof (induction n)
  case (Suc n)
  have "uint_of 0 (uint_bits v (Suc n)) = of_bool (bit v n) * 2 ^ n + v mod 2 ^ n"
    using uint_of_acc [of "of_bool (bit v n)" "uint_bits v n"] Suc by (simp add: uint_bits_Suc)
  also have "\<dots> = v mod 2 ^ Suc n" using take_bit_Suc_from_most [of n v] by (simp add: take_bit_eq_mod)
  finally show ?case .
qed simp

text \<open>What a cursor will read next, and the cursor after \<open>n\<close> bits.\<close>

definition ahead :: "cell_parser \<Rightarrow> bool list" where
  "ahead p = drop (cp_bit p) (cell_bits (cp_cell p))"

definition skip :: "nat \<Rightarrow> cell_parser \<Rightarrow> cell_parser" where
  "skip n p = p\<lparr>cp_bit := cp_bit p + n\<rparr>"

lemma skip_simps [simp]: "skip 0 p = p" "skip m (skip n p) = skip (n + m) p" "cp_cell (skip n p) = cp_cell p" "cp_bit (skip n p) = cp_bit p + n"
  by (simp_all add: skip_def ac_simps)

lemma ahead_skip [simp]: "ahead (skip n p) = drop n (ahead p)"
  by (simp add: ahead_def ac_simps)

lemma length_cell_bits [simp]: "length (cell_bits c) = bit_len c"
  by (simp add: cell_bits_def)

lemma load_bit_ahead: "ahead p = b # bs \<Longrightarrow> load_bit p = (Some b, skip 1 p)"
proof -
  assume a: "ahead p = b # bs"
  then have l: "cp_bit p < bit_len (cp_cell p)" by (metis ahead_def drop_all length_cell_bits linorder_not_less list.distinct(1))
  have "cell_bits (cp_cell p) ! cp_bit p = b" using a l unfolding ahead_def by (metis length_cell_bits nth_via_drop)
  with l show ?thesis by (simp add: load_bit_def skip_def cell_bits_def)
qed

lemma load_uint_loop_ahead:
  "ahead p = bs @ rest \<Longrightarrow> (v + 1) * 2 ^ length bs \<le> 2 ^ 128 \<Longrightarrow> load_uint_loop (length bs) v p = (Some (uint_of v bs), skip (length bs) p)"
proof (induction bs arbitrary: v p)
  case (Cons b bs)
  from Cons.prems(1) have l: "load_bit p = (Some b, skip 1 p)" "ahead (skip 1 p) = bs @ rest" using load_bit_ahead by auto
  have "(2 * v + of_bool b + 1) * 2 ^ length bs \<le> (2 * v + 2) * 2 ^ length bs" by (intro mult_le_mono1) simp
  also have "\<dots> \<le> 2 ^ 128" using Cons.prems(2) by (simp add: algebra_simps)
  finally have v: "(2 * v + of_bool b + 1) * 2 ^ length bs \<le> 2 ^ 128" .
  have "2 * v + 1 \<le> (2 * v + of_bool b + 1) * 2 ^ length bs" by (rule le_trans [OF _ mult_le_mono2 [of 1]]) simp_all
  with v have "2 * v < 2 ^ 128" by linarith
  with l Cons.IH [OF l(2) v] show ?case by simp
qed simp

lemma load_uint_ahead:
  assumes "ahead p = bs @ rest" "length bs \<le> 128" "bs \<noteq> []"
  shows "load_uint (length bs) p = (Some (uint_of 0 bs), skip (length bs) p)"
proof -
  have "length bs \<le> length (ahead p)" using assms(1) by simp
  then have "cp_bit p + length bs \<le> bit_len (cp_cell p)" using assms(3) by (cases bs) (auto simp: ahead_def)
  moreover have "(0 + 1) * 2 ^ length bs \<le> (2 :: nat) ^ 128" using power_increasing [OF assms(2), of "2 :: nat"] by simp
  ultimately show ?thesis using load_uint_loop_ahead [OF assms(1), of 0] assms(2) by (simp add: load_uint_def)
qed


text \<open>Each field reads back what was stored.\<close>

lemma load_uint_stored:
  assumes "ahead p = uint_bits v n @ rest" "0 < n" "n \<le> 128"
  shows "load_uint n p = (Some (v mod 2 ^ n), skip n p)"
proof -
  have "uint_bits v n \<noteq> []" using assms(2) by (metis length_uint_bits length_greater_0_conv)
  with load_uint_ahead [OF assms(1)] assms(3) show ?thesis by simp
qed

lemma load_int_stored:
  assumes "ahead p = uint_bits (nat (v mod 2 ^ n)) n @ rest" "0 < n" "n \<le> 128" "- (2 ^ (n - 1)) \<le> v" "v < 2 ^ (n - 1)"
  shows "load_int n p = (Some v, skip n p)"
proof -
  obtain m where n: "n = Suc m" using assms(2) by (cases n) auto
  define u where "u = nat (v mod 2 ^ n)"
  have u: "int u = v mod 2 ^ n" "u < 2 ^ n" by (simp_all add: u_def nat_less_iff)
  have l: "load_uint n p = (Some u, skip n p)"
    using load_uint_stored [OF assms(1-3)] u(2) by (simp add: u_def)
  have i: "int u = (if v < 0 then v + 2 ^ n else v)"
  proof (cases "v < 0")
    case True
    then have "(v + 2 ^ n) mod 2 ^ n = v + 2 ^ n" using assms(4) n by (intro mod_pos_pos_trivial) simp_all
    with True u show ?thesis by simp
  next
    case False
    then have "v mod 2 ^ n = v" using assms(5) n by (intro mod_pos_pos_trivial) simp_all
    with False u show ?thesis by simp
  qed
  have "bit u m \<longleftrightarrow> v < 0"
  proof -
    have "u div 2 ^ m = (if 2 ^ m \<le> u then 1 else 0)" using u(2) unfolding n by (auto intro!: div_nat_eqI)
    then have "bit u m \<longleftrightarrow> 2 ^ m \<le> u" unfolding bit_iff_odd by simp
    moreover have "2 ^ m \<le> u \<longleftrightarrow> 2 ^ m \<le> int u" by (metis of_nat_le_iff of_nat_numeral of_nat_power)
    ultimately show ?thesis using i assms(4,5) n by auto
  qed
  with l i n show ?thesis by (auto simp: load_int_def)
qed

lemma bit_byte_of: "j < 8 \<Longrightarrow> bit (drop_bit (i * 8) v AND 0xff) j = bit v (i * 8 + j)" for v :: nat
proof -
  have m: "(0xff :: nat) = mask 8" by (simp add: mask_eq_exp_minus_1)
  show "j < 8 \<Longrightarrow> ?thesis" unfolding m by (simp add: bit_and_iff bit_drop_bit_eq bit_mask_iff)
qed

lemma coins_bits: "concat (map (\<lambda>i. uint_bits (drop_bit (i * 8) v AND 0xff) 8) (rev [0..<k])) = uint_bits v (8 * k)"
proof (induction k)
  case (Suc k)
  have "uint_bits (drop_bit (k * 8) v AND 0xff) 8 = map (\<lambda>j. bit v (k * 8 + j)) (rev [0..<8])"
    unfolding uint_bits_def by (rule map_cong) (auto simp: bit_byte_of)
  also have "\<dots> = map (bit v) (rev [8 * k..<8 * Suc k])"
  proof -
    have "[8 * k..<8 * Suc k] = map (\<lambda>j. k * 8 + j) [0..<8]" by (simp add: map_add_upt [symmetric] ac_simps)
    then show ?thesis by (simp add: rev_map)
  qed
  moreover have "uint_bits v (8 * Suc k) = map (bit v) (rev [8 * k..<8 * Suc k]) @ uint_bits v (8 * k)"
    using upt_add_eq_append [of 0 "8 * k" 8] unfolding uint_bits_def map_append [symmetric] rev_append [symmetric] by (simp add: ac_simps)
  ultimately show ?case using Suc by simp
qed simp

declare bit_length.simps [simp del]

lemma less_exp_bit_length: "v < 2 ^ bit_length v"
proof (induction v rule: bit_length.induct)
  case (1 v)
  show ?case
  proof (cases "v = 0")
    case False
    with 1 have "v div 2 < 2 ^ bit_length (v div 2)" by simp
    then show ?thesis using False by (subst bit_length.simps) (simp add: div_less_iff_less_mult)
  qed (simp add: bit_length.simps)
qed

lemma bit_length_le: "v < 2 ^ k \<Longrightarrow> bit_length v \<le> k"
proof (induction v arbitrary: k rule: bit_length.induct)
  case (1 v)
  show ?case
  proof (cases "v = 0")
    case False
    then obtain k' where k: "k = Suc k'" using "1.prems" by (cases k) auto
    with "1.prems" have "v div 2 < 2 ^ k'" by (simp add: div_less_iff_less_mult)
    with 1(1) [OF False] k False show ?thesis by (subst bit_length.simps) simp
  qed (simp add: bit_length.simps)
qed

definition coins_len :: "nat \<Rightarrow> nat" where
  "coins_len v = (bit_length v + 7) div 8"

definition coin_bits :: "nat \<Rightarrow> bool list" where
  "coin_bits v = uint_bits (coins_len v) 4 @ uint_bits v (8 * coins_len v)"

definition address_bits :: "wallet_address \<Rightarrow> bool list" where
  "address_bits a = uint_bits 4 3 @ uint_bits (nat (workchain a mod 2 ^ 8)) 8 @ byte_bits (account a) 256"

lemma fold_store_uint_pack [simp]:
  "fold (\<lambda>i. store_uint (f i) n) is (pack bs rs) = pack (bs @ concat (map (\<lambda>i. uint_bits (f i) n) is)) rs"
  by (induction "is" arbitrary: bs) simp_all

lemma store_fields_pack [simp]:
  "store_coins v (pack bs rs) = pack (bs @ coin_bits v) rs"
  "store_address a (pack bs rs) = pack (bs @ address_bits a) rs"
  "store_u256 h (pack bs rs) = pack (bs @ byte_bits h 256) rs"
  by (simp_all add: store_coins_def coin_bits_def coins_len_def coins_bits Let_def store_address_def store_u256_def
      store_int_def address_bits_def)

text \<open>Amounts below \<open>2 ^ 120\<close> fit the format.\<close>

lemma coins_len_less: "v < 2 ^ 120 \<Longrightarrow> coins_len v \<le> 15" and less_coins_len: "v < 2 ^ (8 * coins_len v)"
proof -
  show "v < 2 ^ 120 \<Longrightarrow> coins_len v \<le> 15" using bit_length_le [of v 120] by (simp add: coins_len_def)
  have "bit_length v \<le> 8 * coins_len v" unfolding coins_len_def by simp
  then have "(2 :: nat) ^ bit_length v \<le> 2 ^ (8 * coins_len v)" by (rule power_increasing) simp
  with less_exp_bit_length [of v] show "v < 2 ^ (8 * coins_len v)" by (rule less_le_trans)
qed

lemma load_coins_stored:
  assumes "ahead p = coin_bits v @ rest" "v < 2 ^ 120"
  shows "load_coins p = (Some v, skip (length (coin_bits v)) p)"
proof -
  from coins_len_less [OF assms(2)] have k: "coins_len v mod 2 ^ 4 = coins_len v" by simp
  have l: "load_uint 4 p = (Some (coins_len v), skip 4 p)"
    using load_uint_stored [of p "coins_len v" 4] assms(1) k by (simp add: coin_bits_def)
  have a: "ahead (skip 4 p) = uint_bits v (8 * coins_len v) @ rest" using assms(1) by (simp add: coin_bits_def)
  show ?thesis
  proof (cases "coins_len v = 0")
    case True
    with less_coins_len [of v] l show ?thesis by (simp add: load_coins_def coin_bits_def)
  next
    case False
    with load_uint_stored [OF a] coins_len_less [OF assms(2)] less_coins_len [of v] l show ?thesis
      by (simp add: load_coins_def coin_bits_def mult.commute)
  qed
qed

lemma load_bits_loop_stored:
  assumes "ahead p = map (\<lambda>i. bit (h ! (i div 8)) (7 - i mod 8)) [k..<n] @ rest" "n = 8 * length h" "k \<le> n"
    and "out = map (\<lambda>m. pack_byte (map (\<lambda>j. 8 * m + j < k \<and> bit (h ! m) (7 - j)) [0..<8])) [0..<length h]"
  shows "load_bits_loop [k..<n] out p = (Some h, skip (n - k) p)"
  using assms
proof (induction "n - k" arbitrary: k out p)
  case 0
  then have k: "k = n" by simp
  have "pack_byte (map (\<lambda>j. 8 * m + j < k \<and> bit (h ! m) (7 - j)) [0..<8]) = h ! m" if "m < length h" for m
    using that k 0(3) by (intro u8_eqI) (auto simp: bit_pack_byte)
  then have "out = h" unfolding 0(5) by (intro nth_equalityI) auto
  with k show ?case by simp
next
  case (Suc d)
  then have k: "k < n" "[k..<n] = k # [Suc k..<n]" by (simp_all add: upt_conv_Cons)
  let ?b = "bit (h ! (k div 8)) (7 - k mod 8)"
  from Suc.prems(1) k(2) have l: "load_bit p = (Some ?b, skip 1 p)"
    "ahead (skip 1 p) = map (\<lambda>i. bit (h ! (i div 8)) (7 - i mod 8)) [Suc k..<n] @ rest"
    using load_bit_ahead by auto
  have m: "k div 8 < length h" using k(1) Suc.prems(2) by (simp add: div_less_iff_less_mult mult.commute)
  define out' where "out' = (if ?b then out[k div 8 := out ! (k div 8) OR push_bit (7 - k mod 8) 1] else out)"
  have "out' = map (\<lambda>m. pack_byte (map (\<lambda>j. 8 * m + j < Suc k \<and> bit (h ! m) (7 - j)) [0..<8])) [0..<length h]"
  proof (rule nth_equalityI)
    fix i assume "i < length out'"
    then have i: "i < length h" by (simp add: out'_def Suc.prems(4) split: if_splits)
    show "out' ! i = map (\<lambda>m. pack_byte (map (\<lambda>j. 8 * m + j < Suc k \<and> bit (h ! m) (7 - j)) [0..<8])) [0..<length h] ! i"
    proof (rule u8_eqI)
      fix j :: nat assume j: "j < 8"
      have "7 - j < 8" by simp
      then have o: "bit (out ! i) j \<longleftrightarrow> 8 * i + (7 - j) < k \<and> bit (h ! i) j" using i j by (simp add: Suc.prems(4) bit_pack_byte)
      have "8 * i + (7 - j) < Suc k \<longleftrightarrow> 8 * i + (7 - j) < k \<or> i = k div 8 \<and> j = 7 - k mod 8"
        using eq_div8 [OF j, of i k] by auto
      with o i j m show "bit (out' ! i) j = bit (map (\<lambda>m. pack_byte (map (\<lambda>j. 8 * m + j < Suc k \<and> bit (h ! m) (7 - j)) [0..<8])) [0..<length h] ! i) j"
        by (auto simp: out'_def bit_pack_byte nth_list_update bit_or_iff bit_exp_iff Suc.prems(4))
    qed
  qed (simp add: out'_def Suc.prems(4))
  moreover have "d = n - Suc k" "n - k = Suc (n - Suc k)" using Suc.hyps(2) k(1) by simp_all
  ultimately show ?case using Suc.hyps(1) [OF _ l(2) Suc.prems(2)] k(1) l(1) unfolding k(2) by (simp add: out'_def)
qed

lemma load_bits_stored:
  assumes "ahead p = byte_bits h n @ rest" "n = 8 * length h"
  shows "load_bits n p = (Some h, skip n p)"
proof -
  have "replicate (length h) 0 = map (\<lambda>m. pack_byte (map (\<lambda>j. 8 * m + j < 0 \<and> bit (h ! m) (7 - j)) [0..<8])) [0..<length h]"
    by (intro nth_equalityI u8_eqI) (auto simp: bit_pack_byte)
  from load_bits_loop_stored [OF _ assms(2) _ this, of p rest] assms show ?thesis by (simp add: load_bits_def byte_bits_def)
qed

text \<open>Addresses of a workchain of one byte, with an account of 32 bytes.\<close>

definition address_ok :: "wallet_address \<Rightarrow> bool" where
  "address_ok a \<longleftrightarrow> - 128 \<le> workchain a \<and> workchain a < 128 \<and> length (account a) = 32"

lemma load_address_stored:
  assumes "ahead p = address_bits a @ rest" "address_ok a"
  shows "load_address p = (Some a, skip 267 p)"
proof -
  let ?w = "uint_bits (nat (workchain a mod 2 ^ 8)) 8" and ?h = "byte_bits (account a) 256"
  have "uint_bits 4 3 = uint_bits 2 2 @ [False]" by code_simp
  then have a3: "ahead p = uint_bits 2 2 @ False # ?w @ ?h @ rest" using assms(1) by (simp add: address_bits_def)
  have l1: "load_uint 2 p = (Some 2, skip 2 p)" using load_uint_stored [OF a3] by simp
  have l2: "load_bit (skip 2 p) = (Some False, skip 3 p)" using load_bit_ahead [of "skip 2 p" False "?w @ ?h @ rest"] a3 by simp
  have l3: "load_int 8 (skip 3 p) = (Some (workchain a), skip 11 p)"
    using load_int_stored [of "skip 3 p" "workchain a" 8 "?h @ rest"] a3 assms(2) by (simp add: address_ok_def)
  have l4: "load_bits 256 (skip 11 p) = (Some (account a), skip 267 p)"
    using load_bits_stored [of "skip 11 p" "account a" 256 rest] a3 assms(2) by (simp add: address_ok_def)
  show ?thesis by (simp add: load_address_def l1 l2 l3 l4)
qed

section \<open>The hash of a cell identifies it\<close>

lemma pack_bytes_bit_at: "pack_bytes xs = pack_bytes ys \<Longrightarrow> bit_at xs i = bit_at ys i"
proof (cases "i div 8 < (length xs + 7) div 8")
  assume e: "pack_bytes xs = pack_bytes ys"
  then have l: "(length xs + 7) div 8 = (length ys + 7) div 8" by (metis length_pack_bytes)
  {
    case True
    have i: "8 * (i div 8) + (7 - (7 - i mod 8)) = i" "7 - i mod 8 < 8" by (simp_all add: algebra_simps)
    have "bit_at xs i \<longleftrightarrow> bit (pack_bytes xs ! (i div 8)) (7 - i mod 8)" using bit_pack_bytes [OF True] i by simp
    also have "\<dots> \<longleftrightarrow> bit_at ys i" unfolding e using bit_pack_bytes [OF True [unfolded l]] i by simp
    finally show ?thesis .
  next
    case False
    have "(length zs + 7) div 8 \<le> i div 8 \<Longrightarrow> length zs \<le> i" for zs :: "bool list"
      using ceil_div8 [of "length zs"] by (auto split: if_splits)
    with False l show ?thesis by (auto simp: bit_at_def not_less)
  }
qed


lemma bit_at_eqI: "(\<And>i. bit_at xs i = bit_at ys i) \<Longrightarrow> length xs = length ys \<Longrightarrow> xs = ys"
  by (rule nth_equalityI) (auto simp: bit_at_def)

lemma augmented_data_pack:
  "augmented_data (pack bs rs) = pack_bytes (if length bs mod 8 = 0 then bs else bs @ [True])"
proof (cases "length bs mod 8 = 0")
  case False
  then have "cell_data (cb_push_bit True (pack bs rs)) = set_in_last (7 - length bs mod 8) (pack_bytes bs)"
    unfolding cb_push_bit_def Let_def pack_simps by simp
  with False show ?thesis by (simp add: augmented_data_def Let_def)
qed (simp add: augmented_data_def)

lemma augmented_inject:
  assumes "augmented_data (pack bs rs) = augmented_data (pack bs' rs')" "length bs mod 8 = 0 \<longleftrightarrow> length bs' mod 8 = 0"
    and "length bs div 8 = length bs' div 8"
  shows "bs = bs'"
proof (cases "length bs mod 8 = 0")
  case True
  with assms(2,3) have "length bs = length bs'" by (metis mult_div_mod_eq)
  with True assms show ?thesis by (intro bit_at_eqI pack_bytes_bit_at) (simp_all add: augmented_data_pack)
next
  case False
  with assms have e: "bit_at (bs @ [True]) i = bit_at (bs' @ [True]) i" for i
    by (intro pack_bytes_bit_at) (simp add: augmented_data_pack)
  have le: "length ys \<le> length xs" if "\<And>i. bit_at (xs @ [True]) i = bit_at (ys @ [True]) i" for xs ys
    using that [of "length ys"] by (simp add: bit_at_def split: if_splits)
  have "length bs = length bs'" using le [of bs bs'] le [of bs' bs] e by auto
  moreover from this have "bs @ [True] = bs' @ [True]" by (intro bit_at_eqI e) simp
  ultimately show ?thesis by simp
qed

text \<open>
  Cells as the chain admits them, at most 1023 bits and four children each, with zeros after the last bit; and
  every string hashed on the way to the hash of a cell.
\<close>

primrec cell_ok :: "cell \<Rightarrow> bool" where
  "cell_ok (Cell d n rs) \<longleftrightarrow> d = pack_bytes (cell_bits (Cell d n rs)) \<and> n \<le> 1023 \<and> length rs \<le> 4 \<and> (\<forall>b\<in>set (map cell_ok rs). b)"

definition preimage :: "(bytes \<Rightarrow> hash32) \<Rightarrow> cell \<Rightarrow> bytes" where
  "preimage H c = descriptor c @ augmented_data c @ concat (map (\<lambda>r. be_bytes_of 2 (cell_depth r)) (cell_refs c)) @
     concat (map (repr_hash H) (cell_refs c))"

primrec preimages :: "(bytes \<Rightarrow> hash32) \<Rightarrow> cell \<Rightarrow> bytes set" where
  "preimages H (Cell d n rs) = insert (preimage H (Cell d n rs)) (\<Union> (set (map (preimages H) rs)))"

lemma repr_hash_preimage: "repr_hash H c = H (preimage H c)"
  by (cases c) (simp add: preimage_def)

lemma preimage_mem: "preimage H c \<in> preimages H c"
  by (cases c) simp

lemma preimages_refs: "r \<in> set (cell_refs c) \<Longrightarrow> preimages H r \<subseteq> preimages H c"
  by (cases c) auto

lemma cell_okD:
  assumes "cell_ok c"
  obtains bs rs where "c = pack bs rs" "length bs \<le> 1023" "length rs \<le> 4" "\<forall>r\<in>set rs. cell_ok r"
proof (cases c)
  case (Cell d n rs)
  define bs where "bs = cell_bits c"
  have "length bs = n" by (simp add: bs_def Cell)
  with assms have "c = pack bs rs" by (simp add: Cell pack_def bs_def)
  with assms that [of bs rs] show ?thesis by (simp add: Cell \<open>length bs = n\<close>)
qed

lemma cell_ok_pack: "cell_ok (pack bs rs) \<longleftrightarrow> length bs \<le> 1023 \<and> length rs \<le> 4 \<and> (\<forall>r\<in>set rs. cell_ok r)"
proof -
  have "cell_bits (Cell (pack_bytes bs) (length bs) rs) = bs" using cell_bits_pack [of bs rs] by (simp only: pack_def)
  then show ?thesis unfolding pack_def cell_ok.simps by simp
qed


definition d2_of :: "nat \<Rightarrow> nat" where
  "d2_of n = (if n mod 8 = 0 then 2 * (n div 8) else 2 * (n div 8) + 1)"

lemma descriptor_pack: "descriptor (pack bs rs) = [of_nat (length rs), of_nat (d2_of (length bs))]"
  by (simp add: descriptor_def d2_of_def)

lemma d2_of_less: "n \<le> 1023 \<Longrightarrow> d2_of n < 256"
  using div_le_mono [of n 1023 8] by (simp add: d2_of_def)

lemma d2_of_inject: "d2_of m = d2_of n \<Longrightarrow> m div 8 = n div 8 \<and> (m mod 8 = 0 \<longleftrightarrow> n mod 8 = 0)"
proof -
  have e: "even (d2_of n) \<longleftrightarrow> n mod 8 = 0" "d2_of n div 2 = n div 8" for n by (simp_all add: d2_of_def)
  assume "d2_of m = d2_of n"
  with e [of m] e [of n] show ?thesis by simp
qed

lemma of_nat_u8_inject: "a < 256 \<Longrightarrow> b < 256 \<Longrightarrow> (of_nat a :: u8) = of_nat b \<longleftrightarrow> a = b"
  by (simp add: word_of_nat_eq_iff take_bit_eq_mod)

lemma length_augmented: "length (augmented_data c) = length (cell_data c)"
  by (simp add: augmented_data_def Let_def)

lemma preimage_pack_inject:
  assumes "preimage H (pack bs rs) = preimage H (pack bs' rs')" "\<And>x. length (H x) = 32"
    and "length bs \<le> 1023" "length rs \<le> 4" "length bs' \<le> 1023" "length rs' \<le> 4"
  shows "bs = bs' \<and> map (repr_hash H) rs = map (repr_hash H) rs'"
proof -
  from assms(1) have d: "(of_nat (length rs) :: u8) = of_nat (length rs')" "(of_nat (d2_of (length bs)) :: u8) = of_nat (d2_of (length bs'))"
    and rest: "augmented_data (pack bs rs) @ concat (map (\<lambda>r. be_bytes_of 2 (cell_depth r)) rs) @ concat (map (repr_hash H) rs) =
      augmented_data (pack bs' rs') @ concat (map (\<lambda>r. be_bytes_of 2 (cell_depth r)) rs') @ concat (map (repr_hash H) rs')"
    unfolding preimage_def descriptor_pack by simp_all
  from d(1) assms(4,6) have n: "length rs = length rs'" by (simp add: of_nat_u8_inject)
  from d(2) d2_of_less [OF assms(3)] d2_of_less [OF assms(5)] have "d2_of (length bs) = d2_of (length bs')" by (simp add: of_nat_u8_inject)
  note dd = d2_of_inject [OF this]
  then have a: "length bs mod 8 = 0 \<longleftrightarrow> length bs' mod 8 = 0" by (rule conjunct2)
  from dd have q: "length bs div 8 = length bs' div 8" by (rule conjunct1)
  have h: "length (repr_hash H c) = 32" for c by (simp add: repr_hash_preimage assms(2))
  have "length (augmented_data (pack bs rs)) = length (augmented_data (pack bs' rs'))"
    using a q by (simp add: length_augmented ceil_div8)
  then have e: "augmented_data (pack bs rs) = augmented_data (pack bs' rs')"
    "concat (map (\<lambda>r. be_bytes_of 2 (cell_depth r)) rs) @ concat (map (repr_hash H) rs) =
      concat (map (\<lambda>r. be_bytes_of 2 (cell_depth r)) rs') @ concat (map (repr_hash H) rs')"
    using rest append_eq_append_conv by metis+
  have "length (concat (map (\<lambda>r. be_bytes_of 2 (cell_depth r)) xs)) = 2 * length xs" for xs
    by (simp add: length_concat comp_def be_bytes_of_def sum_list_triv)
  then have "length (concat (map (\<lambda>r. be_bytes_of 2 (cell_depth r)) rs)) = length (concat (map (\<lambda>r. be_bytes_of 2 (cell_depth r)) rs'))"
    using n by presburger
  with e(2) have "concat (map (repr_hash H) rs) = concat (map (repr_hash H) rs')" using append_eq_append_conv by blast
  from n this have "map (repr_hash H) rs = map (repr_hash H) rs'"
    by (induction rs rs' rule: list_induct2) (simp_all add: h)
  with augmented_inject [OF e(1) a q] show ?thesis by simp
qed

lemma repr_hash_inject:
  assumes "repr_hash H c = repr_hash H c'" "\<And>x. length (H x) = 32" "cell_ok c" "cell_ok c'" "inj_on H (preimages H c \<union> preimages H c')"
  shows "c = c'"
  using assms
proof (induction c arbitrary: c')
  case (Cell d n rs0)
  obtain bs rs where c: "Cell d n rs0 = pack bs rs" "length bs \<le> 1023" "length rs \<le> 4" "\<forall>r\<in>set rs. cell_ok r"
    using Cell.prems(3) by (rule cell_okD)
  have rs: "rs0 = rs" using arg_cong [OF c(1), of cell_refs] by simp
  obtain bs' rs' where c': "c' = pack bs' rs'" "length bs' \<le> 1023" "length rs' \<le> 4" "\<forall>r\<in>set rs'. cell_ok r"
    using Cell.prems(4) by (rule cell_okD)
  have "H (preimage H (pack bs rs)) = H (preimage H (pack bs' rs'))"
    using Cell.prems(1) unfolding c(1) c'(1) by (simp add: repr_hash_preimage)
  then have "preimage H (pack bs rs) = preimage H (pack bs' rs')"
    by (rule inj_onD [OF Cell.prems(5)]) (simp_all add: c(1) c'(1) preimage_mem)
  from preimage_pack_inject [OF this Cell.prems(2) c(2,3) c'(2,3)] have e: "bs = bs'" "map (repr_hash H) rs = map (repr_hash H) rs'" by auto
  have len: "length rs = length rs'" using e(2) by (rule map_eq_imp_length_eq)
  have "rs ! i = rs' ! i" if "i < length rs" for i
  proof (rule Cell.IH)
    have m: "rs ! i \<in> set rs" "rs' ! i \<in> set rs'" using that len by simp_all
    then show "rs ! i \<in> set rs0" "cell_ok (rs ! i)" "cell_ok (rs' ! i)" using c(4) c'(4) rs by simp_all
    show "repr_hash H (rs ! i) = repr_hash H (rs' ! i)" using arg_cong [OF e(2), of "\<lambda>xs. xs ! i"] that len by simp
    show "inj_on H (preimages H (rs ! i) \<union> preimages H (rs' ! i))"
    proof (rule inj_on_subset [OF Cell.prems(5)])
      have "preimages H (rs ! i) \<subseteq> preimages H (pack bs rs)" "preimages H (rs' ! i) \<subseteq> preimages H (pack bs' rs')"
        using m by (simp_all add: preimages_refs)
      then show "preimages H (rs ! i) \<union> preimages H (rs' ! i) \<subseteq> preimages H (Cell d n rs0) \<union> preimages H c'"
        unfolding c(1) c'(1) by (rule Un_mono)
    qed
  qed (rule Cell.prems(2))
  then have "rs = rs'" using len by (rule nth_equalityI [rotated])
  with e(1) show ?case by (simp add: c(1) c'(1))
qed

section \<open>Addresses\<close>

definition state_init_cell :: "cell \<Rightarrow> cell \<Rightarrow> cell" where
  "state_init_cell code data = store_ref data (store_ref code (store_uint 6 5 cell_new))"

definition from_state_init :: "(bytes \<Rightarrow> hash32) \<Rightarrow> int \<Rightarrow> cell \<Rightarrow> cell \<Rightarrow> wallet_address" where
  "from_state_init H wc code data = \<lparr>workchain = wc, account = repr_hash H (state_init_cell code data)\<rparr>"

definition from_code_hash_state_init :: "(bytes \<Rightarrow> hash32) \<Rightarrow> int \<Rightarrow> hash32 \<Rightarrow> u16 \<Rightarrow> cell \<Rightarrow> wallet_address" where
  "from_code_hash_state_init H wc code_hash code_depth data = \<lparr>workchain = wc, account =
     H ([2, 1] @ [0x34] @ be_bytes_of 2 code_depth @ be_bytes_of 2 (cell_depth data) @ code_hash @ repr_hash H data)\<rparr>"

lemma state_init_pack: "state_init_cell code data = pack (uint_bits 6 5) [code, data]"
  by (simp add: state_init_cell_def cell_new_pack)

text \<open>The shortcut through the hash and the depth of the code gives the same address.\<close>

theorem code_hash_address:
  "from_code_hash_state_init H wc (repr_hash H code) (cell_depth code) data = from_state_init H wc code data"
proof -
  have "pack_bytes (uint_bits 6 5 @ [True]) = [0x34]" by code_simp
  then have "augmented_data (state_init_cell code data) = [0x34]" by (simp add: state_init_pack augmented_data_pack)
  moreover have "descriptor (state_init_cell code data) = [2, 1]" by (simp add: state_init_pack descriptor_def)
  ultimately show ?thesis
    unfolding from_code_hash_state_init_def from_state_init_def repr_hash_preimage [of H "state_init_cell code data"] preimage_def
    by (simp add: state_init_pack)
qed

text \<open>An address stands for one code and one initial storage.\<close>

lemma from_state_init_inject:
  assumes "from_state_init H wc code data = from_state_init H wc' code' data'" "\<And>x. length (H x) = 32"
    and "cell_ok code" "cell_ok data" "cell_ok code'" "cell_ok data'"
    and "inj_on H (preimages H (state_init_cell code data) \<union> preimages H (state_init_cell code' data'))"
  shows "wc = wc' \<and> code = code' \<and> data = data'"
proof -
  have "state_init_cell code data = state_init_cell code' data'"
    using assms(1,3-6) by (intro repr_hash_inject [OF _ assms(2) _ _ assms(7)]) (simp_all add: from_state_init_def state_init_pack cell_ok_pack)
  with assms(1) show ?thesis by (simp add: from_state_init_def state_init_pack)
qed

end
