(* ===== verification/Spec2Isabelle.thy ===== *)
theory Spec2Isabelle
  imports Canonical Token Governor Persistent Attempt Vault Params Disputes Bridge Cells
begin

text \<open>
  A verification library for the DuckDB grid: peers run queries for each other, compare result
  hashes, keep a reputation and settle payments.

  \<^item> \<open>Prelude\<close>: shared types and interfaces.
  \<^item> \<open>Canonical\<close>: canonical result hash and quorum tally.
\<close>

end
